(* ===== verification/Prelude.thy ===== *)
theory Prelude
  imports Main "HOL-Library.Char_ord"
begin

text \<open>
  What the components share: the names of the model's basic types, the collections of
  rewrite rules that the component proofs use, and generic lemmas on lists, maps and
  options. A Go string or byte slice is a list of bytes (\<open>bytes\<close>), one
  \<^typ>\<open>char\<close> per byte; a Go \<open>error\<close> is the left summand of a sum or a value of an
  error datatype of the component that raises it.
\<close>

type_synonym bytes = "char list"

abbreviation byte :: "char \<Rightarrow> nat" where
  "byte c \<equiv> of_char c"

abbreviation char_between :: "char \<Rightarrow> char \<Rightarrow> char \<Rightarrow> bool" where
  "char_between lo hi c \<equiv> lo \<le> c \<and> c \<le> hi"

named_theorems writer_simps "how the response-writer operations act on each observable field"
named_theorems frame_simps "which parts of the server state an operation leaves alone"
named_theorems string_defs "definitions of the string functions of the standard library"

subsection \<open>Lists\<close>

lemma takeWhile_eq_all [simp]: "(\<And>x. x \<in> set xs \<Longrightarrow> P x) \<Longrightarrow> takeWhile P xs = xs"
  by (simp add: takeWhile_eq_all_conv)

lemma dropWhile_last_cases:
  "dropWhile P (rev xs) = [] \<or> (\<exists>ys y. rev (dropWhile P (rev xs)) = ys @ [y] \<and> \<not> P y)"
proof (cases "dropWhile P (rev xs)")
  case (Cons y ys)
  then have "\<not> P y" using hd_dropWhile [of P "rev xs"] by simp
  with Cons show ?thesis by simp
qed simp

lemma list_all_filter_id: "list_all P xs \<Longrightarrow> filter P xs = xs"
  by (simp add: list_all_iff)

lemma list_all_concat: "list_all P (concat xss) = list_all (list_all P) xss"
  by (induction xss) simp_all

lemma list_all_take: "list_all P xs \<Longrightarrow> list_all P (take n xs)"
  by (auto simp: list_all_iff dest: in_set_takeD)

lemma length_filter_append [simp]:
  "length (filter P (xs @ ys)) = length (filter P xs) + length (filter P ys)"
  by simp

subsection \<open>Options and sums\<close>

fun is_Inr :: "'a + 'b \<Rightarrow> bool" where
  "is_Inr (Inl _) = False"
| "is_Inr (Inr _) = True"

lemma is_Inr_iff: "is_Inr x \<longleftrightarrow> (\<exists>y. x = Inr y)"
  by (cases x) simp_all

end
