(* ===== verification/RateLimit.thy ===== *)
theory RateLimit
  imports Prelude
begin

text \<open>
  \<open>internal/ratelimit/ratelimit.go\<close>: one token bucket per caller identity. The bucket is
  \<open>rate.Limiter\<close> of \<open>golang.org/x/time\<close>, which is not part of the repository: its three
  operations are the parameters in \<open>rate_lib\<close>. What this package adds is the map from callers
  to buckets, created on first use under a mutex, with \<open>Allow\<close> called on the bucket after
  the mutex is released.
\<close>

record ('l, 'b) rate_lib =
  lib_Every :: "int \<Rightarrow> 'l"
  lib_NewLimiter :: "'l \<Rightarrow> int \<Rightarrow> 'b"
  lib_Allow :: "int \<Rightarrow> 'b \<Rightarrow> bool \<times> 'b"

record ('l, 'b) Limiter =
  rl_perMinute :: int
  rl_limit :: "'l option"
  rl_burst :: int
  rl_limiters :: "bytes \<rightharpoonup> 'b"

text \<open>
  \<open>rl_limit\<close> is \<open>None\<close> for the zero rate of a limiter that is off; \<open>New\<close> leaves no other limiter
  without a rate.
\<close>

text \<open>\<open>time.Minute\<close> in nanoseconds, and the refill interval: a division of integers.\<close>

definition minute :: int where
  "minute = 60000000000"

definition refill_interval :: "int \<Rightarrow> int" where
  "refill_interval perMinute = minute div perMinute"

definition New :: "('l, 'b) rate_lib \<Rightarrow> int \<Rightarrow> ('l, 'b) Limiter" where
  "New lib perMinute =
     (if perMinute \<le> 0
      then \<lparr>rl_perMinute = 0, rl_limit = None, rl_burst = 0, rl_limiters = Map.empty\<rparr>
      else \<lparr>rl_perMinute = perMinute,
            rl_limit = Some (lib_Every lib (refill_interval perMinute)),
            rl_burst = perMinute, rl_limiters = Map.empty\<rparr>)"

definition Enabled :: "('l, 'b) Limiter \<Rightarrow> bool" where
  "Enabled l \<longleftrightarrow> 0 < rl_perMinute l"

definition PerMinute :: "('l, 'b) Limiter \<Rightarrow> int" where
  "PerMinute l = rl_perMinute l"

text \<open>The bucket a new caller gets.\<close>

definition fresh_bucket :: "('l, 'b) rate_lib \<Rightarrow> ('l, 'b) Limiter \<Rightarrow> 'b option" where
  "fresh_bucket lib l = map_option (\<lambda>lim. lib_NewLimiter lib lim (rl_burst l)) (rl_limit l)"

text \<open>The critical section of \<open>Allow\<close>: the caller's bucket, created if it is missing.\<close>

definition lookup_or_create ::
  "('l, 'b) rate_lib \<Rightarrow> bytes \<Rightarrow> ('l, 'b) Limiter \<Rightarrow> 'b option \<times> ('l, 'b) Limiter" where
  "lookup_or_create lib caller l =
     (case rl_limiters l caller of
        Some b \<Rightarrow> (Some b, l)
      | None \<Rightarrow>
          (case fresh_bucket lib l of
             None \<Rightarrow> (None, l)
           | Some b \<Rightarrow> (Some b, l\<lparr>rl_limiters := (rl_limiters l)(caller \<mapsto> b)\<rparr>)))"

definition Allow ::
  "('l, 'b) rate_lib \<Rightarrow> int \<Rightarrow> bytes \<Rightarrow> ('l, 'b) Limiter \<Rightarrow> bool \<times> ('l, 'b) Limiter" where
  "Allow lib now caller l =
     (if rl_perMinute l \<le> 0 then (True, l)
      else case lookup_or_create lib caller l of
             (None, l') \<Rightarrow> (True, l')
           | (Some b, l') \<Rightarrow>
               (case lib_Allow lib now b of
                  (ok, b') \<Rightarrow> (ok, l'\<lparr>rl_limiters := (rl_limiters l')(caller \<mapsto> b')\<rparr>)))"

subsection \<open>Runs\<close>

text \<open>A sequence of requests (time and caller), and the calls on one bucket alone.\<close>

fun run_limiter ::
  "('l, 'b) rate_lib \<Rightarrow> (int \<times> bytes) list \<Rightarrow> ('l, 'b) Limiter \<Rightarrow> bool list \<times> ('l, 'b) Limiter" where
  "run_limiter lib [] l = ([], l)"
| "run_limiter lib ((now, c) # rs) l =
     (case Allow lib now c l of
        (ok, l') \<Rightarrow> (case run_limiter lib rs l' of (oks, l'') \<Rightarrow> (ok # oks, l'')))"

fun run_bucket :: "('l, 'b) rate_lib \<Rightarrow> int list \<Rightarrow> 'b \<Rightarrow> bool list \<times> 'b" where
  "run_bucket lib [] b = ([], b)"
| "run_bucket lib (now # ts) b =
     (case lib_Allow lib now b of
        (ok, b') \<Rightarrow> (case run_bucket lib ts b' of (oks, b'') \<Rightarrow> (ok # oks, b'')))"

text \<open>The decisions about one caller, and the times at which it asked.\<close>

definition decisions_of :: "bytes \<Rightarrow> (int \<times> bytes) list \<Rightarrow> bool list \<Rightarrow> bool list" where
  "decisions_of c rs oks = map snd (filter (\<lambda>x. snd (fst x) = c) (zip rs oks))"

definition times_of :: "bytes \<Rightarrow> (int \<times> bytes) list \<Rightarrow> int list" where
  "times_of c rs = map fst (filter (\<lambda>r. snd r = c) rs)"

text \<open>A limiter that is on: it has a rate to give to new buckets.\<close>

definition limiter_on :: "('l, 'b) Limiter \<Rightarrow> bool" where
  "limiter_on l \<longleftrightarrow> 0 < rl_perMinute l \<and> rl_limit l \<noteq> None"

definition bucket_of :: "('l, 'b) rate_lib \<Rightarrow> bytes \<Rightarrow> ('l, 'b) Limiter \<Rightarrow> 'b" where
  "bucket_of lib c l =
     (case rl_limiters l c of Some b \<Rightarrow> b | None \<Rightarrow> the (fresh_bucket lib l))"

named_theorems limiter_simps "effect of Allow on the limiter"

lemma New_on: "0 < n \<Longrightarrow> limiter_on (New lib n)"
  by (simp add: limiter_on_def New_def)

lemma Allow_on:
  assumes "limiter_on l"
  shows "Allow lib now c l =
    (fst (lib_Allow lib now (bucket_of lib c l)),
     l\<lparr>rl_limiters := (rl_limiters l)(c \<mapsto> snd (lib_Allow lib now (bucket_of lib c l)))\<rparr>)"
  using assms
  by (auto simp: Allow_def lookup_or_create_def bucket_of_def limiter_on_def fresh_bucket_def
      split: option.splits prod.splits)

lemma limiter_on_upd [simp]: "limiter_on (rl_limiters_update f l) = limiter_on l"
  by (simp add: limiter_on_def)

lemma fresh_bucket_upd [simp]: "fresh_bucket lib (rl_limiters_update f l) = fresh_bucket lib l"
  by (simp add: fresh_bucket_def)

lemma bucket_of_upd [simp]:
  "bucket_of lib c (l\<lparr>rl_limiters := (rl_limiters l)(d \<mapsto> b)\<rparr>) =
     (if c = d then b else bucket_of lib c l)"
  by (auto simp: bucket_of_def split: option.split)

lemma run_limiter_isolated:
  "limiter_on l \<Longrightarrow>
   decisions_of c rs (fst (run_limiter lib rs l)) = fst (run_bucket lib (times_of c rs) (bucket_of lib c l))"
proof (induction rs arbitrary: l)
  case (Cons r rs)
  obtain now d where r: "r = (now, d)" by force
  show ?case
    using Cons.prems
      Cons.IH [of "l\<lparr>rl_limiters := (rl_limiters l)
        (d \<mapsto> snd (lib_Allow lib now (bucket_of lib d l)))\<rparr>"]
    by (auto simp: r Allow_on decisions_of_def times_of_def split_beta)
qed (simp add: decisions_of_def times_of_def)

text \<open>C23: callers do not influence each other: whatever the other callers do in between, the
  decisions about one caller are those of a bucket of its own, of burst \<open>perMinute\<close> and rate one
  token per refill interval, that sees only its own requests at their times.\<close>

theorem limiter_isolates_callers:
  assumes "0 < perMinute"
  shows "decisions_of c rs (fst (run_limiter lib rs (New lib perMinute))) =
    fst (run_bucket lib (times_of c rs)
      (lib_NewLimiter lib (lib_Every lib (refill_interval perMinute)) perMinute))"
  using run_limiter_isolated [OF New_on [OF assms], of c rs lib lib] assms
  by (simp add: bucket_of_def fresh_bucket_def New_def)

text \<open>A bucket that is never refilled, as a concrete instance of the library's operations.\<close>

definition drain_lib :: "(int, int) rate_lib" where
  "drain_lib =
     \<lparr>lib_Every = (\<lambda>i. i), lib_NewLimiter = (\<lambda>_ b. b), lib_Allow = (\<lambda>_ n. (0 < n, n - 1))\<rparr>"

theorem limiter_isolates_callers_witness:
  "decisions_of ''a'' [(1, ''a''), (2, ''b''), (3, ''a''), (4, ''a'')]
     (fst (run_limiter drain_lib [(1, ''a''), (2, ''b''), (3, ''a''), (4, ''a'')] (New drain_lib 2)))
   = [True, True, False]"
  by (subst limiter_isolates_callers) (simp_all add: times_of_def drain_lib_def)

text \<open>With a non-positive configured rate nothing is ever refused, and the limiter keeps no
  state at all.\<close>

theorem disabled_limiter_allows_all:
  assumes "perMinute \<le> 0"
  shows "run_limiter lib rs (New lib perMinute) = (replicate (length rs) True, New lib perMinute)"
proof (induction rs)
  case (Cons r rs)
  obtain now c where "r = (now, c)" by force
  with Cons assms show ?case by (simp add: Allow_def New_def)
qed simp

theorem disabled_limiter_allows_all_witness:
  "fst (run_limiter drain_lib [(0, ''a''), (0, ''a'')] (New drain_lib (- 5))) = [True, True]"
  using disabled_limiter_allows_all [of "- 5" drain_lib "[(0, ''a''), (0, ''a'')]"] by simp

subsection \<open>How exact the configured rate is\<close>

text \<open>
  The interval is rounded down to a whole nanosecond, so the rate is never below the
  configured one; it is exact when the number divides a minute's nanoseconds, and from
  \<open>perMinute\<close> above that number on the interval is 0.
\<close>

text \<open>\<open>perMinute\<close> refill intervals last at most one minute and less than \<open>perMinute\<close> nanoseconds
  short of it, and exactly one minute just when \<open>perMinute\<close> divides 60 000 000 000.\<close>

theorem refill_interval_bounds:
  assumes "0 < perMinute"
  shows "perMinute * refill_interval perMinute \<le> minute \<and>
    minute - perMinute < perMinute * refill_interval perMinute \<and>
    (perMinute * refill_interval perMinute = minute \<longleftrightarrow> perMinute dvd minute) \<and>
    (refill_interval perMinute = 0 \<longleftrightarrow> minute < perMinute)"
proof -
  have eq: "minute = perMinute * (minute div perMinute) + minute mod perMinute" by simp
  have r: "0 \<le> minute mod perMinute" "minute mod perMinute < perMinute"
    using assms by simp_all
  have "perMinute * refill_interval perMinute = minute \<longleftrightarrow> perMinute dvd minute"
    by (metis dvd_mult_div_cancel dvd_triv_left refill_interval_def)
  moreover have "refill_interval perMinute = 0 \<longleftrightarrow> minute < perMinute"
    using assms by (auto simp: refill_interval_def minute_def zdiv_eq_0_iff)
  ultimately show ?thesis using eq r unfolding refill_interval_def by linarith
qed

theorem refill_interval_bounds_witness:
  "7 * refill_interval 7 \<le> minute \<and> 7 * refill_interval 7 \<noteq> minute"
  using refill_interval_bounds [of 7] by (simp add: minute_def)

end
