(* ===== verification/RateLimitConc.thy ===== *)
theory RateLimitConc
  imports RateLimit
begin

text \<open>
  \<open>Allow\<close> under concurrency. Between the mutex of the map and the bucket's own mutex a
  goroutine holds only a pointer to its bucket, so other goroutines run in between. The steps
  below are one goroutine's two critical sections, in any interleaving; the result is that
  every execution is equivalent to the sequential limiter run on the requests in the order of
  their second step.
\<close>

datatype pc = Idle | Holding bytes nat

text \<open>
  The map from callers to bucket pointers, the heap of buckets, the goroutines, and the history
  of decisions in the order in which the buckets made them.
\<close>

record 'b conc =
  cc_map :: "bytes \<rightharpoonup> nat"
  cc_heap :: "nat \<Rightarrow> 'b"
  cc_next :: nat
  cc_pc :: "nat \<Rightarrow> pc"
  cc_hist :: "((int \<times> bytes) \<times> bool) list"

definition conc_init :: "(nat \<Rightarrow> 'b) \<Rightarrow> 'b conc" where
  "conc_init h = \<lparr>cc_map = Map.empty, cc_heap = h, cc_next = 0, cc_pc = (\<lambda>_. Idle), cc_hist = []\<rparr>"

text \<open>
  \<open>found\<close> and \<open>create\<close> are the section under \<open>l.mu\<close>; \<open>decide\<close> is \<open>rl.Allow()\<close>. The bucket a
  new caller gets is \<open>b0\<close>, the library's \<open>NewLimiter(l.limit, l.burst)\<close>.
\<close>

inductive conc_step ::
  "('l, 'b) rate_lib \<Rightarrow> 'b \<Rightarrow> 'b conc \<Rightarrow> 'b conc \<Rightarrow> bool" for lib b0 where
  found: "cc_pc s t = Idle \<Longrightarrow> cc_map s c = Some p \<Longrightarrow>
     conc_step lib b0 s (s\<lparr>cc_pc := (cc_pc s)(t := Holding c p)\<rparr>)"
| create: "cc_pc s t = Idle \<Longrightarrow> cc_map s c = None \<Longrightarrow>
     conc_step lib b0 s
       (s\<lparr>cc_map := (cc_map s)(c \<mapsto> cc_next s), cc_heap := (cc_heap s)(cc_next s := b0),
          cc_next := Suc (cc_next s), cc_pc := (cc_pc s)(t := Holding c (cc_next s))\<rparr>)"
| decide: "cc_pc s t = Holding c p \<Longrightarrow> lib_Allow lib now (cc_heap s p) = (ok, b') \<Longrightarrow>
     conc_step lib b0 s
       (s\<lparr>cc_heap := (cc_heap s)(p := b'), cc_pc := (cc_pc s)(t := Idle),
          cc_hist := cc_hist s @ [((now, c), ok)]\<rparr>)"

inductive_cases conc_stepE: "conc_step lib b0 s s'"

inductive conc_reachable :: "('l, 'b) rate_lib \<Rightarrow> 'b \<Rightarrow> 'b conc \<Rightarrow> bool" for lib b0 where
  start: "conc_reachable lib b0 (conc_init h)"
| step: "conc_reachable lib b0 s \<Longrightarrow> conc_step lib b0 s s' \<Longrightarrow> conc_reachable lib b0 s'"

text \<open>
  The invariant: pointers in the map are allocated and belong to one caller each; a goroutine
  holds the pointer that the map has for its caller; and the sequential limiter, run on the
  history, makes the decisions of the history and ends with the buckets of the heap, except
  that it has not yet created a bucket that is still untouched.
\<close>

definition pointers_ok :: "'b conc \<Rightarrow> bool" where
  "pointers_ok s \<longleftrightarrow>
     (\<forall>c p. cc_map s c = Some p \<longrightarrow> p < cc_next s) \<and>
     (\<forall>c d p. cc_map s c = Some p \<longrightarrow> cc_map s d = Some p \<longrightarrow> c = d) \<and>
     (\<forall>t c p. cc_pc s t = Holding c p \<longrightarrow> cc_map s c = Some p)"

definition seq_run ::
  "('l, 'b) rate_lib \<Rightarrow> ('l, 'b) Limiter \<Rightarrow> 'b conc \<Rightarrow> bool list \<times> ('l, 'b) Limiter" where
  "seq_run lib l0 s = run_limiter lib (map fst (cc_hist s)) l0"

definition simulates :: "('l, 'b) rate_lib \<Rightarrow> ('l, 'b) Limiter \<Rightarrow> 'b conc \<Rightarrow> bool" where
  "simulates lib l0 s \<longleftrightarrow>
     fst (seq_run lib l0 s) = map snd (cc_hist s) \<and>
     limiter_on (snd (seq_run lib l0 s)) \<and>
     fresh_bucket lib (snd (seq_run lib l0 s)) = fresh_bucket lib l0 \<and>
     (\<forall>c. case cc_map s c of
            None \<Rightarrow> rl_limiters (snd (seq_run lib l0 s)) c = None
          | Some p \<Rightarrow> bucket_of lib c (snd (seq_run lib l0 s)) = cc_heap s p)"

lemma simulates_None:
  "simulates lib l0 s \<Longrightarrow> cc_map s c = None \<Longrightarrow> rl_limiters (snd (seq_run lib l0 s)) c = None"
  unfolding simulates_def by (drule conjunct2, drule conjunct2, drule conjunct2, drule spec [of _ c]) simp

lemma simulates_Some:
  "simulates lib l0 s \<Longrightarrow> cc_map s c = Some p \<Longrightarrow>
   bucket_of lib c (snd (seq_run lib l0 s)) = cc_heap s p"
  unfolding simulates_def by (drule conjunct2, drule conjunct2, drule conjunct2, drule spec [of _ c]) simp

lemma run_limiter_append:
  "run_limiter lib (rs @ rs') l =
     (fst (run_limiter lib rs l) @ fst (run_limiter lib rs' (snd (run_limiter lib rs l))),
      snd (run_limiter lib rs' (snd (run_limiter lib rs l))))"
proof (induction rs arbitrary: l)
  case (Cons r rs)
  then show ?case by (cases r) (simp add: split_beta)
qed simp

lemma pointers_ok_step:
  assumes "conc_step lib b0 s s'" and "pointers_ok s"
  shows "pointers_ok s'"
  using assms
proof cases
  case (create t c)
  have "cc_map s d \<noteq> Some (cc_next s)" for d
    using assms(2) by (auto simp: pointers_ok_def)
  then show ?thesis
    using assms(2) create by (auto simp: pointers_ok_def less_Suc_eq)
qed (auto simp: pointers_ok_def split: if_splits)

lemma simulates_step:
  assumes "conc_step lib b0 s s'" and "pointers_ok s" and "simulates lib l0 s"
    and b0: "fresh_bucket lib l0 = Some b0"
  shows "simulates lib l0 s'"
  using assms(1)
proof cases
  case (found t c p)
  then have run: "seq_run lib l0 s' = seq_run lib l0 s" by (simp add: seq_run_def)
  have same: "cc_map s' = cc_map s" "cc_heap s' = cc_heap s" "cc_hist s' = cc_hist s"
    using found(1) by simp_all
  show ?thesis using assms(3) unfolding simulates_def run same .
next
  case (create t c)
  have other: "cc_map s d \<noteq> Some (cc_next s)" for d
    using assms(2) by (auto simp: pointers_ok_def)
  have "rl_limiters (snd (seq_run lib l0 s)) c = None"
    using simulates_None [OF assms(3) create(3)] .
  then have b: "bucket_of lib c (snd (seq_run lib l0 s)) = b0"
    using assms(3) b0 by (simp add: bucket_of_def simulates_def)
  have run: "seq_run lib l0 s' = seq_run lib l0 s" using create(1) by (simp add: seq_run_def)
  have "case cc_map s' d of None \<Rightarrow> rl_limiters (snd (seq_run lib l0 s)) d = None
      | Some q \<Rightarrow> bucket_of lib d (snd (seq_run lib l0 s)) = cc_heap s' q" for d
    using simulates_None [OF assms(3), of d] simulates_Some [OF assms(3), of d]
      b create(1) other [of d]
    by (cases "d = c") (auto split: option.splits)
  moreover have "cc_hist s' = cc_hist s" using create(1) by simp
  ultimately show ?thesis using assms(3) unfolding simulates_def run by simp
next
  case (decide t c p now ok b')
  define l where "l = snd (seq_run lib l0 s)"
  have p: "cc_map s c = Some p" using assms(2) decide(2) by (auto simp: pointers_ok_def)
  have inj: "cc_map s d = Some p \<Longrightarrow> d = c" for d
    using assms(2) p by (auto simp: pointers_ok_def)
  have on: "limiter_on l" using assms(3) by (simp add: simulates_def l_def)
  have "bucket_of lib c l = cc_heap s p"
    using simulates_Some [OF assms(3) p] by (simp add: l_def)
  then have "Allow lib now c l = (ok, l\<lparr>rl_limiters := (rl_limiters l)(c \<mapsto> b')\<rparr>)"
    using on decide(3) by (simp add: Allow_on)
  then have run: "seq_run lib l0 s' =
      (map snd (cc_hist s'), l\<lparr>rl_limiters := (rl_limiters l)(c \<mapsto> b')\<rparr>)"
    using assms(3) decide(1)
    by (simp add: seq_run_def run_limiter_append simulates_def l_def)
  have map': "cc_map s' = cc_map s" and heap': "cc_heap s' = (cc_heap s)(p := b')"
    using decide(1) by simp_all
  have "case cc_map s d of None \<Rightarrow> ((rl_limiters l)(c \<mapsto> b')) d = None
      | Some q \<Rightarrow> (if d = c then b' else bucket_of lib d l) = ((cc_heap s)(p := b')) q" for d
  proof (cases "cc_map s d")
    case None
    then show ?thesis using simulates_None [OF assms(3) None] p by (auto simp: l_def)
  next
    case (Some q)
    then have "d = c \<longleftrightarrow> q = p" using p inj [of d] by auto
    then show ?thesis using simulates_Some [OF assms(3) Some] Some by (simp add: l_def)
  qed
  then show ?thesis
    using on assms(3) unfolding simulates_def run map' heap' fst_conv snd_conv
    by (simp add: l_def [symmetric] cong: option.case_cong)
qed

lemma reachable_simulates:
  assumes "conc_reachable lib b0 s" and "limiter_on l0" and "rl_limiters l0 = Map.empty"
    and "fresh_bucket lib l0 = Some b0"
  shows "pointers_ok s \<and> simulates lib l0 s"
  using assms(1)
proof induction
  case (start h)
  then show ?case
    using assms(2,3)
    by (simp add: conc_init_def pointers_ok_def simulates_def seq_run_def)
next
  case (step s s')
  from step.IH have "pointers_ok s" and "simulates lib l0 s" by simp_all
  with step.hyps(2) assms(4) show ?case by (simp add: pointers_ok_step simulates_step)
qed

text \<open>C14: concurrent calls of Allow are linearizable: in every reachable state of any number of
  goroutines, the decisions made so far are those of the sequential limiter on the same
  requests in the order of the buckets' decisions, and no two callers share a bucket.\<close>

theorem concurrent_allow_linearizable:
  assumes "0 < perMinute"
    and "conc_reachable lib
      (lib_NewLimiter lib (lib_Every lib (refill_interval perMinute)) perMinute) s"
  shows "fst (run_limiter lib (map fst (cc_hist s)) (New lib perMinute)) = map snd (cc_hist s) \<and>
    inj_on (cc_map s) (dom (cc_map s))"
proof -
  have e: "rl_limiters (New lib perMinute) = Map.empty"
    and f: "fresh_bucket lib (New lib perMinute) =
      Some (lib_NewLimiter lib (lib_Every lib (refill_interval perMinute)) perMinute)"
    using assms(1) by (simp_all add: New_def fresh_bucket_def)
  have "pointers_ok s \<and> simulates lib (New lib perMinute) s"
    by (rule reachable_simulates [OF assms(2) New_on [OF assms(1)] e f])
  then have "simulates lib (New lib perMinute) s" and ptr: "pointers_ok s" by simp_all
  then have "fst (run_limiter lib (map fst (cc_hist s)) (New lib perMinute)) = map snd (cc_hist s)"
    by (simp add: simulates_def seq_run_def)
  moreover have "inj_on (cc_map s) (dom (cc_map s))"
    using ptr unfolding pointers_ok_def inj_on_def by (metis domD)
  ultimately show ?thesis by blast
qed

text \<open>
  Two goroutines race for the first bucket of the same caller and a burst of one: the second
  takes its pointer while the first still holds it, and only one of them is let through.
\<close>

lemma race_reachable:
  "\<exists>s. conc_reachable drain_lib (1 :: int) s \<and>
     cc_hist s = [((0, ''a''), True), ((0, ''a''), False)]"
proof -
  note st = conc_reachable.start [of drain_lib "1 :: int" "\<lambda>_. 0"]
  note s1 = conc_reachable.step [OF st conc_step.create [of _ 0 "''a''"]]
  note s2 = conc_reachable.step [OF s1 conc_step.found [of _ 1 "''a''" 0]]
  note s3 = conc_reachable.step [OF s2 conc_step.decide [of _ 1 "''a''" 0 drain_lib 0 True 0]]
  note s4 = conc_reachable.step [OF s3 conc_step.decide [of _ 0 "''a''" 0 drain_lib 0 False "- 1"]]
  show ?thesis
    by (rule exI, rule conjI, rule s4) (simp_all add: conc_init_def drain_lib_def)
qed

theorem concurrent_allow_linearizable_witness:
  "fst (run_limiter drain_lib [(0, ''a''), (0, ''a'')] (New drain_lib 1)) = [True, False]"
proof -
  obtain s where "conc_reachable drain_lib (1 :: int) s"
    and h: "cc_hist s = [((0, ''a''), True), ((0, ''a''), False)]"
    using race_reachable by blast
  then have "conc_reachable drain_lib
      (lib_NewLimiter drain_lib (lib_Every drain_lib (refill_interval 1)) 1) s"
    by (simp add: drain_lib_def)
  from concurrent_allow_linearizable [OF _ this] h show ?thesis by simp
qed

end
