(* ===== verification/GoStrings.thy ===== *)
theory GoStrings
  imports Prelude
begin

text \<open>
  The functions of Go's packages \<open>strings\<close>, \<open>bytes\<close>, \<open>strconv\<close>, \<open>encoding/hex\<close> and
  \<open>unicode/utf8\<close> that the gateway calls, on byte strings. Each computes what the library
  computes on every input the gateway can give it; where the full Unicode tables would be
  needed (case folding), the definition covers exactly the code points that can influence
  the comparisons the gateway makes, and says so.
\<close>

subsection \<open>Searching and cutting\<close>

text \<open>\<open>strings.Cut\<close> at a one-byte separator: the parts around the first occurrence.\<close>

fun cut :: "char \<Rightarrow> bytes \<Rightarrow> (bytes \<times> bytes) option" where
  "cut c [] = None"
| "cut c (x # xs) =
     (if x = c then Some ([], xs) else map_option (\<lambda>(a, b). (x # a, b)) (cut c xs))"

lemma cut_SomeD: "cut c s = Some (a, b) \<Longrightarrow> s = a @ c # b \<and> c \<notin> set a"
  by (induction s arbitrary: a) (auto split: if_splits)

lemma cut_append [simp]: "c \<notin> set a \<Longrightarrow> cut c (a @ c # b) = Some (a, b)"
  by (induction a) auto

lemma cut_None_iff: "cut c s = None \<longleftrightarrow> c \<notin> set s"
  by (induction s) auto

text \<open>\<open>strings.HasPrefix\<close>, \<open>strings.TrimPrefix\<close>.\<close>

definition has_prefix :: "bytes \<Rightarrow> bytes \<Rightarrow> bool" where
  "has_prefix s p \<longleftrightarrow> take (length p) s = p"

definition trim_prefix :: "bytes \<Rightarrow> bytes \<Rightarrow> bytes" where
  "trim_prefix s p = (if has_prefix s p then drop (length p) s else s)"

lemma has_prefix_length: "has_prefix s p \<Longrightarrow> length p \<le> length s"
  unfolding has_prefix_def by (metis length_take min.cobounded1)

lemma has_prefix_shrinks: "has_prefix s p \<Longrightarrow> p \<noteq> [] \<Longrightarrow> length s - length p < length s"
  using has_prefix_length [of s p] by (cases p) auto

lemma has_prefix_append [simp]: "has_prefix (p @ s) p"
  by (simp add: has_prefix_def)

lemma trim_prefix_append [simp]: "trim_prefix (p @ s) p = s"
  by (simp add: trim_prefix_def)

text \<open>\<open>strings.TrimLeft\<close> and \<open>TrimRight\<close> (also \<open>bytes.TrimRight\<close>) with an ASCII cutset.\<close>

definition trim_left_set :: "bytes \<Rightarrow> bytes \<Rightarrow> bytes" where
  "trim_left_set cs s = dropWhile (\<lambda>c. c \<in> set cs) s"

definition trim_right_set :: "bytes \<Rightarrow> bytes \<Rightarrow> bytes" where
  "trim_right_set cs s = rev (dropWhile (\<lambda>c. c \<in> set cs) (rev s))"

lemma trim_right_set_last:
  "trim_right_set cs s = [] \<or> last (trim_right_set cs s) \<notin> set cs"
  using dropWhile_last_cases [of "\<lambda>c. c \<in> set cs" s]
  by (auto simp: trim_right_set_def)

lemma trim_right_set_idem [simp]: "trim_right_set cs (trim_right_set cs s) = trim_right_set cs s"
  by (simp add: trim_right_set_def)

lemma trim_right_set_snoc: "c \<in> set cs \<Longrightarrow> trim_right_set cs (s @ [c]) = trim_right_set cs s"
  by (simp add: trim_right_set_def)

lemma trim_right_set_keep: "s = [] \<or> last s \<notin> set cs \<Longrightarrow> trim_right_set cs s = s"
  by (cases s rule: rev_cases) (auto simp: trim_right_set_def)

lemma length_trim_right_set: "length (trim_right_set cs s) \<le> length s"
  unfolding trim_right_set_def by (metis length_dropWhile_le length_rev)

subsection \<open>UTF-8\<close>

text \<open>
  \<open>utf8_width s\<close> is the number of bytes of the well-formed UTF-8 sequence that \<open>s\<close> starts
  with, 0 if it starts with none (\<open>utf8.DecodeRune\<close> then returns \<open>RuneError\<close> and width 1,
  or width 0 on the empty string). The ranges are the table of \<open>unicode/utf8\<close>.
\<close>

definition in_range :: "nat \<Rightarrow> nat \<Rightarrow> char \<Rightarrow> bool" where
  "in_range lo hi c \<longleftrightarrow> lo \<le> byte c \<and> byte c \<le> hi"

fun tail_ok :: "nat \<Rightarrow> nat \<Rightarrow> nat \<Rightarrow> bytes \<Rightarrow> bool" where
  "tail_ok lo hi n [] = False"
| "tail_ok lo hi n (b # s) =
     (n \<le> Suc (length s) \<and> in_range lo hi b \<and> list_all (in_range 0x80 0xBF) (take (n - 1) s))"

definition lead_info :: "char \<Rightarrow> nat \<times> nat \<times> nat" where
  "lead_info a =
     (if byte a < 0x80 then (1, 0, 0)
      else if in_range 0xC2 0xDF a then (2, 0x80, 0xBF)
      else if byte a = 0xE0 then (3, 0xA0, 0xBF)
      else if byte a = 0xED then (3, 0x80, 0x9F)
      else if in_range 0xE1 0xEF a then (3, 0x80, 0xBF)
      else if byte a = 0xF0 then (4, 0x90, 0xBF)
      else if in_range 0xF1 0xF3 a then (4, 0x80, 0xBF)
      else if byte a = 0xF4 then (4, 0x80, 0x8F)
      else (0, 0, 0))"

fun utf8_width :: "bytes \<Rightarrow> nat" where
  "utf8_width [] = 0"
| "utf8_width (a # s) =
     (case lead_info a of (w, lo, hi) \<Rightarrow>
        if w \<le> 1 then w else if tail_ok lo hi (w - 1) s then w else 0)"

lemma tail_ok_length: "tail_ok lo hi n s \<Longrightarrow> n \<le> length s"
  by (cases s) auto

lemma tail_ok_append: "tail_ok lo hi n s \<Longrightarrow> tail_ok lo hi n (s @ t)"
  by (cases s) auto

lemma utf8_width_le: "utf8_width s \<le> length s"
  by (cases s) (auto dest!: tail_ok_length split: prod.split)

lemma utf8_width_append: "utf8_width s \<noteq> 0 \<Longrightarrow> utf8_width (s @ t) = utf8_width s"
  by (cases s) (auto simp: tail_ok_append split: prod.splits if_splits)

lemma utf8_width_ascii [simp]: "byte a < 0x80 \<Longrightarrow> utf8_width (a # s) = 1"
  by (simp add: lead_info_def)

declare utf8_width.simps(2) [simp del]

text \<open>\<open>utf8.ValidString\<close>.\<close>

function valid_utf8 :: "bytes \<Rightarrow> bool" where
  "valid_utf8 s =
     (if s = [] then True
      else if utf8_width s = 0 then False
      else valid_utf8 (drop (utf8_width s) s))"
  by pat_completeness auto
termination
  by (relation "measure length") simp_all

declare valid_utf8.simps [simp del]

lemma valid_utf8_Nil [simp]: "valid_utf8 []"
  by (subst valid_utf8.simps) simp

lemma valid_utf8_step:
  "utf8_width s \<noteq> 0 \<Longrightarrow> valid_utf8 s = valid_utf8 (drop (utf8_width s) s)"
  by (subst valid_utf8.simps) auto

lemma valid_utf8_stuck: "s \<noteq> [] \<Longrightarrow> utf8_width s = 0 \<Longrightarrow> \<not> valid_utf8 s"
  by (subst valid_utf8.simps) auto

lemma valid_utf8_append: "valid_utf8 s \<Longrightarrow> valid_utf8 t \<Longrightarrow> valid_utf8 (s @ t)"
proof (induction s rule: valid_utf8.induct)
  case (1 s)
  show ?case
  proof (cases "s = []")
    case False
    with "1.prems" have w: "utf8_width s \<noteq> 0" and v: "valid_utf8 (drop (utf8_width s) s)"
      by (auto simp: valid_utf8.simps [of s] split: if_splits)
    then have "valid_utf8 (drop (utf8_width s) s @ t)"
      using "1.IH" "1.prems" False by blast
    then show ?thesis
      using w utf8_width_le [of s] by (subst valid_utf8_step) (simp_all add: utf8_width_append)
  qed (use "1.prems" in simp)
qed

lemma valid_utf8_ascii: "byte c < 0x80 \<Longrightarrow> valid_utf8 (c # s) = valid_utf8 s"
  by (subst valid_utf8_step) simp_all

lemma valid_utf8_ascii_text: "list_all (\<lambda>c. byte c < 0x80) s \<Longrightarrow> valid_utf8 s"
  by (induction s) (simp_all add: valid_utf8_ascii)

subsection \<open>White space\<close>

text \<open>
  \<open>strings.TrimSpace\<close> removes runes of \<open>unicode.IsSpace\<close> from both ends. There are
  25 of them; on bytes this strips, repeatedly, a prefix (suffix) that is the UTF-8
  encoding of one of them. Decoding a rune from either end of a byte string gives a
  white-space rune exactly when the string starts (ends) with its encoding, because the
  lead bytes of these encodings never occur as continuation bytes.
\<close>

definition space_encodings :: "bytes list" where
  "space_encodings =
     map (\<lambda>c. [c]) [CHR 0x09, CHR 0x0A, CHR 0x0B, CHR 0x0C, CHR 0x0D, CHR 0x20]
     @ [[CHR 0xC2, CHR 0x85], [CHR 0xC2, CHR 0xA0], [CHR 0xE1, CHR 0x9A, CHR 0x80]]
     @ map (\<lambda>c. [CHR 0xE2, CHR 0x80, c])
         [CHR 0x80, CHR 0x81, CHR 0x82, CHR 0x83, CHR 0x84, CHR 0x85, CHR 0x86, CHR 0x87,
          CHR 0x88, CHR 0x89, CHR 0x8A, CHR 0xA8, CHR 0xA9, CHR 0xAF]
     @ [[CHR 0xE2, CHR 0x81, CHR 0x9F], [CHR 0xE3, CHR 0x80, CHR 0x80]]"

function strip :: "bytes list \<Rightarrow> bytes \<Rightarrow> bytes" where
  "strip es s =
     (case find (\<lambda>e. e \<noteq> [] \<and> has_prefix s e) es of
        None \<Rightarrow> s
      | Some e \<Rightarrow> strip es (drop (length e) s))"
  by pat_completeness auto
termination
  by (relation "measure (\<lambda>(es, s). length s)") (auto simp: find_Some_iff dest: has_prefix_shrinks)

declare strip.simps [simp del]

definition trim_space :: "bytes \<Rightarrow> bytes" where
  "trim_space s =
     rev (strip (map rev space_encodings) (rev (strip space_encodings s)))"

lemma strip_fixed:
  "(\<And>e. e \<in> set es \<Longrightarrow> e \<noteq> [] \<Longrightarrow> \<not> has_prefix s e) \<Longrightarrow> strip es s = s"
  by (subst strip.simps) (auto split: option.splits simp: find_Some_iff)

lemma strip_result: "e \<in> set es \<Longrightarrow> e \<noteq> [] \<Longrightarrow> \<not> has_prefix (strip es s) e"
proof (induction es s rule: strip.induct)
  case (1 es s)
  show ?case
  proof (cases "find (\<lambda>e. e \<noteq> [] \<and> has_prefix s e) es")
    case None
    then have "strip es s = s" by (subst strip.simps) simp
    then show ?thesis using None "1.prems" by (auto simp: find_None_iff)
  next
    case (Some d)
    then have "strip es s = strip es (drop (length d) s)" by (subst strip.simps) simp
    then show ?thesis using "1.IH" "1.prems" Some by simp
  qed
qed

lemma strip_suffix: "\<exists>p. s = p @ strip es s"
proof (induction es s rule: strip.induct)
  case (1 es s)
  show ?case
  proof (cases "find (\<lambda>e. e \<noteq> [] \<and> has_prefix s e) es")
    case None
    then have "strip es s = s" by (subst strip.simps) simp
    then show ?thesis by simp
  next
    case (Some d)
    with "1.IH" obtain p where "drop (length d) s = p @ strip es (drop (length d) s)"
      by blast
    then have "s = (take (length d) s @ p) @ strip es (drop (length d) s)"
      by (metis append.assoc append_take_drop_id)
    moreover have "strip es s = strip es (drop (length d) s)"
      using Some by (subst strip.simps) simp
    ultimately show ?thesis by metis
  qed
qed

lemma trim_space_infix: "\<exists>p q. s = p @ trim_space s @ q"
proof -
  obtain p where p: "s = p @ strip space_encodings s"
    using strip_suffix by blast
  obtain q where "rev (strip space_encodings s) = q @ rev (trim_space s)"
    using strip_suffix [of "rev (strip space_encodings s)" "map rev space_encodings"]
    by (auto simp: trim_space_def)
  then have "strip space_encodings s = trim_space s @ rev q"
    by (metis rev_append rev_rev_ident)
  then show ?thesis using p by metis
qed

lemma length_trim_space: "length (trim_space s) \<le> length s"
  using trim_space_infix [of s] by (metis length_append le_add1 le_add2 order_trans)

lemma set_trim_space: "set (trim_space s) \<subseteq> set s"
  using trim_space_infix [of s] by (metis set_append Un_iff subsetI)

lemma trim_space_Nil [simp]: "trim_space [] = []"
  using trim_space_infix [of "[]"] by simp

subsection \<open>Case\<close>

definition lower_byte :: "char \<Rightarrow> char" where
  "lower_byte c = (if in_range 65 90 c then char_of (byte c + 32) else c)"

text \<open>
  \<open>strings.EqualFold(s, t)\<close> for a lower-case ASCII \<open>t\<close> without the letters \<open>k\<close> and
  \<open>s\<close>: those are the only ASCII letters with a non-ASCII code point in their folding orbit
  (the Kelvin sign and the long s), so for such a \<open>t\<close> folding is ASCII folding.
\<close>

definition equal_fold :: "bytes \<Rightarrow> bytes \<Rightarrow> bool" where
  "equal_fold s t \<longleftrightarrow> map lower_byte s = t"

text \<open>
  \<open>strings.ToLower\<close>, as far as the result can be ASCII: the code points with an ASCII
  lower-case form are the ASCII letters, U+0130 (to \<open>i\<close>) and U+212A (to \<open>k\<close>). Every other
  rune outside ASCII stays outside ASCII, which is all that a comparison of the result with
  an ASCII literal depends on.
\<close>

fun to_lower :: "bytes \<Rightarrow> bytes" where
  "to_lower [] = []"
| "to_lower (c # s) =
     (if c = CHR 0xC4 \<and> take 1 s = [CHR 0xB0] then CHR ''i'' # to_lower (drop 1 s)
      else if c = CHR 0xE2 \<and> take 2 s = [CHR 0x84, CHR 0xAA] then CHR ''k'' # to_lower (drop 2 s)
      else lower_byte c # to_lower s)"

subsection \<open>Decimal and hexadecimal\<close>

definition digit_char :: "nat \<Rightarrow> char" where
  "digit_char n = char_of (48 + n)"

text \<open>\<open>strconv.Itoa\<close> and \<open>FormatInt(_, 10)\<close>.\<close>

fun dec_nat :: "nat \<Rightarrow> bytes" where
  "dec_nat n = (if n < 10 then [digit_char n] else dec_nat (n div 10) @ [digit_char (n mod 10)])"

declare dec_nat.simps [simp del]

definition dec_int :: "int \<Rightarrow> bytes" where
  "dec_int n = (if n < 0 then CHR ''-'' # dec_nat (nat (- n)) else dec_nat (nat n))"

lemma byte_digit_char [simp]: "n < 10 \<Longrightarrow> byte (digit_char n) = 48 + n"
  by (simp add: digit_char_def of_char_of take_bit_nat_eq_self)

lemma dec_nat_digits: "c \<in> set (dec_nat n) \<Longrightarrow> 48 \<le> byte c \<and> byte c \<le> 57"
proof (induction n rule: dec_nat.induct)
  case (1 n)
  show ?case
  proof (cases "n < 10")
    case True
    with "1.prems" show ?thesis by (simp add: dec_nat.simps [of n])
  next
    case False
    then have "n mod 10 < 10" by simp
    with False "1" show ?thesis by (auto simp: dec_nat.simps [of n])
  qed
qed

lemma dec_nat_nonempty [simp]: "dec_nat n \<noteq> []"
  by (subst dec_nat.simps) simp

lemma dec_int_chars: "c \<in> set (dec_int n) \<Longrightarrow> c = CHR ''-'' \<or> (48 \<le> byte c \<and> byte c \<le> 57)"
  by (auto simp: dec_int_def dest: dec_nat_digits split: if_splits)

lemma valid_dec_int [simp]: "valid_utf8 (dec_int n)"
  by (rule valid_utf8_ascii_text) (auto simp: list_all_iff dest!: dec_int_chars)

fun dec_value :: "nat \<Rightarrow> bytes \<Rightarrow> nat" where
  "dec_value acc [] = acc"
| "dec_value acc (c # s) = dec_value (10 * acc + (byte c - 48)) s"

lemma dec_value_append: "dec_value acc (s @ t) = dec_value (dec_value acc s) t"
  by (induction s arbitrary: acc) simp_all

lemma dec_value_dec_nat [simp]: "dec_value 0 (dec_nat n) = n"
proof (induction n rule: dec_nat.induct)
  case (1 n)
  show ?case
  proof (cases "n < 10")
    case True
    then show ?thesis by (simp add: dec_nat.simps [of n])
  next
    case False
    then have "dec_value 0 (dec_nat (n div 10)) = n div 10" by (rule "1.IH")
    with False show ?thesis by (simp add: dec_nat.simps [of n] dec_value_append)
  qed
qed

text \<open>\<open>encoding/hex.EncodeToString\<close>: two lower-case digits per byte.\<close>

definition hex_digit :: "nat \<Rightarrow> char" where
  "hex_digit n = (if n < 10 then char_of (48 + n) else char_of (87 + n))"

definition hex_byte :: "char \<Rightarrow> bytes" where
  "hex_byte c = [hex_digit (byte c div 16), hex_digit (byte c mod 16)]"

definition hex_encode :: "bytes \<Rightarrow> bytes" where
  "hex_encode s = concat (map hex_byte s)"

definition is_lower_hex :: "char \<Rightarrow> bool" where
  "is_lower_hex c \<longleftrightarrow> in_range 48 57 c \<or> in_range 97 102 c"

lemma byte_less: "byte c < 256"
  by (rule nat_of_char_less_256)

lemma hex_digit_is_hex: "n < 16 \<Longrightarrow> is_lower_hex (hex_digit n)"
  by (simp add: is_lower_hex_def in_range_def hex_digit_def of_char_of take_bit_nat_eq_self)

lemma hex_byte_hex: "list_all is_lower_hex (hex_byte c)"
  using byte_less [of c] by (simp add: hex_byte_def hex_digit_is_hex less_mult_imp_div_less)

lemma hex_encode_hex: "list_all is_lower_hex (hex_encode s)"
  by (induction s) (simp_all add: hex_encode_def hex_byte_hex)

lemma length_hex_encode [simp]: "length (hex_encode s) = 2 * length s"
  by (induction s) (simp_all add: hex_encode_def hex_byte_def)

subsection \<open>Parsing integers\<close>

text \<open>
  \<open>strconv.ParseInt(s, 10, 64)\<close> and \<open>strconv.Atoi\<close> on a 64-bit platform. The digits are
  accumulated as \<open>ParseUint\<close> does, which reports the overflow of 64 bits as soon as it
  happens, before it has seen the rest of the text.
\<close>

datatype num_error = NumSyntax | NumRange

fun parse_digits :: "nat \<Rightarrow> bytes \<Rightarrow> num_error + nat" where
  "parse_digits acc [] = Inr acc"
| "parse_digits acc (c # s) =
     (if \<not> in_range 48 57 c then Inl NumSyntax
      else if 2 ^ 64 \<le> 10 * acc + (byte c - 48) then Inl NumRange
      else parse_digits (10 * acc + (byte c - 48)) s)"

definition parse_uint :: "bytes \<Rightarrow> num_error + nat" where
  "parse_uint s = (if s = [] then Inl NumSyntax else parse_digits 0 s)"

definition parse_int :: "bytes \<Rightarrow> num_error + int" where
  "parse_int s =
     (let neg = (take 1 s = ''-'');
          body = (if neg \<or> take 1 s = ''+'' then drop 1 s else s)
      in case parse_uint body of
           Inl e \<Rightarrow> Inl e
         | Inr un \<Rightarrow>
             if \<not> neg \<and> 2 ^ 63 \<le> un then Inl NumRange
             else if neg \<and> 2 ^ 63 < un then Inl NumRange
             else Inr (if neg then - int un else int un))"

lemma parse_digits_value:
  "(\<And>c. c \<in> set s \<Longrightarrow> in_range 48 57 c) \<Longrightarrow> dec_value acc s < 2 ^ 64
   \<Longrightarrow> parse_digits acc s = Inr (dec_value acc s)"
proof (induction s arbitrary: acc)
  case (Cons c s)
  have "acc' \<le> dec_value acc' s" for acc'
  proof (induction s arbitrary: acc')
    case (Cons a s)
    show ?case using Cons [of "10 * acc' + (byte a - 48)"] by simp
  qed simp
  then have "10 * acc + (byte c - 48) < 2 ^ 64"
    using Cons.prems(2) by (metis dec_value.simps(2) le_less_trans)
  with Cons show ?case by simp
qed simp

lemma parse_int_bounds: "parse_int s = Inr n \<Longrightarrow> - (2 ^ 63) \<le> n \<and> n < 2 ^ 63"
  by (auto simp: parse_int_def Let_def split: sum.splits if_splits)

lemma parse_uint_dec_nat: "n < 2 ^ 64 \<Longrightarrow> parse_uint (dec_nat n) = Inr n"
  using parse_digits_value [of "dec_nat n" 0]
  by (auto simp: parse_uint_def in_range_def dest: dec_nat_digits)

lemma take1_dec_nat: "take 1 (dec_nat n) \<noteq> ''-''" "take 1 (dec_nat n) \<noteq> ''+''"
  using dec_nat_digits [of _ n] by (cases "dec_nat n"; force)+

lemma parse_int_dec_int:
  assumes "- (2 ^ 63) \<le> n" and "n < 2 ^ 63"
  shows "parse_int (dec_int n) = Inr n"
proof (cases "n < 0")
  case True
  have "nat (- n) < 2 ^ 64" using assms by simp
  moreover have "\<not> 2 ^ 63 < nat (- n)" using assms by simp
  ultimately show ?thesis
    using True by (simp add: parse_int_def dec_int_def Let_def parse_uint_dec_nat)
next
  case False
  have "nat n < 2 ^ 64" using assms by simp
  moreover have "\<not> 2 ^ 63 \<le> nat n" using assms by simp
  ultimately show ?thesis
    using False take1_dec_nat [of "nat n"]
    by (simp add: parse_int_def dec_int_def Let_def parse_uint_dec_nat)
qed

subsection \<open>Lines\<close>

text \<open>The lines of a text; what follows the last newline is a line if it is not empty.\<close>

fun split_lines :: "bytes \<Rightarrow> bytes list" where
  "split_lines [] = []"
| "split_lines (c # s) =
     (if c = CHR 0x0A then [] # split_lines s
      else case split_lines s of [] \<Rightarrow> [[c]] | l # ls \<Rightarrow> (c # l) # ls)"

lemma split_lines_line:
  "CHR 0x0A \<notin> set l \<Longrightarrow> split_lines (l @ CHR 0x0A # s) = l # split_lines s"
  by (induction l) auto

end
