(* ===== verification/AuthSource.thy ===== *)
theory AuthSource
  imports GoStrings
begin

text \<open>
  \<open>internal/auth/source.go\<close>: the file-backed bearer-token validator. What the file system
  answers to \<open>os.Stat\<close> (mtime and size, or an error's text) and to \<open>os.ReadFile\<close> (content or
  an error's text) is an input of each call. The interface \<open>Validator\<close> is the locale
  \<open>validator\<close>.
\<close>

datatype auth_error =
    ErrNoToken bytes      \<comment> \<open>with the text wrapped around it, empty for the bare sentinel\<close>
  | ErrInvalidToken
  | OtherError bytes

fun auth_error_text :: "auth_error \<Rightarrow> bytes" where
  "auth_error_text (ErrNoToken d) =
     ''auth: no token configured'' @ (if d = [] then [] else '': '' @ d)"
| "auth_error_text ErrInvalidToken = ''auth: invalid token''"
| "auth_error_text (OtherError t) = t"

type_synonym file_stamp = "int \<times> int"

record observation =
  ob_stat :: "bytes + file_stamp"
  ob_read :: "bytes + bytes"

record Source =
  src_path :: bytes
  src_token :: bytes
  src_mtime :: int
  src_size :: int
  src_loaded :: bool

text \<open>The zero time is 0 here; \<open>src_loaded\<close> keeps it from ever being compared.\<close>

definition NewSource :: "bytes \<Rightarrow> Source" where
  "NewSource path =
     \<lparr>src_path = path, src_token = [], src_mtime = 0, src_size = 0, src_loaded = False\<rparr>"

definition Path :: "Source \<Rightarrow> bytes" where
  "Path s = src_path s"

definition token_cutset :: bytes where
  "token_cutset = [CHR 0x0D, CHR 0x0A, CHR 0x09, CHR '' '']"

text \<open>The two branches of \<open>reloadIfChanged\<close> around its locks, and their composition.\<close>

definition stat_failed :: "Source \<Rightarrow> bytes \<Rightarrow> auth_error option" where
  "stat_failed s e =
     (if 0 < length (src_token s) then None
      else Some (ErrNoToken (''stat '' @ src_path s @ '': '' @ e)))"

definition unchanged :: "Source \<Rightarrow> file_stamp \<Rightarrow> bool" where
  "unchanged s info \<longleftrightarrow> src_loaded s \<and> fst info = src_mtime s \<and> snd info = src_size s"

definition reload_locked ::
  "file_stamp \<Rightarrow> bytes + bytes \<Rightarrow> Source \<Rightarrow> auth_error option \<times> Source" where
  "reload_locked info rd s =
     (if unchanged s info then (None, s)
      else case rd of
             Inl e \<Rightarrow> (Some (ErrNoToken (''read '' @ src_path s @ '': '' @ e)), s)
           | Inr raw \<Rightarrow>
               (None, s\<lparr>src_token := trim_right_set token_cutset raw, src_mtime := fst info,
                        src_size := snd info, src_loaded := True\<rparr>))"

definition reloadIfChanged :: "observation \<Rightarrow> Source \<Rightarrow> auth_error option \<times> Source" where
  "reloadIfChanged ob s =
     (case ob_stat ob of
        Inl e \<Rightarrow> (stat_failed s e, s)
      | Inr info \<Rightarrow>
          if unchanged s info then (None, s) else reload_locked info (ob_read ob) s)"

definition compare_token :: "bytes \<Rightarrow> bytes \<Rightarrow> auth_error option" where
  "compare_token candidate token =
     (if length token = 0 then Some (ErrNoToken [])
      else if candidate \<noteq> token then Some ErrInvalidToken
      else None)"

definition Validate :: "observation \<Rightarrow> bytes \<Rightarrow> Source \<Rightarrow> auth_error option \<times> Source" where
  "Validate ob candidate s =
     (case reloadIfChanged ob s of
        (Some e, s') \<Rightarrow> (Some e, s')
      | (None, s') \<Rightarrow> (compare_token candidate (src_token s'), s'))"

subsection \<open>The interface\<close>

text \<open>
  \<open>Validator\<close>: what a middleware may rely on. \<open>holds s\<close> is the credential a state admits, if
  it admits any.
\<close>

locale validator =
  fixes validate :: "'o \<Rightarrow> bytes \<Rightarrow> 's \<Rightarrow> auth_error option \<times> 's"
    and holds :: "'s \<Rightarrow> bytes option"
  assumes accepted: "fst (validate ob c s) = None \<Longrightarrow> holds (snd (validate ob c s)) = Some c"
    and rejected:
      "fst (validate ob c s) = Some ErrInvalidToken \<Longrightarrow>
       \<exists>d. holds (snd (validate ob c s)) = Some d \<and> d \<noteq> c"
    and others_invalid:
      "fst (validate ob c s) = None \<Longrightarrow> d \<noteq> c \<Longrightarrow> fst (validate ob d s) = Some ErrInvalidToken"
    and no_empty: "holds (snd (validate ob c s)) \<noteq> Some []"
    and same_effect: "snd (validate ob c s) = snd (validate ob d s)"
begin

text \<open>At one moment at most one credential is accepted, and never the empty one.\<close>

lemma accepts_one:
  "fst (validate ob c s) = None \<Longrightarrow> fst (validate ob d s) = None \<Longrightarrow> c = d"
  by (metis others_invalid option.distinct(1))

lemma decides:
  assumes "fst (validate ob c s) = None"
  shows "fst (validate ob d s) = (if d = c then None else Some ErrInvalidToken)"
  using assms others_invalid [OF assms] by auto

lemma empty_refused: "fst (validate ob [] s) \<noteq> None"
  using accepted [of ob "[]" s] no_empty [of ob "[]" s] by blast

end

definition source_holds :: "Source \<Rightarrow> bytes option" where
  "source_holds s = (if src_token s = [] then None else Some (src_token s))"

lemma snd_Validate: "snd (Validate ob c s) = snd (reloadIfChanged ob s)"
  by (simp add: Validate_def split: prod.split option.split)

lemma Validate_cases:
  "fst (Validate ob c s) =
     (case fst (reloadIfChanged ob s) of
        Some e \<Rightarrow> Some e
      | None \<Rightarrow> compare_token c (src_token (snd (reloadIfChanged ob s))))"
  by (simp add: Validate_def split: prod.split option.split)

lemma reload_error_kind: "fst (reloadIfChanged ob s) = Some e \<Longrightarrow> \<exists>d. e = ErrNoToken d"
  by (auto simp: reloadIfChanged_def reload_locked_def stat_failed_def
      split: sum.splits if_splits)

lemma compare_token_None: "compare_token c t = None \<longleftrightarrow> t \<noteq> [] \<and> c = t"
  by (simp add: compare_token_def)

lemma compare_token_invalid: "compare_token c t = Some ErrInvalidToken \<longleftrightarrow> t \<noteq> [] \<and> c \<noteq> t"
  by (simp add: compare_token_def)

interpretation source: validator Validate source_holds
proof unfold_locales
  fix ob c s
  show "fst (Validate ob c s) = None \<Longrightarrow> source_holds (snd (Validate ob c s)) = Some c"
    by (auto simp: Validate_cases snd_Validate compare_token_None source_holds_def
        split: option.splits)
  show "fst (Validate ob c s) = Some ErrInvalidToken \<Longrightarrow>
      \<exists>d. source_holds (snd (Validate ob c s)) = Some d \<and> d \<noteq> c"
    by (auto simp: Validate_cases snd_Validate compare_token_invalid source_holds_def
        dest: reload_error_kind split: option.splits)
  show "fst (Validate ob c s) = None \<Longrightarrow> d \<noteq> c \<Longrightarrow>
      fst (Validate ob d s) = Some ErrInvalidToken" for d
    by (auto simp: Validate_cases compare_token_def split: option.splits if_splits)
qed (simp_all add: source_holds_def snd_Validate)

subsection \<open>Behaviour\<close>

text \<open>
  \<open>coherent s info raw\<close>: if the source believes that the file with this stamp is loaded, its
  token is the trimmed content. It can only fail when two contents share a stamp.
\<close>

definition coherent :: "Source \<Rightarrow> file_stamp \<Rightarrow> bytes \<Rightarrow> bool" where
  "coherent s info raw \<longleftrightarrow>
     (unchanged s info \<longrightarrow> src_token s = trim_right_set token_cutset raw)"

lemma reload_reads:
  assumes "coherent s info raw"
  shows "fst (reloadIfChanged \<lparr>ob_stat = Inr info, ob_read = Inr raw\<rparr> s) = None"
    and "src_token (snd (reloadIfChanged \<lparr>ob_stat = Inr info, ob_read = Inr raw\<rparr> s)) =
      trim_right_set token_cutset raw"
    and "unchanged (snd (reloadIfChanged \<lparr>ob_stat = Inr info, ob_read = Inr raw\<rparr> s)) info"
  using assms
  by (auto simp: reloadIfChanged_def reload_locked_def coherent_def unchanged_def)

text \<open>With a readable token file, \<open>Validate\<close> decides exactly by its trimmed content: no token
  when nothing is left of it, success for that very text, and refusal for any other. It does so
  on the first call, and after every rotation that moves the modification time or the size.\<close>

theorem validate_readable_file:
  assumes "\<not> src_loaded s \<or> (src_mtime s, src_size s) \<noteq> info \<or>
    src_token s = trim_right_set token_cutset raw"
  shows "fst (Validate \<lparr>ob_stat = Inr info, ob_read = Inr raw\<rparr> c s) =
    (if trim_right_set token_cutset raw = [] then Some (ErrNoToken [])
     else if c = trim_right_set token_cutset raw then None
     else Some ErrInvalidToken)"
proof -
  have "coherent s info raw"
    using assms by (cases info) (auto simp: coherent_def unchanged_def)
  from reload_reads [OF this] show ?thesis
    by (simp add: Validate_cases compare_token_def)
qed

theorem validate_readable_file_witness:
  "fst (Validate \<lparr>ob_stat = Inr (7, 7), ob_read = Inr (''s3cret'' @ [CHR 0x0A])\<rparr> ''s3cret''
     (NewSource ''/t'')) = None"
  by (subst validate_readable_file)
    (simp_all add: NewSource_def trim_right_set_def token_cutset_def)

text \<open>C33: a token once loaded survives the loss of its file: while \<open>os.Stat\<close> fails, every call
  leaves the source as it is and still accepts exactly the cached token, however long the
  file has been gone. A file that can be examined but not read, in contrast, refuses every
  caller as soon as its stamp has moved, the holder of the cached token included.\<close>

theorem validate_unreadable_file:
  assumes "src_token s \<noteq> []"
  shows "Validate \<lparr>ob_stat = Inl e, ob_read = rd\<rparr> c s =
      (if c = src_token s then None else Some ErrInvalidToken, s) \<and>
    (\<not> unchanged s info \<longrightarrow>
      Validate \<lparr>ob_stat = Inr info, ob_read = Inl e\<rparr> c s =
        (Some (ErrNoToken (''read '' @ Path s @ '': '' @ e)), s))"
  using assms
  by (simp add: Validate_def reloadIfChanged_def reload_locked_def stat_failed_def
      compare_token_def Path_def)

definition loaded_source :: Source where
  "loaded_source =
     \<lparr>src_path = ''/t'', src_token = ''old'', src_mtime = 5, src_size = 3, src_loaded = True\<rparr>"

theorem validate_unreadable_file_witness:
  "fst (Validate \<lparr>ob_stat = Inl ''gone'', ob_read = Inl ''gone''\<rparr> ''old'' loaded_source) = None \<and>
   fst (Validate \<lparr>ob_stat = Inr (6, 3), ob_read = Inl ''denied''\<rparr> ''old'' loaded_source) \<noteq> None"
  using validate_unreadable_file [of loaded_source "''gone''" "Inl ''gone''" "''old''" "(6, 3)"]
    validate_unreadable_file [of loaded_source "''denied''" "Inl ''gone''" "''old''" "(6, 3)"]
  by (simp add: loaded_source_def unchanged_def)

text \<open>Whatever the file system answers, a call that accepts a credential accepts no other at
  that moment: any other is refused as invalid, and the empty one is never accepted.\<close>

theorem validate_accepts_one:
  assumes "fst (Validate ob c s) = None"
  shows "c \<noteq> [] \<and> (\<forall>d. fst (Validate ob d s) = (if d = c then None else Some ErrInvalidToken))"
  using assms source.decides [OF assms] source.empty_refused by metis

theorem validate_accepts_one_witness:
  "fst (Validate \<lparr>ob_stat = Inl [], ob_read = Inl []\<rparr> ''olds'' loaded_source) = Some ErrInvalidToken"
  using validate_accepts_one [of "\<lparr>ob_stat = Inl [], ob_read = Inl []\<rparr>" "''old''" loaded_source]
  by (simp add: loaded_source_def Validate_def reloadIfChanged_def stat_failed_def compare_token_def)

end
