(* ===== verification/AuthConc.thy ===== *)
theory AuthConc
  imports AuthSource
begin

text \<open>
  \<open>Source.Validate\<close> under concurrency and rotation. The token file goes through versions;
  any number of goroutines run \<open>Validate\<close>, and their calls of \<open>os.Stat\<close>, the check under the
  read lock, the section under the write lock (with its own read of the file) and the final
  read of the token interleave freely with each other and with rotations.
\<close>

text \<open>
  Where a goroutine is: before the call; after a successful \<open>os.Stat\<close>, with the version it
  saw; waiting for the write lock; and about to copy the token, with the version it saw, or
  \<open>None\<close> when \<open>os.Stat\<close> had failed.
\<close>

datatype vpc = Outside | Checking nat | Locking nat | Fetching "nat option"

text \<open>
  \<open>rt_file\<close> is the version on disk. The log has one entry for each copy of the token: the
  version seen at the start, the token compared with, and the version on disk at that time.
\<close>

record rotation =
  rt_file :: nat
  rt_src :: Source
  rt_pc :: "nat \<Rightarrow> vpc"
  rt_log :: "(nat option \<times> bytes \<times> nat) list"


text \<open>
  \<open>stamp v\<close> and \<open>content v\<close> are what version \<open>v\<close> looks like to \<open>os.Stat\<close> and \<open>os.ReadFile\<close>.
  \<open>stat_err\<close> is a failed \<open>os.Stat\<close> with a token cached; one without ends the call at once, with no
  effect. \<open>read_err\<close> is a failed \<open>os.ReadFile\<close>. The two reads of a version are atomic.
\<close>

inductive rot_step ::
  "(nat \<Rightarrow> file_stamp) \<Rightarrow> (nat \<Rightarrow> bytes) \<Rightarrow> rotation \<Rightarrow> rotation \<Rightarrow> bool" for stamp content where
  rotate: "rot_step stamp content s (s\<lparr>rt_file := Suc (rt_file s)\<rparr>)"
| stat: "rt_pc s t = Outside \<Longrightarrow>
     rot_step stamp content s (s\<lparr>rt_pc := (rt_pc s)(t := Checking (rt_file s))\<rparr>)"
| stat_err: "rt_pc s t = Outside \<Longrightarrow> stat_failed (rt_src s) e = None \<Longrightarrow>
     rot_step stamp content s (s\<lparr>rt_pc := (rt_pc s)(t := Fetching None)\<rparr>)"
| hit: "rt_pc s t = Checking v \<Longrightarrow> unchanged (rt_src s) (stamp v) \<Longrightarrow>
     rot_step stamp content s (s\<lparr>rt_pc := (rt_pc s)(t := Fetching (Some v))\<rparr>)"
| miss: "rt_pc s t = Checking v \<Longrightarrow> \<not> unchanged (rt_src s) (stamp v) \<Longrightarrow>
     rot_step stamp content s (s\<lparr>rt_pc := (rt_pc s)(t := Locking v)\<rparr>)"
| reload: "rt_pc s t = Locking v \<Longrightarrow>
     reload_locked (stamp v) (Inr (content (rt_file s))) (rt_src s) = (None, src') \<Longrightarrow>
     rot_step stamp content s
       (s\<lparr>rt_src := src', rt_pc := (rt_pc s)(t := Fetching (Some v))\<rparr>)"
| read_err: "rt_pc s t = Locking v \<Longrightarrow>
     reload_locked (stamp v) (Inl e) (rt_src s) = (Some err, src') \<Longrightarrow>
     rot_step stamp content s (s\<lparr>rt_src := src', rt_pc := (rt_pc s)(t := Outside)\<rparr>)"
| fetch: "rt_pc s t = Fetching v \<Longrightarrow>
     rot_step stamp content s
       (s\<lparr>rt_pc := (rt_pc s)(t := Outside),
          rt_log := rt_log s @ [(v, src_token (rt_src s), rt_file s)]\<rparr>)"

inductive_cases rot_stepE: "rot_step stamp content s s'"

















end
