(* ===== verification/JsonEncode.thy ===== *)
theory JsonEncode
  imports GoStrings
begin

text \<open>
  What the gateway uses of \<open>json.Marshal\<close> and \<open>json.Encoder\<close> (package
  \<open>encoding/json\<close>): Go values as they reach the encoder, and their bytes. Both entry points
  escape HTML characters; the encoder adds a newline after the value, which the callers of
  \<open>encode\<close> append. The main lemma is that the text of a value never holds a byte below
  0x20: everything that frames a value by newlines (the audit log, Server-Sent Events) rests
  on it.
\<close>

subsection \<open>Values\<close>

text \<open>
  A \<open>float64\<close> is given by its shortest decimal form \<open>\<plusminus> digits * 10 ^ exponent\<close>, the one
  \<open>strconv\<close> prints. A Go \<open>map[string]any\<close> is a \<open>JObj\<close> whose keys are sorted and
  distinct, as the encoder writes maps; a struct is a \<open>JObj\<close> in the order of its fields.
\<close>

datatype float64 = Float64 (float_neg: bool) (float_digits: nat) (float_exp: int)

datatype json =
    JNull
  | JBool bool
  | JInt int
  | JFloat float64
  | JStr bytes
  | JArr "json list"
  | JObj "(bytes \<times> json) list"

subsection \<open>Numbers\<close>

text \<open>
  The float encoder of \<open>encoding/json\<close>: positional form for magnitudes in
  \<open>[1e-6, 1e21)\<close>, exponent form otherwise, exponents without padding.
\<close>

definition float_text :: "float64 \<Rightarrow> bytes" where
  "float_text f =
     (let ds = dec_nat (float_digits f); n = int (length ds); dp = n + float_exp f in
      (if float_neg f then ''-'' else []) @
      (if float_digits f = 0 then ''0''
       else if dp \<le> - 6 \<or> 22 \<le> dp then
         take 1 ds @ (if 1 < n then ''.'' @ drop 1 ds else []) @ ''e'' @
         (if dp - 1 < 0 then ''-'' else ''+'') @ dec_nat (nat \<bar>dp - 1\<bar>)
       else if dp \<le> 0 then ''0.'' @ replicate (nat (- dp)) (CHR ''0'') @ ds
       else if n \<le> dp then ds @ replicate (nat (dp - n)) (CHR ''0'')
       else take (nat dp) ds @ ''.'' @ drop (nat dp) ds))"

subsection \<open>Strings\<close>

definition backslash :: char where
  "backslash = CHR 0x5C"

definition quote_char :: char where
  "quote_char = CHR 0x22"

definition hex_escape :: "char \<Rightarrow> bytes" where
  "hex_escape c = backslash # ''u00'' @ hex_byte c"

definition escape_ascii :: "char \<Rightarrow> bytes" where
  "escape_ascii c =
     (if c = backslash \<or> c = quote_char then [backslash, c]
      else if c = CHR 0x08 then [backslash, CHR ''b'']
      else if c = CHR 0x0C then [backslash, CHR ''f'']
      else if c = CHR 0x0A then [backslash, CHR ''n'']
      else if c = CHR 0x0D then [backslash, CHR ''r'']
      else if c = CHR 0x09 then [backslash, CHR ''t'']
      else if byte c < 0x20 \<or> c = CHR ''<'' \<or> c = CHR ''>'' \<or> c = CHR ''&'' then hex_escape c
      else [c])"

function json_escape :: "bytes \<Rightarrow> bytes" where
  "json_escape [] = []"
| "json_escape (c # s) =
     (if byte c < 0x80 then escape_ascii c @ json_escape s
      else if utf8_width (c # s) = 0 then backslash # ''ufffd'' @ json_escape s
      else if take 3 (c # s) = [CHR 0xE2, CHR 0x80, CHR 0xA8]
      then backslash # ''u2028'' @ json_escape (drop 3 (c # s))
      else if take 3 (c # s) = [CHR 0xE2, CHR 0x80, CHR 0xA9]
      then backslash # ''u2029'' @ json_escape (drop 3 (c # s))
      else take (utf8_width (c # s)) (c # s) @ json_escape (drop (utf8_width (c # s)) (c # s)))"
  by pat_completeness auto
termination
  by (relation "measure length") simp_all

definition json_string :: "bytes \<Rightarrow> bytes" where
  "json_string s = quote_char # json_escape s @ [quote_char]"

subsection \<open>Values to text\<close>

fun comma_join :: "bytes list \<Rightarrow> bytes" where
  "comma_join [] = []"
| "comma_join [x] = x"
| "comma_join (x # y # xs) = x @ CHR '','' # comma_join (y # xs)"

fun encode :: "json \<Rightarrow> bytes" where
  "encode JNull = ''null''"
| "encode (JBool b) = (if b then ''true'' else ''false'')"
| "encode (JInt n) = dec_int n"
| "encode (JFloat f) = float_text f"
| "encode (JStr s) = json_string s"
| "encode (JArr xs) = ''['' @ comma_join (map encode xs) @ '']''"
| "encode (JObj kvs) =
     CHR 0x7B # comma_join (map (\<lambda>kv. json_string (fst kv) @ CHR '':'' # encode (snd kv)) kvs)
     @ [CHR 0x7D]"

subsection \<open>The text of a value has no control character\<close>

definition no_ctl :: "bytes \<Rightarrow> bool" where
  "no_ctl s \<longleftrightarrow> list_all (\<lambda>c. 0x20 \<le> byte c) s"

lemma no_ctl_Nil [simp]: "no_ctl []"
  and no_ctl_Cons [simp]: "no_ctl (c # s) \<longleftrightarrow> 0x20 \<le> byte c \<and> no_ctl s"
  and no_ctl_append [simp]: "no_ctl (s @ t) \<longleftrightarrow> no_ctl s \<and> no_ctl t"
  by (simp_all add: no_ctl_def)

lemma no_ctlI: "(\<And>c. c \<in> set s \<Longrightarrow> 0x20 \<le> byte c) \<Longrightarrow> no_ctl s"
  by (simp add: no_ctl_def list_all_iff)

lemma no_ctl_no_newline: "no_ctl s \<Longrightarrow> CHR 0x0A \<notin> set s"
  by (auto simp: no_ctl_def list_all_iff)

lemma no_ctl_take: "no_ctl s \<Longrightarrow> no_ctl (take n s)"
  and no_ctl_drop: "no_ctl s \<Longrightarrow> no_ctl (drop n s)"
  by (auto simp: no_ctl_def list_all_iff dest: in_set_takeD in_set_dropD)

lemma no_ctl_dec_nat [simp]: "no_ctl (dec_nat n)"
  by (rule no_ctlI) (auto dest!: dec_nat_digits)

lemma no_ctl_dec_int [simp]: "no_ctl (dec_int n)"
  by (simp add: dec_int_def)

lemma no_ctl_float_text: "no_ctl (float_text f)"
proof -
  have "no_ctl (replicate n (CHR ''0''))" for n
    by (rule no_ctlI) simp
  then show ?thesis
    by (simp add: float_text_def Let_def no_ctl_take no_ctl_drop)
qed

lemma no_ctl_hex_byte [simp]: "no_ctl (hex_byte c)"
  using hex_byte_hex [of c]
  by (auto simp: no_ctl_def list_all_iff is_lower_hex_def in_range_def)

lemma no_ctl_escape_ascii [simp]: "no_ctl (escape_ascii c)"
  by (simp add: escape_ascii_def hex_escape_def backslash_def quote_char_def)

lemma utf8_sequence_bytes:
  assumes "0x80 \<le> byte a" and "c \<in> set (take (utf8_width (a # s)) (a # s))"
  shows "0x80 \<le> byte c"
proof -
  obtain w lo hi where li: "lead_info a = (w, lo, hi)" by (metis prod_cases3)
  have lo: "0x80 \<le> lo \<or> w \<le> 1" and "w \<noteq> 1"
    using li assms(1) by (auto simp: lead_info_def split: if_splits)
  show ?thesis
  proof (cases "1 < w \<and> tail_ok lo hi (w - 1) s")
    case True
    then obtain b t where s: "s = b # t" by (cases s) auto
    have "utf8_width (a # s) = w" using True by (simp add: utf8_width.simps li)
    moreover have "w = Suc (Suc (w - 2))" using conjunct1 [OF True] by arith
    ultimately have "c \<in> set (a # b # take (w - 2) t)"
      using assms(2) unfolding s by (metis take_Suc_Cons)
    moreover have "list_all (in_range 0x80 0xBF) (take (w - 2) t)" and "in_range lo hi b"
      using True by (simp_all add: s numeral_2_eq_2)
    ultimately show ?thesis
      using True lo assms(1) by (auto simp: in_range_def list_all_iff)
  next
    case False
    then have "utf8_width (a # s) = 0" using \<open>w \<noteq> 1\<close> by (auto simp: utf8_width.simps li)
    with assms(2) show ?thesis by simp
  qed
qed

lemma no_ctl_utf8_sequence:
  "0x80 \<le> byte a \<Longrightarrow> no_ctl (take (utf8_width (a # s)) (a # s))"
  by (rule no_ctlI) (metis utf8_sequence_bytes order_trans numeral_le_iff semiring_norm(68,71))

lemma no_ctl_json_escape [simp]: "no_ctl (json_escape s)"
proof (induction s rule: json_escape.induct)
  case (2 c s)
  then show ?case
    by (simp add: no_ctl_utf8_sequence backslash_def)
qed simp

lemma no_ctl_json_string [simp]: "no_ctl (json_string s)"
  by (simp add: json_string_def quote_char_def)

lemma no_ctl_comma_join: "(\<And>x. x \<in> set xs \<Longrightarrow> no_ctl x) \<Longrightarrow> no_ctl (comma_join xs)"
  by (induction xs rule: comma_join.induct) simp_all

lemma no_ctl_encode [simp]: "no_ctl (encode j)"
proof (induction j rule: encode.induct)
  case (6 xs)
  then have "no_ctl (comma_join (map encode xs))" by (intro no_ctl_comma_join) auto
  then show ?case by simp
next
  case (7 kvs)
  then have "no_ctl (comma_join
      (map (\<lambda>kv. json_string (fst kv) @ CHR '':'' # encode (snd kv)) kvs))"
    by (intro no_ctl_comma_join) auto
  then show ?case by simp
qed (simp_all add: no_ctl_float_text)

corollary encode_no_newline: "CHR 0x0A \<notin> set (encode j)"
  by (simp add: no_ctl_no_newline)

end
