(* ===== verification/JsonDecode.thy ===== *)
theory JsonDecode
  imports JsonEncode
begin

text \<open>
  What the gateway uses of \<open>json.Decoder\<close> and \<open>json.Unmarshal\<close>: the byte scanner, the
  unquoting of strings, and the store of values into struct fields with its error policy.
  The scanner distinguishes a value that is complete, text that no continuation makes
  valid, and text that ends inside a value: the decoder of a truncated request body
  depends on the difference.
\<close>

subsection \<open>Unquoting\<close>

definition is_digit :: "char \<Rightarrow> bool" where
  "is_digit c \<longleftrightarrow> in_range 48 57 c"

definition hex_value :: "char \<Rightarrow> nat option" where
  "hex_value c =
     (if in_range 48 57 c then Some (byte c - 48)
      else if in_range 97 102 c then Some (byte c - 87)
      else if in_range 65 70 c then Some (byte c - 55)
      else None)"

text \<open>Four hexadecimal digits; \<open>None\<close> is the -1 of \<open>getu4\<close>.\<close>

fun hex4 :: "bytes \<Rightarrow> nat option" where
  "hex4 (a # b # c # d # _) =
     (case (hex_value a, hex_value b, hex_value c, hex_value d) of
        (Some w, Some x, Some y, Some z) \<Rightarrow> Some (4096 * w + 256 * x + 16 * y + z)
      | _ \<Rightarrow> None)"
| "hex4 _ = None"

definition getu4 :: "bytes \<Rightarrow> nat option" where
  "getu4 s = (if take 2 s = [backslash, CHR ''u''] then hex4 (drop 2 s) else None)"

definition replacement :: bytes where
  "replacement = [CHR 0xEF, CHR 0xBF, CHR 0xBD]"

text \<open>\<open>utf8.AppendRune\<close>; surrogates and values above U+10FFFF become U+FFFD.\<close>

definition encode_rune :: "nat \<Rightarrow> bytes" where
  "encode_rune r =
     (if r < 0x80 then [char_of r]
      else if r < 0x800 then [char_of (0xC0 + r div 64), char_of (0x80 + r mod 64)]
      else if 0xD800 \<le> r \<and> r < 0xE000 \<or> 0x110000 \<le> r then replacement
      else if r < 0x10000 then
        [char_of (0xE0 + r div 4096), char_of (0x80 + r div 64 mod 64), char_of (0x80 + r mod 64)]
      else
        [char_of (0xF0 + r div 262144), char_of (0x80 + r div 4096 mod 64),
         char_of (0x80 + r div 64 mod 64), char_of (0x80 + r mod 64)])"

text \<open>\<open>utf16.DecodeRune\<close> of a surrogate and what follows it; \<open>None\<close> for U+FFFD.\<close>

definition join_surrogates :: "nat \<Rightarrow> nat option \<Rightarrow> nat option" where
  "join_surrogates hi lo =
     (case lo of
        None \<Rightarrow> None
      | Some l \<Rightarrow>
          if 0xD800 \<le> hi \<and> hi < 0xDC00 \<and> 0xDC00 \<le> l \<and> l < 0xE000
          then Some ((hi - 0xD800) * 1024 + (l - 0xDC00) + 0x10000)
          else None)"

definition unescape_char :: "char \<Rightarrow> char option" where
  "unescape_char c =
     (if c = CHR ''b'' then Some (CHR 0x08) else if c = CHR ''f'' then Some (CHR 0x0C)
      else if c = CHR ''n'' then Some (CHR 0x0A) else if c = CHR ''r'' then Some (CHR 0x0D)
      else if c = CHR ''t'' then Some (CHR 0x09)
      else if c = quote_char \<or> c = backslash \<or> c = CHR ''/'' \<or> c = CHR 0x27 then Some c
      else None)"

text \<open>
  \<open>unquote\<close> on the inside of a literal that the scanner accepted, where every backslash
  is followed by a legal escape (on other text the code panics; here the result is cut
  short). Bytes that are not UTF-8 become U+FFFD.
\<close>

function unquote :: "bytes \<Rightarrow> bytes" where
  "unquote [] = []"
| "unquote (c # s) =
     (if c = backslash then
        (case s of
           [] \<Rightarrow> []
         | e # s' \<Rightarrow>
             if e = CHR ''u'' then
               (case hex4 s' of
                  None \<Rightarrow> []
                | Some r \<Rightarrow>
                    if 0xD800 \<le> r \<and> r < 0xE000 then
                      (case join_surrogates r (getu4 (drop 4 s')) of
                         Some cp \<Rightarrow> encode_rune cp @ unquote (drop 10 s')
                       | None \<Rightarrow> replacement @ unquote (drop 4 s'))
                    else encode_rune r @ unquote (drop 4 s'))
             else (case unescape_char e of None \<Rightarrow> [] | Some x \<Rightarrow> x # unquote s'))
      else if byte c < 0x80 then c # unquote s
      else if utf8_width (c # s) = 0 then replacement @ unquote s
      else take (utf8_width (c # s)) (c # s) @ unquote (drop (utf8_width (c # s)) (c # s)))"
  by pat_completeness auto
termination
  by (relation "measure length") auto

subsection \<open>The scanner\<close>

datatype jval =
    VNull
  | VBool bool
  | VNum bytes
  | VStr bytes
  | VArr "jval list"
  | VObj "(bytes \<times> jval) list"

datatype 'a scan = Complete 'a bytes | Malformed | Truncated | NoFuel

definition is_ws :: "char \<Rightarrow> bool" where
  "is_ws c \<longleftrightarrow> c = CHR 0x20 \<or> c = CHR 0x09 \<or> c = CHR 0x0D \<or> c = CHR 0x0A"

definition skip_ws :: "bytes \<Rightarrow> bytes" where
  "skip_ws s = dropWhile is_ws s"

definition all_hex :: "bytes \<Rightarrow> bool" where
  "all_hex s \<longleftrightarrow> list_all (\<lambda>c. hex_value c \<noteq> None) s"

text \<open>The inside of a string literal, from after the opening quote.\<close>

function scan_string :: "bytes \<Rightarrow> bytes \<Rightarrow> bytes scan" where
  "scan_string acc [] = Truncated"
| "scan_string acc (c # s) =
     (if c = quote_char then Complete acc s
      else if byte c < 0x20 then Malformed
      else if c = backslash then
        (case s of
           [] \<Rightarrow> Truncated
         | e # s' \<Rightarrow>
             if e \<in> set [CHR ''b'', CHR ''f'', CHR ''n'', CHR ''r'', CHR ''t'', backslash, CHR ''/'',
                         quote_char]
             then scan_string (acc @ [c, e]) s'
             else if e = CHR ''u'' then
               (if \<not> all_hex (take 4 s') then Malformed
                else if length s' < 4 then Truncated
                else scan_string (acc @ [c, e] @ take 4 s') (drop 4 s'))
             else Malformed)
      else scan_string (acc @ [c]) s)"
  by pat_completeness auto
termination
  by (relation "measure (\<lambda>(acc, s). length s)") auto

definition scan_exp :: "bytes \<Rightarrow> bytes \<Rightarrow> bytes scan" where
  "scan_exp acc s =
     (case s of
        [] \<Rightarrow> Complete acc []
      | c # r \<Rightarrow>
          if c = CHR ''e'' \<or> c = CHR ''E'' then
            (let sgn = (if take 1 r = ''+'' \<or> take 1 r = ''-'' then take 1 r else []);
                 r' = drop (length sgn) r
             in case r' of
                  [] \<Rightarrow> Truncated
                | d # _ \<Rightarrow>
                    if is_digit d
                    then Complete (acc @ [c] @ sgn @ takeWhile is_digit r') (dropWhile is_digit r')
                    else Malformed)
          else Complete acc s)"

definition scan_frac :: "bytes \<Rightarrow> bytes \<Rightarrow> bytes scan" where
  "scan_frac acc s =
     (case s of
        [] \<Rightarrow> Complete acc []
      | c # r \<Rightarrow>
          if c = CHR ''.'' then
            (case r of
               [] \<Rightarrow> Truncated
             | d # _ \<Rightarrow>
                 if is_digit d
                 then scan_exp (acc @ [c] @ takeWhile is_digit r) (dropWhile is_digit r)
                 else Malformed)
          else scan_exp acc s)"

definition scan_number :: "bytes \<Rightarrow> bytes scan" where
  "scan_number s =
     (let sgn = (if take 1 s = ''-'' then ''-'' else []); r = drop (length sgn) s in
      case r of
        [] \<Rightarrow> Truncated
      | c # r' \<Rightarrow>
          if c = CHR ''0'' then scan_frac (sgn @ [c]) r'
          else if is_digit c
          then scan_frac (sgn @ takeWhile is_digit r) (dropWhile is_digit r)
          else Malformed)"

fun scan_word :: "bytes \<Rightarrow> bytes \<Rightarrow> unit scan" where
  "scan_word [] s = Complete () s"
| "scan_word (c # w) [] = Truncated"
| "scan_word (c # w) (d # s) = (if c = d then scan_word w s else Malformed)"

text \<open>A value that is neither an object nor an array, from its first byte.\<close>

definition scan_atom :: "char \<Rightarrow> bytes \<Rightarrow> jval scan" where
  "scan_atom c r =
     (if c = quote_char then map_scan (\<lambda>raw. VStr (unquote raw)) (scan_string [] r)
      else if c = CHR ''-'' \<or> is_digit c then map_scan VNum (scan_number (c # r))
      else if c = CHR ''t'' then map_scan (\<lambda>_. VBool True) (scan_word ''true'' (c # r))
      else if c = CHR ''f'' then map_scan (\<lambda>_. VBool False) (scan_word ''false'' (c # r))
      else if c = CHR ''n'' then map_scan (\<lambda>_. VNull) (scan_word ''null'' (c # r))
      else Malformed)"

text \<open>
  A value, the members of an object after its brace, the elements of an array after its
  bracket. The second argument is the nesting depth left (10000 at the top); the first is
  fuel, of which more than twice the length of the text is always enough.
\<close>

definition max_depth :: nat where
  "max_depth = 10000"

fun scan_value :: "nat \<Rightarrow> nat \<Rightarrow> bytes \<Rightarrow> jval scan"
and scan_members :: "nat \<Rightarrow> nat \<Rightarrow> (bytes \<times> jval) list \<Rightarrow> bytes \<Rightarrow> jval scan"
and scan_elements :: "nat \<Rightarrow> nat \<Rightarrow> jval list \<Rightarrow> bytes \<Rightarrow> jval scan" where
  "scan_value 0 d s = NoFuel"
| "scan_value (Suc n) d s =
     (case skip_ws s of
        [] \<Rightarrow> Truncated
      | c # r \<Rightarrow>
          if c = CHR 0x7B then
            (if d = 0 then Malformed
             else case skip_ws r of
                    [] \<Rightarrow> Truncated
                  | k # r' \<Rightarrow>
                      if k = CHR 0x7D then Complete (VObj []) r'
                      else scan_members n (d - 1) [] (k # r'))
          else if c = CHR ''['' then
            (if d = 0 then Malformed
             else case skip_ws r of
                    [] \<Rightarrow> Truncated
                  | k # r' \<Rightarrow>
                      if k = CHR '']'' then Complete (VArr []) r'
                      else scan_elements n (d - 1) [] (k # r'))
          else scan_atom c r)"
| "scan_members 0 d acc s = NoFuel"
| "scan_members (Suc n) d acc s =
     (case skip_ws s of
        [] \<Rightarrow> Truncated
      | c # r \<Rightarrow>
          if c \<noteq> quote_char then Malformed
          else case scan_string [] r of
                 Complete raw r1 \<Rightarrow>
                   (case skip_ws r1 of
                      [] \<Rightarrow> Truncated
                    | e # r2 \<Rightarrow>
                        if e \<noteq> CHR '':'' then Malformed
                        else case scan_value n d r2 of
                               Complete v r3 \<Rightarrow>
                                 (case skip_ws r3 of
                                    [] \<Rightarrow> Truncated
                                  | f # r4 \<Rightarrow>
                                      if f = CHR '','' then
                                        scan_members n d (acc @ [(unquote raw, v)]) r4
                                      else if f = CHR 0x7D then
                                        Complete (VObj (acc @ [(unquote raw, v)])) r4
                                      else Malformed)
                             | Malformed \<Rightarrow> Malformed
                             | Truncated \<Rightarrow> Truncated
                             | NoFuel \<Rightarrow> NoFuel)
               | Malformed \<Rightarrow> Malformed
               | Truncated \<Rightarrow> Truncated
               | NoFuel \<Rightarrow> NoFuel)"
| "scan_elements 0 d acc s = NoFuel"
| "scan_elements (Suc n) d acc s =
     (case scan_value n d s of
        Complete v r3 \<Rightarrow>
          (case skip_ws r3 of
             [] \<Rightarrow> Truncated
           | f # r4 \<Rightarrow>
               if f = CHR '','' then scan_elements n d (acc @ [v]) r4
               else if f = CHR '']'' then Complete (VArr (acc @ [v])) r4
               else Malformed)
      | Malformed \<Rightarrow> Malformed
      | Truncated \<Rightarrow> Truncated
      | NoFuel \<Rightarrow> NoFuel)"

text \<open>The scanner with enough fuel for the text.\<close>

definition scan :: "bytes \<Rightarrow> jval scan" where
  "scan s = scan_value (2 * length s + 2) max_depth s"

end
