(* ===== verification/JsonFacts.thy ===== *)
theory JsonFacts
  imports JsonDecode
begin

text \<open>
  Facts about the JSON codec that the components rest on: the scanner always has enough
  fuel and consumes input, unquoting always gives valid UTF-8, and a string written by the
  encoder is read back as it was.
\<close>

subsection \<open>Unquoting gives valid UTF-8\<close>

lemma tail_ok_take: "tail_ok lo hi n s \<Longrightarrow> 0 < n \<Longrightarrow> tail_ok lo hi n (take n s)"
  by (cases s; cases n) (auto simp: min_def)

lemma utf8_width_take: "utf8_width (take (utf8_width s) s) = utf8_width s"
proof (cases s)
  case (Cons a t)
  obtain w lo hi where li: "lead_info a = (w, lo, hi)" by (metis prod_cases3)
  show ?thesis
  proof (cases "w \<le> 1")
    case True
    then show ?thesis by (cases w) (auto simp: Cons utf8_width.simps li)
  next
    case False
    then obtain v where "w = Suc v" "0 < v" by (cases w) auto
    then show ?thesis by (auto simp: Cons utf8_width.simps li tail_ok_take)
  qed
qed simp

lemma valid_utf8_sequence: "utf8_width s \<noteq> 0 \<Longrightarrow> valid_utf8 (take (utf8_width s) s)"
  using utf8_width_take [of s] by (subst valid_utf8_step) auto

lemma byte_char_of: "n < 256 \<Longrightarrow> byte (char_of n) = n"
  by (simp add: of_char_of)

lemma valid_utf8_single: "utf8_width s = length s \<Longrightarrow> valid_utf8 s"
  by (cases "s = []") (auto simp: valid_utf8_step)

lemma valid_replacement [simp]: "valid_utf8 replacement"
  by (rule valid_utf8_single)
    (simp add: replacement_def utf8_width.simps lead_info_def in_range_def)

lemma valid_encode_rune: "valid_utf8 (encode_rune r)"
proof -
  consider "r < 0x80" | "0x80 \<le> r" "r < 0x800"
    | "0xD800 \<le> r \<and> r < 0xE000 \<or> 0x110000 \<le> r"
    | "0x800 \<le> r" "r < 0x10000" "\<not> (0xD800 \<le> r \<and> r < 0xE000)"
    | "0x10000 \<le> r" "r < 0x110000" by linarith
  then show ?thesis
  proof cases
    case 1
    then show ?thesis
      by (intro valid_utf8_single)
        (simp add: encode_rune_def utf8_width.simps lead_info_def byte_char_of)
  next
    case 2
    then have "2 \<le> r div 64" "r div 64 < 32" by auto
    with 2 show ?thesis
      by (intro valid_utf8_single)
        (simp add: encode_rune_def utf8_width.simps lead_info_def in_range_def byte_char_of)
  next
    case 3
    then show ?thesis by (auto simp: encode_rune_def)
  next
    case 4
    define q m where "q = r div 4096" and "m = r div 64 mod 64"
    have q: "q < 16" using 4 by (simp add: q_def less_mult_imp_div_less)
    have m: "m < 64" by (simp add: m_def)
    have "r div 4096 = r div 64 div 64" by (simp flip: div_mult2_eq)
    then have qm: "r div 64 = 64 * q + m" by (simp add: q_def m_def)
    have r64: "r div 64 \<ge> 32" using 4 by auto
    have lo: "q = 0 \<longrightarrow> 32 \<le> m" using qm r64 by auto
    have "r div 64 < 864 \<or> 896 \<le> r div 64" using 4(3) by auto
    then have hi: "q = 13 \<longrightarrow> m < 32" using qm m by auto
    show ?thesis
      using 4 q m lo hi
      by (intro valid_utf8_single)
        (auto simp: encode_rune_def utf8_width.simps lead_info_def in_range_def byte_char_of
          q_def [symmetric] m_def [symmetric])
  next
    case 5
    define q m where "q = r div 262144" and "m = r div 4096 mod 64"
    have q: "q < 5" using 5 by (simp add: q_def less_mult_imp_div_less)
    have m: "m < 64" by (simp add: m_def)
    have "r div 262144 = r div 4096 div 64" by (simp flip: div_mult2_eq)
    then have qm: "r div 4096 = 64 * q + m" by (simp add: q_def m_def)
    have r64: "r div 4096 \<ge> 16" "r div 4096 < 272" using 5 by auto
    have lo: "q = 0 \<longrightarrow> 16 \<le> m" and hi: "q = 4 \<longrightarrow> m < 16" using qm r64 by auto
    show ?thesis
      using 5 q m lo hi
      by (intro valid_utf8_single)
        (auto simp: encode_rune_def utf8_width.simps lead_info_def in_range_def byte_char_of
          q_def [symmetric] m_def [symmetric])
  qed
qed

definition unescaped_chars :: "char list" where
  "unescaped_chars =
     [CHR 0x08, CHR 0x0C, CHR 0x0A, CHR 0x0D, CHR 0x09, quote_char, backslash, CHR ''/'', CHR 0x27]"

lemma unescape_char_ascii:
  assumes "unescape_char c = Some d"
  shows "byte d < 0x80"
proof -
  have "d \<in> set unescaped_chars"
    using assms by (simp add: unescape_char_def unescaped_chars_def split: if_split_asm)
  moreover have "list_all (\<lambda>d. byte d < 0x80) unescaped_chars"
    by (simp add: unescaped_chars_def quote_char_def backslash_def)
  ultimately show ?thesis by (simp add: list_all_iff)
qed

lemma valid_utf8_unescape: "unescape_char e = Some x \<Longrightarrow> valid_utf8 (x # s) = valid_utf8 s"
  by (simp add: unescape_char_ascii valid_utf8_ascii)

lemma valid_utf8_unquote: "valid_utf8 (unquote s)"
proof (induction s rule: unquote.induct)
  case (2 c s)
  show ?case
  proof (cases "c = backslash")
    case True
    then show ?thesis
      using "2.IH"(1-4)
      by (auto simp: valid_utf8_append valid_encode_rune valid_utf8_unescape
          split: list.splits option.splits)
  next
    case False
    then show ?thesis
      using "2.IH"(5-7)
      by (auto simp: valid_utf8_append valid_utf8_ascii valid_utf8_sequence)
  qed
qed simp

subsection \<open>Reading back an encoded string\<close>

lemma hex_value_digit: "n < 16 \<Longrightarrow> hex_value (hex_digit n) = Some n"
  by (simp add: hex_value_def hex_digit_def in_range_def byte_char_of)

lemma hex_value_zero: "hex_value (CHR ''0'') = Some 0"
  by (simp add: hex_value_def in_range_def)

lemma unquote_hex_escape:
  assumes "byte c < 0x80"
  shows "unquote (hex_escape c @ s) = c # unquote s"
proof -
  have "hex4 (''00'' @ hex_byte c @ s) = Some (byte c)"
    using assms hex_value_zero
    by (simp add: hex_byte_def hex_value_digit less_mult_imp_div_less)
  then show ?thesis
    using assms by (simp add: hex_escape_def hex_byte_def encode_rune_def)
qed

lemma unquote_escape_ascii:
  assumes "byte c < 0x80"
  shows "unquote (escape_ascii c @ s) = c # unquote s"
  using assms
  by (auto simp: escape_ascii_def unquote_hex_escape unescape_char_def backslash_def
      quote_char_def)

lemma unquote_sequence:
  assumes "0x80 \<le> byte c" and "utf8_width (c # s) \<noteq> 0"
  shows "unquote (take (utf8_width (c # s)) (c # s) @ t)
    = take (utf8_width (c # s)) (c # s) @ unquote t"
proof -
  define w where "w = utf8_width (c # s)"
  obtain v where v: "take w (c # s) = c # v"
    using assms(2) by (cases w) (auto simp: w_def)
  have w: "utf8_width (c # v @ t) = w"
    using utf8_width_append [of "take w (c # s)" t] utf8_width_take [of "c # s"] assms(2) v
    by (simp add: w_def)
  have len: "length (c # v) = w"
    using v utf8_width_le [of "c # s"] by (metis length_take min.absorb2 w_def)
  have nb: "c \<noteq> backslash" using assms(1) by (auto simp: backslash_def)
  have "take w (c # v @ t) = c # v" and "drop w (c # v @ t) = t"
    using len by (metis append_Cons append_eq_conv_conj)+
  then have "unquote (c # v @ t) = (c # v) @ unquote t"
    using nb assms w w_def by simp
  then show ?thesis by (simp add: v w_def [symmetric])
qed

lemma unquote_u2028:
  "unquote (backslash # ''u2028'' @ t) = [CHR 0xE2, CHR 0x80, CHR 0xA8] @ unquote t"
  "unquote (backslash # ''u2029'' @ t) = [CHR 0xE2, CHR 0x80, CHR 0xA9] @ unquote t"
  by (simp_all add: hex_value_def in_range_def encode_rune_def char_of_def bit_simps)

theorem unquote_json_escape: "valid_utf8 s \<Longrightarrow> unquote (json_escape s @ t) = s @ unquote t"
proof (induction s rule: json_escape.induct)
  case (2 c s)
  consider "byte c < 0x80" | "0x80 \<le> byte c" "utf8_width (c # s) = 0"
    | b where "0x80 \<le> byte c" "utf8_width (c # s) \<noteq> 0"
      "take 3 (c # s) = [CHR 0xE2, CHR 0x80, b]" "b = CHR 0xA8 \<or> b = CHR 0xA9"
    | "0x80 \<le> byte c" "utf8_width (c # s) \<noteq> 0"
      "take 3 (c # s) \<notin> {[CHR 0xE2, CHR 0x80, CHR 0xA8], [CHR 0xE2, CHR 0x80, CHR 0xA9]}"
    by fastforce
  then show ?case
  proof cases
    case 1
    then show ?thesis
      using 2 by (simp add: unquote_escape_ascii valid_utf8_ascii del: unquote.simps)
  next
    case 2
    then show ?thesis using "2.prems" valid_utf8_stuck by blast
  next
    case (3 b)
    then obtain s' where s: "c # s = [CHR 0xE2, CHR 0x80, b] @ s'"
      by (metis append_take_drop_id)
    then have w: "utf8_width (c # s) = 3"
      using 3(4) by (auto simp: utf8_width.simps lead_info_def in_range_def)
    then have "valid_utf8 s'" using "2.prems" valid_utf8_step [of "c # s"] s by simp
    then show ?thesis
      using 3 s "2.IH"(3,4) unquote_u2028
      by (auto simp del: unquote.simps)
  next
    case 4
    then have "valid_utf8 (drop (utf8_width (c # s)) (c # s))"
      using "2.prems" valid_utf8_step by blast
    moreover have "json_escape (c # s) = take (utf8_width (c # s)) (c # s)
        @ json_escape (drop (utf8_width (c # s)) (c # s))"
      using 4 by (auto simp del: take_Suc_Cons)
    ultimately show ?thesis
      using 4 "2.IH"(5) by (simp add: unquote_sequence del: unquote.simps json_escape.simps)
  qed
qed simp

subsection \<open>The scanner consumes its input\<close>

lemma map_scan_Complete [simp]:
  "map_scan f x = Complete v r \<longleftrightarrow> (\<exists>u. x = Complete u r \<and> v = f u)"
  by (cases x) auto

lemma map_scan_NoFuel [simp]: "map_scan f x = NoFuel \<longleftrightarrow> x = NoFuel"
  by (cases x) auto

lemma length_skip_ws: "length (skip_ws s) \<le> length s"
  by (simp add: skip_ws_def length_dropWhile_le)

lemma skip_ws_Cons: "skip_ws s = c # r \<Longrightarrow> length r < length s"
  using length_skip_ws [of s] by simp

lemma scan_string_shorter: "scan_string acc s = Complete raw r \<Longrightarrow> length r < length s"
proof (induction acc s rule: scan_string.induct)
  case (2 acc c s)
  then show ?case
    by (auto split: if_splits list.splits dest: less_SucI)
qed simp

lemma scan_string_fuel: "scan_string acc s \<noteq> NoFuel"
  by (induction acc s rule: scan_string.induct) (auto split: list.splits)

lemma drop_Cons_length: "drop n xs = y # ys \<Longrightarrow> length ys \<le> length xs"
  by (drule arg_cong [where f = length]) simp

lemma scan_exp_length: "scan_exp acc s = Complete v r \<Longrightarrow> length r \<le> length s"
  by (cases s) (auto simp: scan_exp_def Let_def split: list.splits if_splits
      intro: le_SucI order_trans [OF length_dropWhile_le] dest: drop_Cons_length)

lemma scan_exp_fuel: "scan_exp acc s \<noteq> NoFuel"
  by (auto simp: scan_exp_def Let_def split: list.splits)

lemma scan_frac_length: "scan_frac acc s = Complete v r \<Longrightarrow> length r \<le> length s"
  by (auto simp: scan_frac_def split: list.splits if_splits
      dest!: scan_exp_length intro: le_SucI order_trans [OF _ length_dropWhile_le])

lemma scan_frac_fuel: "scan_frac acc s \<noteq> NoFuel"
  by (auto simp: scan_frac_def scan_exp_fuel split: list.splits)

lemma scan_number_shorter: "scan_number s = Complete v r \<Longrightarrow> length r < length s"
  by (cases s) (auto simp: scan_number_def Let_def split: list.splits if_splits
      dest!: scan_frac_length arg_cong [where f = length]
      intro: less_SucI order_le_less_trans [OF _ le_imp_less_Suc [OF length_dropWhile_le]]
        order_trans [OF _ length_dropWhile_le])

lemma scan_number_fuel: "scan_number s \<noteq> NoFuel"
  by (auto simp: scan_number_def scan_frac_fuel Let_def split: list.splits)

lemma scan_word_shorter: "scan_word w s = Complete v r \<Longrightarrow> w \<noteq> [] \<Longrightarrow> length r < length s"
  by (induction w s rule: scan_word.induct) (force split: if_splits)+

lemma scan_word_fuel: "scan_word w s \<noteq> NoFuel"
  by (induction w s rule: scan_word.induct) auto

lemma scan_atom_shorter: "scan_atom c r = Complete v r' \<Longrightarrow> length r' \<le> length r"
  by (auto simp: scan_atom_def split: if_splits
      dest!: scan_string_shorter scan_number_shorter scan_word_shorter)

lemma scan_atom_fuel: "scan_atom c r \<noteq> NoFuel"
  by (simp add: scan_atom_def scan_string_fuel scan_number_fuel scan_word_fuel)

lemma scan_membersE:
  assumes "scan_members (Suc n) d acc s = Complete v r"
  obtains r0 raw r1 r2 w r3 f r4 where
    "skip_ws s = quote_char # r0" "scan_string [] r0 = Complete raw r1"
    "skip_ws r1 = CHR '':'' # r2" "scan_value n d r2 = Complete w r3" "skip_ws r3 = f # r4"
    "f = CHR '','' \<and> scan_members n d (acc @ [(unquote raw, w)]) r4 = Complete v r
     \<or> f = CHR 0x7D \<and> r4 = r \<and> v = VObj (acc @ [(unquote raw, w)])"
  using assms by (auto split: list.splits scan.splits if_splits)

lemma scan_elementsE:
  assumes "scan_elements (Suc n) d vs s = Complete v r"
  obtains w r3 f r4 where
    "scan_value n d s = Complete w r3" "skip_ws r3 = f # r4"
    "f = CHR '','' \<and> scan_elements n d (vs @ [w]) r4 = Complete v r
     \<or> f = CHR '']'' \<and> r4 = r \<and> v = VArr (vs @ [w])"
  using assms by (auto split: list.splits scan.splits if_splits)

lemma scan_valueE:
  assumes "scan_value (Suc n) d s = Complete v r"
  obtains c t where "skip_ws s = c # t" "scan_atom c t = Complete v r"
  | c t k r' where "skip_ws s = c # t" "skip_ws t = k # r'" "r' = r"
  | c t k r' where "skip_ws s = c # t" "skip_ws t = k # r'"
      "scan_members n (d - 1) [] (k # r') = Complete v r"
  | c t k r' where "skip_ws s = c # t" "skip_ws t = k # r'"
      "scan_elements n (d - 1) [] (k # r') = Complete v r"
  using assms by (auto split: list.splits if_splits)

lemma scan_shorter:
  "scan_value n d s = Complete v r \<Longrightarrow> length r < length s"
  "scan_members n d acc s = Complete v r \<Longrightarrow> length r < length s"
  "scan_elements n d vs s = Complete v r \<Longrightarrow> length r < length s"
proof (induction n arbitrary: d s acc vs v r)
  case (Suc n)
  {
    case 1
    then show ?case
      by (rule scan_valueE) (fastforce dest!: skip_ws_Cons scan_atom_shorter Suc.IH)+
  next
    case 2
    then show ?case
    proof (rule scan_membersE)
      fix r0 raw r1 r2 w r3 f r4
      assume *: "skip_ws s = quote_char # r0" "scan_string [] r0 = Complete raw r1"
        "skip_ws r1 = CHR '':'' # r2" "scan_value n d r2 = Complete w r3" "skip_ws r3 = f # r4"
        "f = CHR '','' \<and> scan_members n d (acc @ [(unquote raw, w)]) r4 = Complete v r
         \<or> f = CHR 0x7D \<and> r4 = r \<and> v = VObj (acc @ [(unquote raw, w)])"
      have "length r \<le> length r4" using *(6) Suc.IH(2) by (metis order.strict_implies_order order_refl)
      also have "length r4 < length s"
        using skip_ws_Cons [OF *(1)] scan_string_shorter [OF *(2)] skip_ws_Cons [OF *(3)]
          Suc.IH(1) [OF *(4)] skip_ws_Cons [OF *(5)] by linarith
      finally show "length r < length s" .
    qed
  next
    case 3
    then show ?case
    proof (rule scan_elementsE)
      fix w r3 f r4
      assume *: "scan_value n d s = Complete w r3" "skip_ws r3 = f # r4"
        "f = CHR '','' \<and> scan_elements n d (vs @ [w]) r4 = Complete v r
         \<or> f = CHR '']'' \<and> r4 = r \<and> v = VArr (vs @ [w])"
      have "length r \<le> length r4" using *(3) Suc.IH(3) by (metis order.strict_implies_order order_refl)
      also have "length r4 < length s"
        using Suc.IH(1) [OF *(1)] skip_ws_Cons [OF *(2)] by linarith
      finally show "length r < length s" .
    qed
  }
qed simp_all

lemma scan_fuel:
  "2 * length s < n \<Longrightarrow> scan_value n d s \<noteq> NoFuel"
  "2 * length s < n \<Longrightarrow> scan_members n d acc s \<noteq> NoFuel"
  "2 * length s + 1 < n \<Longrightarrow> scan_elements n d vs s \<noteq> NoFuel"
proof (induction n arbitrary: d s acc vs)
  case (Suc n)
  {
    case 1
    have "2 * length (k # r') < n \<and> 2 * length (k # r') + 1 < n"
      if "skip_ws s = c # t" "skip_ws t = k # r'" for c t k r'
      using skip_ws_Cons [OF that(1)] skip_ws_Cons [OF that(2)] 1 by simp
    then show ?case
      by (auto simp: scan_atom_fuel Suc.IH simp del: length_Cons split: list.splits)
  next
    case 2
    have "2 * length r2 < n \<and> 2 * length r4 < n"
      if "skip_ws s = c # r0" "scan_string [] r0 = Complete raw r1" "skip_ws r1 = e # r2"
        "scan_value n d r2 = Complete w r3" "skip_ws r3 = f # r4" for c r0 raw r1 e r2 w r3 f r4
      using skip_ws_Cons [OF that(1)] scan_string_shorter [OF that(2)] skip_ws_Cons [OF that(3)]
        scan_shorter(1) [OF that(4)] skip_ws_Cons [OF that(5)] 2 by simp
    moreover have "2 * length r2 < n"
      if "skip_ws s = c # r0" "scan_string [] r0 = Complete raw r1" "skip_ws r1 = e # r2"
      for c r0 raw r1 e r2
      using skip_ws_Cons [OF that(1)] scan_string_shorter [OF that(2)] skip_ws_Cons [OF that(3)] 2
      by simp
    ultimately show ?case
      by (auto simp: scan_string_fuel Suc.IH split: list.splits scan.splits)
  next
    case 3
    have "2 * length r4 + 1 < n"
      if "scan_value n d s = Complete w r3" "skip_ws r3 = f # r4" for w r3 f r4
      using scan_shorter(1) [OF that(1)] skip_ws_Cons [OF that(2)] 3 by simp
    moreover have "scan_value n d s \<noteq> NoFuel" using 3 by (intro Suc.IH) simp
    ultimately show ?case
      by (auto simp: Suc.IH split: list.splits scan.splits)
  }
qed simp_all

theorem scan_total: "scan s \<noteq> NoFuel"
  unfolding scan_def by (rule scan_fuel) simp

end
