(* ===== verification/JsonStruct.thy ===== *)
theory JsonStruct
  imports JsonFacts
begin

text \<open>
  Decoding a scanned value into a struct, as \<open>encoding/json\<close> does it: fields are found by
  their exact name or else by folded case, later members overwrite earlier ones, \<open>null\<close>
  leaves a field alone, and the first error met is remembered while the rest is still
  stored. The decoder over a request body that is cut at a limit
  (\<open>http.MaxBytesReader\<close>) is \<open>decode_next\<close>.
\<close>

datatype dec_error =
    EndOfInput          \<comment> \<open>\<open>io.EOF\<close>: nothing but white space\<close>
  | UnexpectedEnd       \<comment> \<open>\<open>io.ErrUnexpectedEOF\<close>\<close>
  | ReadFailed          \<comment> \<open>the error of the reader, such as \<open>*http.MaxBytesError\<close>\<close>
  | BadSyntax           \<comment> \<open>\<open>*json.SyntaxError\<close>\<close>
  | WrongType bytes     \<comment> \<open>\<open>*json.UnmarshalTypeError\<close> with its \<open>Field\<close>\<close>
  | UnknownField bytes  \<comment> \<open>from \<open>DisallowUnknownFields\<close>, with the key\<close>
  | BadTime             \<comment> \<open>from \<open>time.Time\<close>'s \<open>UnmarshalJSON\<close>\<close>

subsection \<open>The decoder over a limited body\<close>

fun is_container :: "jval \<Rightarrow> bool" where
  "is_container (VObj _) = True"
| "is_container (VArr _) = True"
| "is_container _ = False"

text \<open>
  \<open>decode_next s over\<close> reads one value from \<open>s\<close>, the bytes that can be read; \<open>over\<close> says
  that the reader fails with an error of its own after them instead of ending. The end of a
  scalar is only seen at the byte after it, that of an object or array at its bracket.
\<close>

definition decode_next :: "bytes \<Rightarrow> bool \<Rightarrow> dec_error + jval \<times> bytes" where
  "decode_next s over =
     (case scan s of
        Complete v r \<Rightarrow>
          if over \<and> r = [] \<and> \<not> is_container v then Inl ReadFailed else Inr (v, r)
      | Malformed \<Rightarrow> Inl BadSyntax
      | NoFuel \<Rightarrow> Inl BadSyntax
      | Truncated \<Rightarrow>
          if over then Inl ReadFailed
          else if skip_ws s = [] then Inl EndOfInput
          else Inl UnexpectedEnd)"

text \<open>\<open>json.Unmarshal\<close> on a whole text: one value and white space.\<close>

definition unmarshal_value :: "bytes \<Rightarrow> dec_error + jval" where
  "unmarshal_value s =
     (case scan s of
        Complete v r \<Rightarrow> if skip_ws r = [] then Inr v else Inl BadSyntax
      | _ \<Rightarrow> Inl BadSyntax)"

subsection \<open>Field names\<close>

text \<open>
  The name folding of \<open>encoding/json\<close>, exact for comparisons with ASCII names: besides the
  ASCII letters, U+017F folds to \<open>s\<close> and U+212A to \<open>k\<close>.
\<close>

fun fold_name :: "bytes \<Rightarrow> bytes" where
  "fold_name [] = []"
| "fold_name (c # s) =
     (if c = CHR 0xC5 \<and> take 1 s = [CHR 0xBF] then CHR ''s'' # fold_name (drop 1 s)
      else if c = CHR 0xE2 \<and> take 2 s = [CHR 0x84, CHR 0xAA] then CHR ''k'' # fold_name (drop 2 s)
      else lower_byte c # fold_name s)"

definition find_field :: "bytes \<Rightarrow> (bytes \<times> 'f) list \<Rightarrow> 'f option" where
  "find_field k fs =
     (case map_of fs k of
        Some f \<Rightarrow> Some f
      | None \<Rightarrow> map_of (map (\<lambda>nf. (fold_name (fst nf), snd nf)) fs) (fold_name k))"

lemma find_field_exact: "map_of fs k = Some f \<Longrightarrow> find_field k fs = Some f"
  by (simp add: find_field_def)

lemma find_field_in: "find_field k fs = Some f \<Longrightarrow> f \<in> snd ` set fs"
  by (force simp: find_field_def dest: map_of_SomeD split: option.splits)

subsection \<open>Storing values\<close>

type_synonym 's store = "jval \<Rightarrow> 's \<Rightarrow> 's \<times> dec_error option"

definition first_error :: "dec_error option \<Rightarrow> dec_error option \<Rightarrow> dec_error option" where
  "first_error e e' = (case e of None \<Rightarrow> e' | Some _ \<Rightarrow> e)"

lemma first_error_None [simp]: "first_error None e = e" "first_error e None = e"
  by (cases e; simp add: first_error_def)+

lemma first_error_Some [simp]: "first_error (Some x) e = Some x"
  by (simp add: first_error_def)

definition store_str :: "bytes \<Rightarrow> (bytes \<Rightarrow> 's \<Rightarrow> 's) \<Rightarrow> 's store" where
  "store_str path upd v s =
     (case v of VStr x \<Rightarrow> (upd x s, None) | VNull \<Rightarrow> (s, None) | _ \<Rightarrow> (s, Some (WrongType path)))"

definition store_bool :: "bytes \<Rightarrow> (bool \<Rightarrow> 's \<Rightarrow> 's) \<Rightarrow> 's store" where
  "store_bool path upd v s =
     (case v of VBool x \<Rightarrow> (upd x s, None) | VNull \<Rightarrow> (s, None) | _ \<Rightarrow> (s, Some (WrongType path)))"

text \<open>A 64-bit integer field takes a number whose text is an integer in range.\<close>

definition store_int :: "bytes \<Rightarrow> (int \<Rightarrow> 's \<Rightarrow> 's) \<Rightarrow> 's store" where
  "store_int path upd v s =
     (case v of
        VNum t \<Rightarrow>
          (case parse_int t of Inr n \<Rightarrow> (upd n s, None) | Inl _ \<Rightarrow> (s, Some (WrongType path)))
      | VNull \<Rightarrow> (s, None)
      | _ \<Rightarrow> (s, Some (WrongType path)))"

text \<open>The members of an object into a struct; \<open>strict\<close> is \<open>DisallowUnknownFields\<close>.\<close>

fun store_members ::
  "bool \<Rightarrow> (bytes \<times> 's store) list \<Rightarrow> (bytes \<times> jval) list \<Rightarrow> 's \<Rightarrow> dec_error option
   \<Rightarrow> 's \<times> dec_error option" where
  "store_members strict fs [] s e = (s, e)"
| "store_members strict fs ((k, v) # kvs) s e =
     (case find_field k fs of
        None \<Rightarrow>
          store_members strict fs kvs s (if strict then first_error e (Some (UnknownField k)) else e)
      | Some f \<Rightarrow>
          (case f v s of (s', e') \<Rightarrow> store_members strict fs kvs s' (first_error e e')))"

definition store_struct :: "bool \<Rightarrow> bytes \<Rightarrow> (bytes \<times> 's store) list \<Rightarrow> 's store" where
  "store_struct strict path fs v s =
     (case v of
        VObj kvs \<Rightarrow> store_members strict fs kvs s None
      | VNull \<Rightarrow> (s, None)
      | _ \<Rightarrow> (s, Some (WrongType path)))"

text \<open>An error that has been saved is the one reported.\<close>

lemma store_members_error: "snd (store_members strict fs kvs s (Some e)) = Some e"
  by (induction strict fs kvs s "Some e" rule: store_members.induct)
    (auto split: option.split prod.split)

lemma store_members_unknown:
  assumes "find_field k fs = None" and "snd (store_members True fs pre s None) = None"
  shows "snd (store_members True fs (pre @ (k, v) # post) s None) = Some (UnknownField k)"
  using assms(2)
proof (induction pre arbitrary: s)
  case Nil
  then show ?case by (simp add: assms(1) store_members_error)
next
  case (Cons kv pre)
  obtain k' v' where kv: "kv = (k', v')" by force
  show ?case
  proof (cases "find_field k' fs")
    case None
    then have False using Cons.prems by (simp add: kv store_members_error)
    then show ?thesis ..
  next
    case (Some f)
    obtain s' e' where "f v' s = (s', e')" by force
    then show ?thesis
      using Cons Some by (cases e') (simp_all add: kv store_members_error)
  qed
qed

end
