(* ===== verification/ApiV1.thy ===== *)
theory ApiV1
  imports JsonStruct
begin

text \<open>
  The wire types of \<open>pkg/apiv1\<close> and their JSON forms, field by field from the struct tags
  (\<open>omitempty\<close> drops empty strings, zero integers, false and empty slices). Tool arguments
  (\<open>map[string]any\<close>) are JSON values; \<open>None\<close> is a nil map. A time is its RFC 3339 text.
\<close>

subsection \<open>\<open>omitempty\<close>\<close>

definition str_field :: "bytes \<Rightarrow> bytes \<Rightarrow> (bytes \<times> json) list" where
  "str_field k s = (if s = [] then [] else [(k, JStr s)])"

definition int_field :: "bytes \<Rightarrow> int \<Rightarrow> (bytes \<times> json) list" where
  "int_field k n = (if n = 0 then [] else [(k, JInt n)])"

definition bool_field :: "bytes \<Rightarrow> bool \<Rightarrow> (bytes \<times> json) list" where
  "bool_field k b = (if b then [(k, JBool True)] else [])"

definition args_field :: "bytes \<Rightarrow> (bytes \<times> json) list option \<Rightarrow> (bytes \<times> json) list" where
  "args_field k a = (case a of None \<Rightarrow> [] | Some m \<Rightarrow> if m = [] then [] else [(k, JObj m)])"

definition list_field :: "bytes \<Rightarrow> json list \<Rightarrow> (bytes \<times> json) list" where
  "list_field k xs = (if xs = [] then [] else [(k, JArr xs)])"

subsection \<open>Requests and responses\<close>

record AskRequest =
  ask_Query :: bytes
  ask_Model :: bytes
  ask_Stream :: bool
  ask_ConversationID :: bytes

definition zero_AskRequest :: AskRequest where
  "zero_AskRequest =
     \<lparr>ask_Query = [], ask_Model = [], ask_Stream = False, ask_ConversationID = []\<rparr>"

definition AskRequest_json :: "AskRequest \<Rightarrow> json" where
  "AskRequest_json r =
     JObj ([(''query'', JStr (ask_Query r))]
       @ str_field ''model'' (ask_Model r)
       @ bool_field ''stream'' (ask_Stream r)
       @ str_field ''conversation_id'' (ask_ConversationID r))"

text \<open>The fields as the decoder fills them.\<close>

definition AskRequest_fields :: "(bytes \<times> AskRequest store) list" where
  "AskRequest_fields =
     [(''query'', store_str ''query'' (\<lambda>x r. r\<lparr>ask_Query := x\<rparr>)),
      (''model'', store_str ''model'' (\<lambda>x r. r\<lparr>ask_Model := x\<rparr>)),
      (''stream'', store_bool ''stream'' (\<lambda>x r. r\<lparr>ask_Stream := x\<rparr>)),
      (''conversation_id'', store_str ''conversation_id'' (\<lambda>x r. r\<lparr>ask_ConversationID := x\<rparr>))]"

record ToolCall =
  tc_Name :: bytes
  tc_Args :: "(bytes \<times> json) list option"
  tc_DurationMS :: int

definition ToolCall_json :: "ToolCall \<Rightarrow> json" where
  "ToolCall_json t =
     JObj ([(''name'', JStr (tc_Name t))]
       @ args_field ''args'' (tc_Args t)
       @ [(''duration_ms'', JInt (tc_DurationMS t))])"

record Usage =
  us_PromptTokens :: int
  us_CompletionTokens :: int

definition Usage_json :: "Usage \<Rightarrow> json" where
  "Usage_json u =
     JObj [(''prompt_tokens'', JInt (us_PromptTokens u)),
           (''completion_tokens'', JInt (us_CompletionTokens u))]"

record AskResponse =
  rsp_RequestID :: bytes
  rsp_Model :: bytes
  rsp_Query :: bytes
  rsp_Answer :: bytes
  rsp_ToolCalls :: "ToolCall list"
  rsp_Usage :: Usage
  rsp_LatencyMS :: int

definition AskResponse_json :: "AskResponse \<Rightarrow> json" where
  "AskResponse_json r =
     JObj ([(''request_id'', JStr (rsp_RequestID r)),
            (''model'', JStr (rsp_Model r)),
            (''query'', JStr (rsp_Query r)),
            (''answer'', JStr (rsp_Answer r))]
       @ list_field ''tool_calls'' (map ToolCall_json (rsp_ToolCalls r))
       @ [(''usage'', Usage_json (rsp_Usage r)),
          (''latency_ms'', JInt (rsp_LatencyMS r))])"

record HealthResponse =
  hr_Status :: bytes
  hr_Version :: bytes

definition HealthResponse_json :: "HealthResponse \<Rightarrow> json" where
  "HealthResponse_json h =
     JObj ([(''status'', JStr (hr_Status h))] @ str_field ''version'' (hr_Version h))"

record Problem =
  pb_Type :: bytes
  pb_Title :: bytes
  pb_Status :: int
  pb_Detail :: bytes
  pb_Instance :: bytes
  pb_RequestID :: bytes

definition Problem_json :: "Problem \<Rightarrow> json" where
  "Problem_json p =
     JObj (str_field ''type'' (pb_Type p)
       @ [(''title'', JStr (pb_Title p)), (''status'', JInt (pb_Status p))]
       @ str_field ''detail'' (pb_Detail p)
       @ str_field ''instance'' (pb_Instance p)
       @ str_field ''request_id'' (pb_RequestID p))"

definition ProblemContentType :: bytes where
  "ProblemContentType = ''application/problem+json''"

subsection \<open>Models and tools\<close>

record Model =
  md_Name :: bytes
  md_Digest :: bytes
  md_Size :: int
  md_ModifiedAt :: bytes
  md_Family :: bytes
  md_ParameterSize :: bytes
  md_Quantization :: bytes

text \<open>\<open>omitempty\<close> has no effect on a \<open>time.Time\<close>: the field is always written.\<close>

definition Model_json :: "Model \<Rightarrow> json" where
  "Model_json m =
     JObj ([(''name'', JStr (md_Name m))]
       @ str_field ''digest'' (md_Digest m)
       @ int_field ''size'' (md_Size m)
       @ [(''modified_at'', JStr (md_ModifiedAt m))]
       @ str_field ''family'' (md_Family m)
       @ str_field ''parameter_size'' (md_ParameterSize m)
       @ str_field ''quantization'' (md_Quantization m))"

record ModelsResponse =
  ms_Models :: "Model list"
  ms_Default :: bytes

definition ModelsResponse_json :: "ModelsResponse \<Rightarrow> json" where
  "ModelsResponse_json r =
     JObj ([(''models'', JArr (map Model_json (ms_Models r)))]
       @ str_field ''default'' (ms_Default r))"

record Tool =
  tl_Name :: bytes
  tl_Description :: bytes
  tl_Server :: bytes

definition Tool_json :: "Tool \<Rightarrow> json" where
  "Tool_json t =
     JObj ([(''name'', JStr (tl_Name t))]
       @ str_field ''description'' (tl_Description t)
       @ str_field ''server'' (tl_Server t))"

record ToolsResponse =
  ts_Tools :: "Tool list"
  ts_DiscoveryDeferred :: bool

definition ToolsResponse_json :: "ToolsResponse \<Rightarrow> json" where
  "ToolsResponse_json r =
     JObj ([(''tools'', JArr (map Tool_json (ts_Tools r)))]
       @ bool_field ''discovery_deferred'' (ts_DiscoveryDeferred r))"

end
