(* ===== verification/AuditLog.thy ===== *)
theory AuditLog
  imports ApiV1
begin

text \<open>
  \<open>internal/audit/audit.go\<close>: the structured audit log. A logger owns the bytes it has written
  to its sink; a write may fail part way. The clock's reading, as its RFC 3339 text, is an
  argument of \<open>Log\<close>, and SHA-256 is a parameter of \<open>CallerIdentity\<close>.
\<close>

record AuditToolCall =
  at_Name :: bytes
  at_DurationMS :: int

text \<open>\<open>ev_Timestamp\<close> is \<open>None\<close> for the zero \<open>time.Time\<close>.\<close>

record Event =
  ev_Timestamp :: "bytes option"
  ev_RequestID :: bytes
  ev_CallerIdentity :: bytes
  ev_Model :: bytes
  ev_PromptTokens :: int
  ev_CompletionTokens :: int
  ev_ToolCalls :: "AuditToolCall list"
  ev_LatencyMS :: int
  ev_Status :: int
  ev_Outcome :: bytes
  ev_Query :: bytes
  ev_Answer :: bytes

definition AuditToolCall_json :: "AuditToolCall \<Rightarrow> json" where
  "AuditToolCall_json t =
     JObj [(''name'', JStr (at_Name t)), (''duration_ms'', JInt (at_DurationMS t))]"

definition zero_time :: bytes where
  "zero_time = ''0001-01-01T00:00:00Z''"

definition Event_json :: "Event \<Rightarrow> json" where
  "Event_json e =
     JObj ([(''timestamp'', JStr (case ev_Timestamp e of None \<Rightarrow> zero_time | Some t \<Rightarrow> t)),
            (''request_id'', JStr (ev_RequestID e)),
            (''caller_identity'', JStr (ev_CallerIdentity e)),
            (''model'', JStr (ev_Model e)),
            (''prompt_tokens'', JInt (ev_PromptTokens e)),
            (''completion_tokens'', JInt (ev_CompletionTokens e))]
       @ list_field ''tool_calls'' (map AuditToolCall_json (ev_ToolCalls e))
       @ [(''latency_ms'', JInt (ev_LatencyMS e)),
          (''status'', JInt (ev_Status e)),
          (''outcome'', JStr (ev_Outcome e))]
       @ str_field ''query'' (ev_Query e)
       @ str_field ''answer'' (ev_Answer e))"

text \<open>
  \<open>lg_fault n\<close> says how the \<open>n\<close>-th write to the sink goes: \<open>None\<close> for well, \<open>Some (k, e)\<close> for the
  error \<open>e\<close> after \<open>k\<close> bytes.
\<close>

record Logger =
  lg_out :: bytes
  lg_logQuery :: bool
  lg_writes :: nat
  lg_fault :: "nat \<Rightarrow> (nat \<times> bytes) option"

definition NewLogger :: "(nat \<Rightarrow> (nat \<times> bytes) option) \<Rightarrow> bool \<Rightarrow> Logger" where
  "NewLogger fault logQuery =
     \<lparr>lg_out = [], lg_logQuery = logQuery, lg_writes = 0, lg_fault = fault\<rparr>"

definition LogQueryEnabled :: "Logger \<Rightarrow> bool" where
  "LogQueryEnabled l = lg_logQuery l"

definition callerIdentityPrefixHex :: nat where
  "callerIdentityPrefixHex = 16"

definition CallerIdentity :: "(bytes \<Rightarrow> bytes) \<Rightarrow> bytes \<Rightarrow> bytes" where
  "CallerIdentity sha256 token =
     (if token = [] then ''anonymous''
      else let enc = hex_encode (sha256 token) in
           if callerIdentityPrefixHex < length enc then take callerIdentityPrefixHex enc else enc)"

text \<open>The event as it is written, and the line.\<close>

definition logged_event :: "bytes \<Rightarrow> bool \<Rightarrow> Event \<Rightarrow> Event" where
  "logged_event now logQuery e0 =
     (let e1 = (if ev_Timestamp e0 = None then e0\<lparr>ev_Timestamp := Some now\<rparr> else e0)
      in if \<not> logQuery then e1\<lparr>ev_Query := [], ev_Answer := []\<rparr> else e1)"

definition event_line :: "bytes \<Rightarrow> bool \<Rightarrow> Event \<Rightarrow> bytes" where
  "event_line now logQuery e = encode (Event_json (logged_event now logQuery e)) @ [CHR 0x0A]"

text \<open>
  \<open>Log\<close>, with the text of its error or \<open>None\<close> for nil. An event is made of strings and integers
  and the time of a clock, so \<open>json.Marshal\<close> does not fail on it.
\<close>

definition Log :: "bytes \<Rightarrow> Event \<Rightarrow> Logger \<Rightarrow> bytes option \<times> Logger" where
  "Log now e l =
     (let buf = event_line now (lg_logQuery l) e; n = lg_writes l in
      case lg_fault l n of
        None \<Rightarrow> (None, l\<lparr>lg_out := lg_out l @ buf, lg_writes := Suc n\<rparr>)
      | Some (k, e') \<Rightarrow>
          (Some (''audit: write event: '' @ e'),
           l\<lparr>lg_out := lg_out l @ take k buf, lg_writes := Suc n\<rparr>))"

subsection \<open>Reading the log back by lines\<close>

text \<open>A sequence of calls, each with its own clock reading, on a sink that does not fail.\<close>

fun Log_all :: "(bytes \<times> Event) list \<Rightarrow> Logger \<Rightarrow> Logger" where
  "Log_all [] l = l"
| "Log_all ((now, e) # es) l = Log_all es (snd (Log now e l))"

lemma Log_simps:
  "lg_logQuery (snd (Log now e l)) = lg_logQuery l"
  "lg_fault (snd (Log now e l)) = lg_fault l"
  "lg_writes (snd (Log now e l)) = Suc (lg_writes l)"
  "fst (Log now e l) = None \<longleftrightarrow> lg_fault l (lg_writes l) = None"
  "lg_fault l (lg_writes l) = None \<Longrightarrow>
     lg_out (snd (Log now e l)) = lg_out l @ event_line now (lg_logQuery l) e"
  by (simp_all add: Log_def Let_def split: option.split)

lemma Log_all_out:
  "(\<And>n. lg_fault l n = None) \<Longrightarrow>
   lg_out (Log_all es l) =
     lg_out l @ concat (map (\<lambda>(now, e). event_line now (lg_logQuery l) e) es)"
  by (induction es arbitrary: l) (auto simp: Log_simps)

lemma split_event_lines:
  "split_lines (concat (map (\<lambda>(now, e). event_line now q e) es)) =
     map (\<lambda>(now, e). encode (Event_json (logged_event now q e))) es"
proof (induction es)
  case (Cons ne es)
  obtain now e where "ne = (now, e)" by force
  with Cons show ?case
    by (simp add: event_line_def split_lines_line encode_no_newline)
qed simp

lemma logged_event_hides:
  "logged_event now False (e\<lparr>ev_Query := q, ev_Answer := a\<rparr>) = logged_event now False e"
  by (cases e) (simp add: logged_event_def)

lemma logged_event_keeps:
  "ev_Outcome (logged_event now q e) = ev_Outcome e"
  "ev_Status (logged_event now q e) = ev_Status e"
  "ev_RequestID (logged_event now q e) = ev_RequestID e"
  by (simp_all add: logged_event_def Let_def)

definition sample_event :: Event where
  "sample_event =
     \<lparr>ev_Timestamp = None, ev_RequestID = ''r1'', ev_CallerIdentity = ''anonymous'',
      ev_Model = ''m'', ev_PromptTokens = 3, ev_CompletionTokens = 4, ev_ToolCalls = [],
      ev_LatencyMS = 12, ev_Status = 200, ev_Outcome = ''ok'', ev_Query = ''a'' @ [CHR 0x0A] @ ''b'',
      ev_Answer = ''c''\<rparr>"

text \<open>The audit log is one JSON object per line: reading a log back by lines gives exactly the
  encoded events, in order, whatever bytes the queries, answers and tool names hold.\<close>

theorem audit_lines_are_events:
  assumes "\<And>n. fault n = None"
  shows "split_lines (lg_out (Log_all es (NewLogger fault q))) =
    map (\<lambda>(now, e). encode (Event_json (logged_event now q e))) es"
  using assms by (simp add: Log_all_out NewLogger_def split_event_lines)

theorem audit_lines_are_events_witness:
  "length (split_lines
     (lg_out (Log_all [(''t1'', sample_event), (''t2'', sample_event)] (NewLogger (\<lambda>_. None) True)))) = 2"
  by (subst audit_lines_are_events) simp_all

text \<open>C22: without the opt-in flag, neither the query nor the answer has any influence on what is
  written: two events that differ only there leave the same log, in the same state.\<close>

theorem audit_hides_query_and_answer:
  assumes "\<not> lg_logQuery l"
  shows "Log now (e\<lparr>ev_Query := q, ev_Answer := a\<rparr>) l = Log now e l"
  using assms by (simp add: Log_def event_line_def logged_event_hides)

theorem audit_hides_query_and_answer_witness:
  "Log ''t'' (sample_event\<lparr>ev_Query := ''secret'', ev_Answer := ''x''\<rparr>) (NewLogger (\<lambda>_. None) False)
   = Log ''t'' sample_event (NewLogger (\<lambda>_. None) False)"
  by (rule audit_hides_query_and_answer) (simp add: NewLogger_def)

text \<open>A caller identity is either the word for no token or 16 lower-case hex digits, and then
  it is the start of the digest's text: nothing of the token but its digest enters it.\<close>

theorem caller_identity_shape:
  assumes "\<And>t. length (sha256 t) = 32"
  shows "CallerIdentity sha256 [] = ''anonymous'' \<and>
    (token \<noteq> [] \<longrightarrow>
      length (CallerIdentity sha256 token) = 16 \<and>
      list_all is_lower_hex (CallerIdentity sha256 token) \<and>
      CallerIdentity sha256 token = take 16 (hex_encode (sha256 token)))"
  using assms
  by (simp add: CallerIdentity_def Let_def callerIdentityPrefixHex_def list_all_take hex_encode_hex)

theorem caller_identity_shape_witness:
  "length (CallerIdentity (\<lambda>t. replicate 32 (CHR 0xAB)) ''s3cret'') = 16 \<and>
   CallerIdentity (\<lambda>t. replicate 32 (CHR 0xAB)) ''s3cret'' \<noteq> ''anonymous''"
  using caller_identity_shape [of "\<lambda>t. replicate 32 (CHR 0xAB)" "''s3cret''"] by auto

end
