(* ===== verification/JsonRoundTrip.thy ===== *)
theory JsonRoundTrip
  imports JsonStruct
begin

text \<open>
  The scanner reads back what the encoder wrote: for every value without floats whose strings
  are valid UTF-8, \<open>scan\<close> of the text is the value, whatever its strings hold. This is the fact
  behind every round trip of the gateway's own documents. The other direction of trust is
  \<open>scan_valid\<close>: every string that the scanner delivers is valid UTF-8.
\<close>

subsection \<open>Strings\<close>

lemma lead_info_lo: "lead_info a = (w, lo, hi) \<Longrightarrow> 1 < w \<Longrightarrow> 0x80 \<le> lo"
  by (auto simp: lead_info_def split: if_splits)

lemma tail_ok_high:
  assumes "tail_ok lo hi n s" and "0x80 \<le> lo" and "x \<in> set (take n s)"
  shows "0x80 \<le> byte x"
  using assms by (cases s; cases n) (auto simp: in_range_def list_all_iff)

lemma sequence_high:
  assumes "0x80 \<le> byte c" and "x \<in> set (take (utf8_width (c # s)) (c # s))"
  shows "0x80 \<le> byte x"
proof -
  obtain w lo hi where i: "lead_info c = (w, lo, hi)" using prod_cases3 by blast
  show ?thesis
  proof (cases "1 < w")
    case True
    show ?thesis
    proof (cases "tail_ok lo hi (w - 1) s")
      case t: True
      then have "utf8_width (c # s) = Suc (w - 1)" using True i by (simp add: utf8_width.simps)
      then show ?thesis
        using assms tail_ok_high [OF t lead_info_lo [OF i True]] by (auto simp: take_Cons')
    next
      case False
      then show ?thesis using assms(2) i True by (simp add: utf8_width.simps)
    qed
  next
    case False
    then have "utf8_width (c # s) \<le> 1" using i by (simp add: utf8_width.simps)
    then show ?thesis using assms by (auto simp: take_Cons' split: if_splits)
  qed
qed

lemma scan_string_high:
  "\<forall>x \<in> set xs. 0x80 \<le> byte x \<Longrightarrow> scan_string acc (xs @ t) = scan_string (acc @ xs) t"
proof (induction xs arbitrary: acc)
  case (Cons x xs)
  then have "x \<noteq> quote_char" "x \<noteq> backslash" "\<not> byte x < 0x20"
    by (auto simp: quote_char_def backslash_def)
  with Cons show ?case by simp
qed simp

lemma scan_string_hex_escape:
  assumes "byte c < 0x80"
  shows "scan_string acc (hex_escape c @ t) = scan_string (acc @ hex_escape c) t"
proof -
  have "hex_value (CHR ''0'') \<noteq> None" by (simp add: hex_value_zero)
  moreover have "hex_value (hex_digit (byte c div 16)) \<noteq> None" and
    "hex_value (hex_digit (byte c mod 16)) \<noteq> None"
    using assms by (simp_all add: hex_value_digit less_mult_imp_div_less)
  ultimately show ?thesis
    by (simp add: hex_escape_def hex_byte_def all_hex_def backslash_def quote_char_def)
qed

lemma scan_string_escape_ascii:
  assumes "byte c < 0x80"
  shows "scan_string acc (escape_ascii c @ t) = scan_string (acc @ escape_ascii c) t"
proof -
  have plain: "scan_string acc ([c] @ t) = scan_string (acc @ [c]) t"
    if "c \<noteq> quote_char" "c \<noteq> backslash" "\<not> byte c < 0x20"
    using that by simp
  have two: "scan_string acc ([backslash, e] @ t) = scan_string (acc @ [backslash, e]) t"
    if "e \<in> set [CHR ''b'', CHR ''f'', CHR ''n'', CHR ''r'', CHR ''t'', backslash, CHR ''/'', quote_char]"
    for e
    using that by (simp add: backslash_def quote_char_def)
  show ?thesis
    unfolding escape_ascii_def
    using plain scan_string_hex_escape [OF assms] two
    by (simp del: scan_string.simps append.simps)
qed

lemma all_hex_words: "all_hex ''fffd''" "all_hex ''2028''" "all_hex ''2029''"
  by (simp_all add: all_hex_def hex_value_def in_range_def)

lemma scan_string_u:
  assumes "all_hex h" and "length h = 4"
  shows "scan_string acc (backslash # CHR ''u'' # h @ t) = scan_string (acc @ backslash # CHR ''u'' # h) t"
  using assms by (simp add: backslash_def quote_char_def)

lemma scan_string_escape:
  "scan_string acc (json_escape s @ t) = scan_string (acc @ json_escape s) t"
proof (induction s arbitrary: acc rule: json_escape.induct)
  case (2 c s)
  let ?w = "utf8_width (c # s)"
  consider "byte c < 0x80" | "0x80 \<le> byte c" "?w = 0"
    | b where "0x80 \<le> byte c" "?w \<noteq> 0"
      "take 3 (c # s) = [CHR 0xE2, CHR 0x80, b]" "b = CHR 0xA8 \<or> b = CHR 0xA9"
    | "0x80 \<le> byte c" "?w \<noteq> 0"
      "take 3 (c # s) \<notin> {[CHR 0xE2, CHR 0x80, CHR 0xA8], [CHR 0xE2, CHR 0x80, CHR 0xA9]}"
    by fastforce
  then show ?case
  proof cases
    case 1
    then show ?thesis
      using "2.IH"(1) by (simp add: scan_string_escape_ascii del: scan_string.simps)
  next
    case 2
    then show ?thesis
      using "2.IH"(2) scan_string_u [OF all_hex_words(1)] by (simp del: scan_string.simps)
  next
    case (3 b)
    then show ?thesis
      using "2.IH"(3,4) scan_string_u [OF all_hex_words(2)] scan_string_u [OF all_hex_words(3)]
      by (elim disjE) (simp_all del: scan_string.simps)
  next
    case 4
    then have e: "json_escape (c # s) = take ?w (c # s) @ json_escape (drop ?w (c # s))"
      by (auto simp del: take_Suc_Cons)
    have "\<forall>x \<in> set (take ?w (c # s)). 0x80 \<le> byte x" using sequence_high 4(1) by blast
    moreover have "scan_string acc' (json_escape (drop ?w (c # s)) @ t) =
        scan_string (acc' @ json_escape (drop ?w (c # s))) t" for acc'
      using 4 by (intro "2.IH"(5)) auto
    ultimately show ?thesis
      unfolding e append_assoc by (simp add: scan_string_high del: scan_string.simps)
  qed
qed simp

lemma scan_string_json: "scan_string [] (json_escape s @ quote_char # t) = Complete (json_escape s) t"
  by (subst scan_string_escape) simp

subsection \<open>Numbers\<close>

text \<open>What may follow a number: nothing that continues it.\<close>

definition ends_number :: "bytes \<Rightarrow> bool" where
  "ends_number t \<longleftrightarrow>
     (case t of
        [] \<Rightarrow> True
      | c # _ \<Rightarrow> \<not> is_digit c \<and> c \<noteq> CHR ''.'' \<and> c \<noteq> CHR ''e'' \<and> c \<noteq> CHR ''E'')"

lemma scan_frac_done: "ends_number t \<Longrightarrow> scan_frac acc t = Complete acc t"
  by (cases t) (simp_all add: ends_number_def scan_frac_def scan_exp_def)

lemma digits_of_dec_nat: "\<forall>c \<in> set (dec_nat n). is_digit c"
  using dec_nat_digits by (auto simp: is_digit_def in_range_def)

lemma take_digits:
  assumes "\<forall>c \<in> set ds. is_digit c" and "ends_number t"
  shows "takeWhile is_digit (ds @ t) = ds" and "dropWhile is_digit (ds @ t) = t"
proof -
  have "takeWhile is_digit t = []" "dropWhile is_digit t = t"
    using assms(2) by (auto simp: ends_number_def split: list.splits)
  then show "takeWhile is_digit (ds @ t) = ds" "dropWhile is_digit (ds @ t) = t"
    using assms(1) by (simp_all add: takeWhile_append2 dropWhile_append2)
qed

text \<open>A decimal starts with 0 only if it is 0.\<close>

lemma dec_nat_lead:
  obtains (zero) "dec_nat n = ''0''" | (pos) d ds where "dec_nat n = d # ds" and "d \<noteq> CHR ''0''"
    and "is_digit d"
proof (cases "n = 0")
  case True
  then have "dec_nat n = ''0''" by (simp add: dec_nat.simps digit_char_def char_of_def bit_simps)
  then show ?thesis by (rule zero)
next
  case False
  have "\<exists>d ds. dec_nat n = d # ds \<and> d \<noteq> CHR ''0''"
    using False
  proof (induction n rule: dec_nat.induct)
    case (1 n)
    show ?case
    proof (cases "n < 10")
      case True
      have "byte (digit_char n) = 48 + n" using True by simp
      moreover have "byte (CHR ''0'') = 48" by simp
      ultimately have "digit_char n \<noteq> CHR ''0''" using 1(2) by (metis add_cancel_right_right)
      with True show ?thesis by (simp add: dec_nat.simps [of n])
    next
      case big: False
      then have "n div 10 \<noteq> 0" by simp
      from 1(1) [OF big this] big show ?thesis by (auto simp: dec_nat.simps [of n])
    qed
  qed
  then obtain d ds where d: "dec_nat n = d # ds" "d \<noteq> CHR ''0''" by blast
  then have "is_digit d" using digits_of_dec_nat [of n] by simp
  with d show ?thesis by (rule pos)
qed

lemma scan_number_unsigned:
  assumes "ends_number t"
  shows "scan_number (dec_nat n @ t) = Complete (dec_nat n) t"
proof (cases n rule: dec_nat_lead)
  case zero
  then show ?thesis using scan_frac_done [OF assms] by (simp add: scan_number_def)
next
  case (pos d ds)
  have "d \<noteq> CHR ''-''" using pos(3) by (auto simp: is_digit_def in_range_def)
  moreover have "takeWhile is_digit ((d # ds) @ t) = d # ds" "dropWhile is_digit ((d # ds) @ t) = t"
    using take_digits [OF digits_of_dec_nat [of n] assms] unfolding pos(1) by simp_all
  ultimately show ?thesis
    using pos scan_frac_done [OF assms] by (simp add: scan_number_def Let_def)
qed

lemma scan_number_negative:
  assumes "ends_number t"
  shows "scan_number (CHR ''-'' # dec_nat n @ t) = Complete (CHR ''-'' # dec_nat n) t"
proof (cases n rule: dec_nat_lead)
  case zero
  then show ?thesis using scan_frac_done [OF assms] by (simp add: scan_number_def)
next
  case (pos d ds)
  have "takeWhile is_digit ((d # ds) @ t) = d # ds" "dropWhile is_digit ((d # ds) @ t) = t"
    using take_digits [OF digits_of_dec_nat [of n] assms] unfolding pos(1) by simp_all
  then show ?thesis
    using pos scan_frac_done [OF assms] by (simp add: scan_number_def Let_def)
qed

lemma scan_number_dec: "ends_number t \<Longrightarrow> scan_number (dec_int n @ t) = Complete (dec_int n) t"
  by (simp add: dec_int_def scan_number_unsigned scan_number_negative)

subsection \<open>Values\<close>

fun jval_of :: "json \<Rightarrow> jval" where
  "jval_of JNull = VNull"
| "jval_of (JBool b) = VBool b"
| "jval_of (JInt n) = VNum (dec_int n)"
| "jval_of (JFloat f) = VNum (float_text f)"
| "jval_of (JStr s) = VStr s"
| "jval_of (JArr xs) = VArr (map jval_of xs)"
| "jval_of (JObj kvs) = VObj (map (\<lambda>kv. (fst kv, jval_of (snd kv))) kvs)"

text \<open>No floats, all strings valid, and nested at most \<open>d\<close> deep.\<close>

fun plain :: "nat \<Rightarrow> json \<Rightarrow> bool" where
  "plain d (JFloat _) = False"
| "plain d (JStr s) = valid_utf8 s"
| "plain d (JArr xs) = (0 < d \<and> (\<forall>x \<in> set xs. plain (d - 1) x))"
| "plain d (JObj kvs) =
     (0 < d \<and> (\<forall>kv \<in> set kvs. valid_utf8 (fst kv) \<and> plain (d - 1) (snd kv)))"
| "plain d _ = True"

lemma dec_int_head:
  obtains c r where "dec_int n = c # r" and "c = CHR ''-'' \<or> is_digit c"
proof (cases "dec_int n")
  case Nil
  then show ?thesis by (simp add: dec_int_def split: if_splits)
next
  case (Cons c r)
  then have "c \<in> set (dec_int n)" by simp
  from dec_int_chars [OF this] Cons that show ?thesis by (auto simp: is_digit_def in_range_def)
qed

lemma digit_or_minus:
  "c = CHR ''-'' \<or> is_digit c \<Longrightarrow> \<not> is_ws c" "c = CHR ''-'' \<or> is_digit c \<Longrightarrow> c \<noteq> CHR '']''"
  by (auto simp: is_ws_def is_digit_def in_range_def)

text \<open>A value starts with a byte that is neither white space nor a closing bracket.\<close>

lemma encode_head:
  assumes "plain d j"
  obtains c r where "encode j = c # r" and "\<not> is_ws c" and "c \<noteq> CHR '']''"
proof (cases j)
  case (JInt n)
  obtain c r where "dec_int n = c # r" "c = CHR ''-'' \<or> is_digit c" by (rule dec_int_head)
  then show ?thesis
    using that [of c r] JInt digit_or_minus by simp
next
  case (JBool b)
  then show ?thesis using that by (cases b) (simp_all add: is_ws_def)
qed (use assms that in \<open>simp_all add: is_ws_def json_string_def quote_char_def\<close>)

lemma skip_ws_head: "\<not> is_ws c \<Longrightarrow> skip_ws (c # r) = c # r"
  by (simp add: skip_ws_def)

lemma scan_word_done: "scan_word w (w @ t) = Complete () t"
  by (induction w) simp_all

lemma scan_atom_number:
  assumes "c = CHR ''-'' \<or> is_digit c"
  shows "scan_atom c r = map_scan VNum (scan_number (c # r))"
  using assms by (auto simp: scan_atom_def quote_char_def is_digit_def in_range_def)

lemma scan_value_atom:
  assumes "\<not> is_ws c" and "c \<noteq> CHR 0x7B" and "c \<noteq> CHR ''[''"
  shows "scan_value (Suc n) d (c # r) = scan_atom c r"
  using assms by (simp add: skip_ws_head)

definition member_text :: "bytes \<times> json \<Rightarrow> bytes" where
  "member_text kv = json_string (fst kv) @ CHR '':'' # encode (snd kv)"

lemma encode_JObj:
  "encode (JObj kvs) = CHR 0x7B # comma_join (map member_text kvs) @ [CHR 0x7D]"
  by (simp add: member_text_def [abs_def])

declare encode.simps(7) [simp del]

lemma ends_number_intros [simp]:
  "ends_number (CHR '','' # t)" "ends_number (CHR '']'' # t)" "ends_number (CHR 0x7D # t)"
  "ends_number []"
  by (simp_all add: ends_number_def is_digit_def in_range_def)

text \<open>The statement for one value, with fuel for its text.\<close>

definition reads_back :: "json \<Rightarrow> bool" where
  "reads_back j \<longleftrightarrow>
     (\<forall>n d t. plain d j \<and> length (encode j) \<le> n \<and> ends_number t \<longrightarrow>
        scan_value n d (encode j @ t) = Complete (jval_of j) t)"

lemma reads_backD:
  "reads_back j \<Longrightarrow> plain d j \<Longrightarrow> length (encode j) \<le> n \<Longrightarrow> ends_number t \<Longrightarrow>
   scan_value n d (encode j @ t) = Complete (jval_of j) t"
  by (simp add: reads_back_def)

lemma scan_elements_back:
  assumes "\<forall>x \<in> set xs. reads_back x \<and> plain d x" and "xs \<noteq> []"
    and "length (comma_join (map encode xs)) < n"
  shows "scan_elements n d acc (comma_join (map encode xs) @ CHR '']'' # t) =
    Complete (VArr (acc @ map jval_of xs)) t"
  using assms
proof (induction xs arbitrary: n acc)
  case (Cons x xs)
  obtain m where n: "n = Suc m" using Cons.prems(3) by (cases n) simp_all
  show ?case
  proof (cases xs)
    case Nil
    then show ?thesis
      using Cons.prems n reads_backD [of x d m "CHR '']'' # t"]
      by (simp add: skip_ws_head is_ws_def)
  next
    case (Cons y ys)
    have "length (encode x) \<le> m" and "length (comma_join (map encode xs)) < m"
      using Cons.prems(3) n Cons by simp_all
    then show ?thesis
      using Cons.prems n Cons Cons.IH [of m "acc @ [jval_of x]"]
        reads_backD [of x d m "CHR '','' # comma_join (map encode xs) @ CHR '']'' # t"]
      by (simp add: skip_ws_head is_ws_def)
  qed
qed simp

lemma json_string_append: "json_string s @ t = quote_char # json_escape s @ quote_char # t"
  by (simp add: json_string_def)

lemma quote_not_ws: "\<not> is_ws quote_char"
  by (simp add: is_ws_def quote_char_def)

lemma unquote_escape: "valid_utf8 s \<Longrightarrow> unquote (json_escape s) = s"
  using unquote_json_escape [of s "[]"] by simp

lemma scan_members_one:
  assumes "valid_utf8 k" and "reads_back v" and "plain d v" and "length (encode v) \<le> m"
    and "ends_number t"
  shows "scan_members (Suc m) d acc (member_text (k, v) @ t) =
    (case skip_ws t of
       [] \<Rightarrow> Truncated
     | f # r4 \<Rightarrow>
         if f = CHR '','' then scan_members m d (acc @ [(k, jval_of v)]) r4
         else if f = CHR 0x7D then Complete (VObj (acc @ [(k, jval_of v)])) r4
         else Malformed)"
proof -
  have "skip_ws (CHR '':'' # encode v @ t) = CHR '':'' # encode v @ t"
    by (simp add: skip_ws_head is_ws_def)
  then show ?thesis
    using reads_backD [OF assms(2-5)]
    by (simp add: member_text_def json_string_append skip_ws_head quote_not_ws scan_string_json
        unquote_escape [OF assms(1)] cong: list.case_cong if_cong)
qed

lemma scan_members_back:
  assumes "\<forall>kv \<in> set kvs. valid_utf8 (fst kv) \<and> reads_back (snd kv) \<and> plain d (snd kv)"
    and "kvs \<noteq> []" and "length (comma_join (map member_text kvs)) < n"
  shows "scan_members n d acc (comma_join (map member_text kvs) @ CHR 0x7D # t) =
    Complete (VObj (acc @ map (\<lambda>kv. (fst kv, jval_of (snd kv))) kvs)) t"
  using assms
proof (induction kvs arbitrary: n acc)
  case (Cons kv kvs)
  obtain m where n: "n = Suc m" using Cons.prems(3) by (cases n) simp_all
  obtain k v where kv: "kv = (k, v)" by force
  have len: "length (encode v) \<le> length (member_text kv)" by (simp add: member_text_def kv)
  show ?case
  proof (cases kvs)
    case Nil
    then show ?thesis
      using Cons.prems n kv len scan_members_one [of k v d m "CHR 0x7D # t" acc]
      by (simp add: skip_ws_head is_ws_def)
  next
    case (Cons kv' kvs')
    have "length (comma_join (map member_text kvs)) < m" "length (encode v) \<le> m"
      using Cons.prems(3) n Cons len by simp_all
    then show ?thesis
      using Cons.prems n Cons kv Cons.IH [of m "acc @ [(k, jval_of v)]"]
        scan_members_one [of k v d m
          "CHR '','' # comma_join (map member_text kvs) @ CHR 0x7D # t" acc]
      by (simp add: skip_ws_head is_ws_def)
  qed
qed simp

lemma reads_back_atom:
  assumes "\<And>d t. plain d j \<Longrightarrow> ends_number t \<Longrightarrow>
      \<exists>c r. encode j @ t = c # r \<and> \<not> is_ws c \<and> c \<noteq> CHR 0x7B \<and> c \<noteq> CHR ''['' \<and>
        scan_atom c r = Complete (jval_of j) t"
    and "encode j \<noteq> []"
  shows "reads_back j"
  unfolding reads_back_def
proof (intro allI impI, elim conjE)
  fix n d t
  assume "plain d j" "length (encode j) \<le> n" "ends_number t"
  moreover from this assms(2) obtain m where "n = Suc m" by (cases n) auto
  ultimately show "scan_value n d (encode j @ t) = Complete (jval_of j) t"
    using assms(1) [of d t] scan_value_atom by (auto simp del: scan_value.simps)
qed

lemma quote_distinct [simp]:
  "quote_char \<noteq> CHR 0x7B" "quote_char \<noteq> CHR ''[''" "quote_char \<noteq> CHR 0x7D"
  by (simp_all add: quote_char_def)

lemma reads_back_string: "reads_back (JStr s)"
  by (rule reads_back_atom)
    (simp_all add: json_string_append json_string_def [of s] quote_not_ws scan_atom_def
      scan_string_json unquote_escape)

lemma reads_back_int: "reads_back (JInt k)"
proof (rule reads_back_atom)
  fix d t assume t: "ends_number t"
  obtain c r where c: "dec_int k = c # r" "c = CHR ''-'' \<or> is_digit c" by (rule dec_int_head)
  have "scan_number (c # r @ t) = Complete (c # r) t" using scan_number_dec [OF t, of k] c by simp
  moreover have "c \<noteq> CHR 0x7B" "c \<noteq> CHR ''[''"
    using c(2) by (auto simp: is_digit_def in_range_def)
  ultimately show "\<exists>c r. encode (JInt k) @ t = c # r \<and> \<not> is_ws c \<and> c \<noteq> CHR 0x7B \<and> c \<noteq> CHR ''['' \<and>
      scan_atom c r = Complete (jval_of (JInt k)) t"
    using c digit_or_minus(1) [OF c(2)] scan_atom_number [OF c(2), of "r @ t"] by simp
next
  show "encode (JInt k) \<noteq> []" by (simp add: dec_int_def)
qed

lemma reads_back_words: "reads_back JNull" "reads_back (JBool b)"
proof -
  show "reads_back JNull"
    by (rule reads_back_atom)
      (simp_all add: is_ws_def scan_atom_def quote_char_def is_digit_def in_range_def)
  show "reads_back (JBool b)"
    by (rule reads_back_atom; cases b)
      (simp_all add: is_ws_def scan_atom_def quote_char_def is_digit_def in_range_def)
qed

lemma comma_join_head:
  "xs \<noteq> [] \<Longrightarrow> hd xs \<noteq> [] \<Longrightarrow> \<exists>r. comma_join xs = hd (hd xs) # r"
  by (cases xs rule: comma_join.cases; cases "hd xs") auto

lemma reads_back_array:
  assumes "\<And>x. x \<in> set xs \<Longrightarrow> reads_back x"
  shows "reads_back (JArr xs)"
  unfolding reads_back_def
proof (intro allI impI, elim conjE)
  fix n d t
  assume p: "plain d (JArr xs)" and len: "length (encode (JArr xs)) \<le> n"
  then obtain m where n: "n = Suc m" by (cases n) auto
  have open_ws: "\<not> is_ws (CHR ''['')" by (simp add: is_ws_def)
  show "scan_value n d (encode (JArr xs) @ t) = Complete (jval_of (JArr xs)) t"
  proof (cases xs)
    case Nil
    then show ?thesis using p n by (simp add: skip_ws_head is_ws_def)
  next
    case (Cons x xs')
    then have "plain (d - 1) x" using p by simp
    then obtain c r where c: "encode x = c # r" "\<not> is_ws c" "c \<noteq> CHR '']''" by (rule encode_head)
    obtain r' where j: "comma_join (map encode xs) = c # r'"
      using comma_join_head [of "map encode xs"] c(1) Cons by auto
    have "length (comma_join (map encode xs)) < m" using len n by simp
    then have "scan_elements m (d - 1) [] (comma_join (map encode xs) @ CHR '']'' # t) =
        Complete (VArr ([] @ map jval_of xs)) t"
      using p assms Cons by (intro scan_elements_back) auto
    then show ?thesis using p n c j by (simp add: skip_ws_head open_ws)
  qed
qed

lemma reads_back_object:
  assumes "\<And>kv. kv \<in> set kvs \<Longrightarrow> reads_back (snd kv)"
  shows "reads_back (JObj kvs)"
  unfolding reads_back_def
proof (intro allI impI, elim conjE)
  fix n d t
  assume p: "plain d (JObj kvs)" and len: "length (encode (JObj kvs)) \<le> n"
  then obtain m where n: "n = Suc m" by (cases n) (auto simp: encode_JObj)
  have open_ws: "\<not> is_ws (CHR 0x7B)" by (simp add: is_ws_def)
  show "scan_value n d (encode (JObj kvs) @ t) = Complete (jval_of (JObj kvs)) t"
  proof (cases kvs)
    case Nil
    then show ?thesis using p n by (simp add: encode_JObj skip_ws_head is_ws_def)
  next
    case (Cons kv kvs')
    have "member_text kv = quote_char # json_escape (fst kv) @ [quote_char] @ CHR '':'' # encode (snd kv)"
      by (simp add: member_text_def json_string_def)
    then obtain r' where j: "comma_join (map member_text kvs) = quote_char # r'"
      using comma_join_head [of "map member_text kvs"] Cons by auto
    have "length (comma_join (map member_text kvs)) < m" using len n by (simp add: encode_JObj)
    then have "scan_members m (d - 1) [] (comma_join (map member_text kvs) @ CHR 0x7D # t) =
        Complete (VObj ([] @ map (\<lambda>kv. (fst kv, jval_of (snd kv))) kvs)) t"
      using p assms Cons by (intro scan_members_back) auto
    then show ?thesis using p n j by (simp add: encode_JObj skip_ws_head open_ws quote_not_ws)
  qed
qed

lemma all_read_back: "plain d j \<Longrightarrow> reads_back j"
proof (induction j arbitrary: d)
  case (JArr xs)
  then show ?case by (intro reads_back_array) auto
next
  case (JObj kvs)
  then show ?case by (intro reads_back_object) (auto simp: snds.simps)
qed (simp_all add: reads_back_words reads_back_int reads_back_string)

lemma scan_encode:
  assumes "plain max_depth j" and "ends_number t"
  shows "scan (encode j @ t) = Complete (jval_of j) t"
  unfolding scan_def by (rule reads_backD [OF all_read_back [OF assms(1)] assms(1) _ assms(2)]) simp

subsection \<open>Every scanned string is valid\<close>

fun valid_strings :: "jval \<Rightarrow> bool" where
  "valid_strings (VStr s) = valid_utf8 s"
| "valid_strings (VArr vs) = (\<forall>v \<in> set vs. valid_strings v)"
| "valid_strings (VObj kvs) = (\<forall>kv \<in> set kvs. valid_utf8 (fst kv) \<and> valid_strings (snd kv))"
| "valid_strings _ = True"

lemma scan_atom_valid: "scan_atom c r = Complete v t \<Longrightarrow> valid_strings v"
  by (auto simp: scan_atom_def valid_utf8_unquote split: if_splits)

lemma scan_valid:
  "scan_value n d s = Complete v r \<Longrightarrow> valid_strings v"
  "scan_members n d acc s = Complete v r \<Longrightarrow> valid_strings (VObj acc) \<Longrightarrow> valid_strings v"
  "scan_elements n d vs s = Complete v r \<Longrightarrow> valid_strings (VArr vs) \<Longrightarrow> valid_strings v"
proof (induction n arbitrary: d s acc vs v r)
  case (Suc n)
  {
    case 1
    then show ?case
      by (auto dest: scan_atom_valid Suc.IH split: list.splits if_splits)
  next
    case 2
    from 2(1) show ?case
    proof (rule scan_membersE)
      fix r0 raw r1 r2 w r3 f r4
      assume *: "scan_value n d r2 = Complete w r3"
        "f = CHR '','' \<and> scan_members n d (acc @ [(unquote raw, w)]) r4 = Complete v r
         \<or> f = CHR 0x7D \<and> r4 = r \<and> v = VObj (acc @ [(unquote raw, w)])"
      have "valid_strings (VObj (acc @ [(unquote raw, w)]))"
        using 2(2) Suc.IH(1) [OF *(1)] by (auto simp: valid_utf8_unquote)
      then show "valid_strings v" using *(2) Suc.IH(2) by blast
    qed
  next
    case 3
    from 3(1) show ?case
    proof (rule scan_elementsE)
      fix w r3 f r4
      assume *: "scan_value n d s = Complete w r3"
        "f = CHR '','' \<and> scan_elements n d (vs @ [w]) r4 = Complete v r
         \<or> f = CHR '']'' \<and> r4 = r \<and> v = VArr (vs @ [w])"
      have "valid_strings (VArr (vs @ [w]))" using 3(2) Suc.IH(1) [OF *(1)] by auto
      then show "valid_strings v" using *(2) Suc.IH(3) by blast
    qed
  }
qed simp_all

lemma scan_valid_top: "scan s = Complete v r \<Longrightarrow> valid_strings v"
  unfolding scan_def by (rule scan_valid(1))

lemma decode_next_valid: "decode_next s over = Inr (v, r) \<Longrightarrow> valid_strings v"
  by (auto simp: decode_next_def dest: scan_valid_top split: scan.splits if_splits)

subsection \<open>What filling a struct keeps\<close>

text \<open>A property that the store of every field keeps, given valid strings, holds of the result.\<close>

lemma store_members_keeps:
  assumes "\<And>f v s. f \<in> snd ` set fs \<Longrightarrow> valid_strings v \<Longrightarrow> P s \<Longrightarrow> P (fst (f v s))"
    and "\<forall>kv \<in> set kvs. valid_strings (snd kv)" and "P s"
  shows "P (fst (store_members strict fs kvs s e))"
  using assms(2,3)
proof (induction kvs arbitrary: s e)
  case (Cons kv kvs)
  obtain k v where kv: "kv = (k, v)" by force
  show ?case
  proof (cases "find_field k fs")
    case None
    then show ?thesis using Cons by (simp add: kv)
  next
    case (Some f)
    then have "P (fst (f v s))"
      using assms(1) [OF find_field_in] Cons.prems by (simp add: kv)
    then show ?thesis using Some Cons by (simp add: kv split_beta)
  qed
qed simp

lemma store_struct_keeps:
  assumes "\<And>f v s. f \<in> snd ` set fs \<Longrightarrow> valid_strings v \<Longrightarrow> P s \<Longrightarrow> P (fst (f v s))"
    and "valid_strings v" and "P s"
  shows "P (fst (store_struct strict path fs v s))"
proof (cases v)
  case (VObj kvs)
  have "P (fst (store_members strict fs kvs s None))"
    by (rule store_members_keeps [where P = P]) (use assms VObj in auto)
  then show ?thesis by (simp add: store_struct_def VObj)
qed (simp_all add: store_struct_def assms(3))

end
