(* ===== verification/AuditTrail.thy ===== *)
theory AuditTrail
  imports AuditLog JsonRoundTrip
begin

text \<open>
  The audit log as its readers and its writers see it. Readers: every line of the log parses as
  JSON to the event it was written for. Writers: \<open>Log\<close> under concurrency, with the mutex of the
  logger around a write that the sink may carry out in pieces; every execution writes what the
  sequential logger writes for the events in the order in which they got the lock.
\<close>

subsection \<open>Reading the events back\<close>

definition event_valid :: "Event \<Rightarrow> bool" where
  "event_valid e \<longleftrightarrow>
     list_all valid_utf8
       ([ev_RequestID e, ev_CallerIdentity e, ev_Model e, ev_Outcome e, ev_Query e, ev_Answer e]
        @ map at_Name (ev_ToolCalls e))
     \<and> (\<forall>t. ev_Timestamp e = Some t \<longrightarrow> valid_utf8 t)"

lemma valid_zero_time: "valid_utf8 zero_time"
  by (simp add: zero_time_def valid_utf8_ascii)

lemma plain_AuditToolCall: "valid_utf8 (at_Name t) \<Longrightarrow> plain 9998 (AuditToolCall_json t)"
  by (simp add: AuditToolCall_json_def valid_utf8_ascii)

lemma plain_Event: "event_valid e \<Longrightarrow> plain max_depth (Event_json e)"
  using valid_zero_time plain_AuditToolCall
  by (auto simp: Event_json_def list_field_def str_field_def max_depth_def event_valid_def
      list_all_iff valid_utf8_ascii split: option.split)

lemma logged_event_valid: "event_valid e \<Longrightarrow> valid_utf8 now \<Longrightarrow> event_valid (logged_event now q e)"
  by (auto simp: event_valid_def logged_event_def Let_def)

lemma unmarshal_encode:
  assumes "plain max_depth j"
  shows "unmarshal_value (encode j) = Inr (jval_of j)"
proof -
  have "scan (encode j @ []) = Complete (jval_of j) []"
    by (rule scan_encode [OF assms]) simp
  then show ?thesis by (simp add: unmarshal_value_def skip_ws_def)
qed

text \<open>C20: the audit log is one JSON document per line, and no byte of a query, an answer or a tool
  name can forge, hide or alter an event: reading a log back by lines and parsing every line
  gives exactly the logged events, in order.\<close>

theorem audit_log_reads_back:
  assumes "\<And>n. fault n = None" and "\<And>now e. (now, e) \<in> set es \<Longrightarrow> valid_utf8 now \<and> event_valid e"
  shows "map unmarshal_value (split_lines (lg_out (Log_all es (NewLogger fault q)))) =
    map (\<lambda>(now, e). Inr (jval_of (Event_json (logged_event now q e)))) es"
proof -
  have "unmarshal_value (encode (Event_json (logged_event now q e))) =
      Inr (jval_of (Event_json (logged_event now q e)))" if "(now, e) \<in> set es" for now e
    using assms(2) [OF that] logged_event_valid plain_Event unmarshal_encode by blast
  then show ?thesis using audit_lines_are_events [OF assms(1), where es = es and q = q] by auto
qed

definition hostile_entry :: Event where
  "hostile_entry = sample_event
     \<lparr>ev_Query := ''x'' @ [quote_char, CHR 0x0A] @ ''{'' @ [quote_char] @ ''outcome''\<rparr>"

theorem audit_log_reads_back_witness:
  "map unmarshal_value (split_lines
     (lg_out (Log_all [(''t1'', hostile_entry), (''t2'', sample_event)] (NewLogger (\<lambda>_. None) True)))) =
   [Inr (jval_of (Event_json (hostile_entry\<lparr>ev_Timestamp := Some ''t1''\<rparr>))),
    Inr (jval_of (Event_json (sample_event\<lparr>ev_Timestamp := Some ''t2''\<rparr>)))]"
proof -
  have "event_valid sample_event" "event_valid hostile_entry" "valid_utf8 ''t1''" "valid_utf8 ''t2''"
    by (simp_all add: event_valid_def hostile_entry_def sample_event_def valid_utf8_ascii quote_char_def)
  then show ?thesis
    by (subst audit_log_reads_back)
      (auto simp: logged_event_def hostile_entry_def sample_event_def)
qed

subsection \<open>Concurrent writers\<close>

text \<open>
  A goroutine inside \<open>Log\<close>: waiting for the lock with its line marshalled, or holding it with
  \<open>k\<close> bytes of the line written.
\<close>

datatype log_pc = NotLogging | Ready bytes Event | Writing bytes Event nat

text \<open>
  \<open>al_done\<close> has the calls that have released the lock, in order, with how their write went.
\<close>

type_synonym finished_call = "(bytes \<times> Event) \<times> (nat \<times> bytes) option"

record audit_state =
  al_out :: bytes
  al_holder :: "nat option"
  al_pc :: "nat \<Rightarrow> log_pc"
  al_done :: "finished_call list"

definition audit_init :: audit_state where
  "audit_init = \<lparr>al_out = [], al_holder = None, al_pc = (\<lambda>_. NotLogging), al_done = []\<rparr>"

text \<open>
  \<open>marshal\<close> is the part of \<open>Log\<close> before the lock; \<open>piece\<close> a part of the write, which carries on
  from where the last one ended; \<open>unlock\<close> follows a whole line, and \<open>fail\<close> an error of the sink
  after any number of bytes.
\<close>

inductive audit_step :: "bool \<Rightarrow> audit_state \<Rightarrow> audit_state \<Rightarrow> bool" for q where
  marshal: "al_pc s t = NotLogging \<Longrightarrow>
     audit_step q s (s\<lparr>al_pc := (al_pc s)(t := Ready now e)\<rparr>)"
| lock: "al_pc s t = Ready now e \<Longrightarrow> al_holder s = None \<Longrightarrow>
     audit_step q s (s\<lparr>al_holder := Some t, al_pc := (al_pc s)(t := Writing now e 0)\<rparr>)"
| piece: "al_pc s t = Writing now e k \<Longrightarrow> k \<le> m \<Longrightarrow> m \<le> length (event_line now q e) \<Longrightarrow>
     audit_step q s
       (s\<lparr>al_out := al_out s @ drop k (take m (event_line now q e)),
          al_pc := (al_pc s)(t := Writing now e m)\<rparr>)"
| unlock: "al_pc s t = Writing now e (length (event_line now q e)) \<Longrightarrow>
     audit_step q s
       (s\<lparr>al_holder := None, al_pc := (al_pc s)(t := NotLogging),
          al_done := al_done s @ [((now, e), None)]\<rparr>)"
| fail: "al_pc s t = Writing now e k \<Longrightarrow>
     audit_step q s
       (s\<lparr>al_holder := None, al_pc := (al_pc s)(t := NotLogging),
          al_done := al_done s @ [((now, e), Some (k, err))]\<rparr>)"

inductive audit_reachable :: "bool \<Rightarrow> audit_state \<Rightarrow> bool" for q where
  start: "audit_reachable q audit_init"
| step: "audit_reachable q s \<Longrightarrow> audit_step q s s' \<Longrightarrow> audit_reachable q s'"

text \<open>What a finished call has left in the sink, and the faults that the calls have met.\<close>

fun call_bytes :: "bool \<Rightarrow> finished_call \<Rightarrow> bytes" where
  "call_bytes q ((now, e), None) = event_line now q e"
| "call_bytes q ((now, e), Some (k, err)) = take k (event_line now q e)"

definition faults_of :: "finished_call list \<Rightarrow> nat \<Rightarrow> (nat \<times> bytes) option" where
  "faults_of ds n = (if n < length ds then snd (ds ! n) else None)"

lemma Log_all_calls:
  assumes "\<And>i. i < length ds \<Longrightarrow> lg_fault l (lg_writes l + i) = snd (ds ! i)"
  shows "lg_out (Log_all (map fst ds) l) = lg_out l @ concat (map (call_bytes (lg_logQuery l)) ds)"
  using assms
proof (induction ds arbitrary: l)
  case (Cons d ds)
  obtain now e r where d: "d = ((now, e), r)" by (metis prod.exhaust)
  define l' where "l' = snd (Log now e l)"
  have r: "lg_fault l (lg_writes l) = r" using Cons.prems [of 0] d by simp
  have "lg_fault l' (lg_writes l' + i) = snd (ds ! i)" if "i < length ds" for i
    using Cons.prems [of "Suc i"] that by (simp add: l'_def Log_simps)
  then have "lg_out (Log_all (map fst ds) l') =
      lg_out l' @ concat (map (call_bytes (lg_logQuery l')) ds)"
    by (rule Cons.IH)
  moreover have "lg_out l' = lg_out l @ call_bytes (lg_logQuery l) d"
    using r by (cases r) (auto simp: l'_def Log_def Let_def d)
  ultimately show ?case by (simp add: d l'_def Log_simps)
qed simp

text \<open>The sink holds the finished calls, and the part of the holder's line written so far.\<close>

definition holder_part :: "bool \<Rightarrow> audit_state \<Rightarrow> bytes" where
  "holder_part q s =
     (case al_holder s of
        None \<Rightarrow> []
      | Some t \<Rightarrow> (case al_pc s t of Writing now e k \<Rightarrow> take k (event_line now q e) | _ \<Rightarrow> []))"

definition audit_inv :: "bool \<Rightarrow> audit_state \<Rightarrow> bool" where
  "audit_inv q s \<longleftrightarrow>
     al_out s = concat (map (call_bytes q) (al_done s)) @ holder_part q s \<and>
     (\<forall>t now e k. al_pc s t = Writing now e k \<longrightarrow> al_holder s = Some t)"

lemma take_extend: "k \<le> m \<Longrightarrow> take k xs @ drop k (take m xs) = take m xs"
  by (metis append_take_drop_id min.absorb1 take_take)

lemma audit_step_inv: "audit_step q s s' \<Longrightarrow> audit_inv q s \<Longrightarrow> audit_inv q s'"
proof (induction rule: audit_step.induct)
  case (piece s t now e k m)
  then have "al_holder s = Some t" by (simp add: audit_inv_def)
  with piece show ?case by (auto simp: audit_inv_def holder_part_def take_extend)
next
  case (unlock s t now e)
  then have "al_holder s = Some t" by (simp add: audit_inv_def)
  with unlock show ?case by (auto simp: audit_inv_def holder_part_def)
next
  case (fail s t now e k err)
  then have "al_holder s = Some t" by (simp add: audit_inv_def)
  with fail show ?case by (auto simp: audit_inv_def holder_part_def)
qed (auto simp: audit_inv_def holder_part_def split: option.splits log_pc.splits)

lemma audit_reachable_inv: "audit_reachable q s \<Longrightarrow> audit_inv q s"
proof (induction rule: audit_reachable.induct)
  case start
  show ?case by (simp add: audit_inv_def audit_init_def holder_part_def)
qed (rule audit_step_inv)

text \<open>C21: concurrent audit events never interleave: whatever the goroutines and however the sink
  cuts a line into pieces, whenever nobody holds the lock the log is what the sequential logger
  writes for the finished calls in the order of the lock, with the same write errors; so without
  errors every line of it is one event.\<close>

theorem audit_lines_never_interleave:
  assumes "audit_reachable q s" and "al_holder s = None"
  shows "al_out s = lg_out (Log_all (map fst (al_done s)) (NewLogger (faults_of (al_done s)) q)) \<and>
    ((\<forall>d \<in> set (al_done s). snd d = None) \<longrightarrow>
      split_lines (al_out s) =
        map (\<lambda>d. encode (Event_json (logged_event (fst (fst d)) q (snd (fst d))))) (al_done s))"
proof -
  have out: "al_out s = concat (map (call_bytes q) (al_done s))"
    using audit_reachable_inv [OF assms(1)] assms(2) by (simp add: audit_inv_def holder_part_def)
  have "lg_out (Log_all (map fst (al_done s)) (NewLogger (faults_of (al_done s)) q)) = al_out s"
    by (subst Log_all_calls) (simp_all add: NewLogger_def faults_of_def out)
  moreover have "split_lines (al_out s) =
      map (\<lambda>d. encode (Event_json (logged_event (fst (fst d)) q (snd (fst d))))) (al_done s)"
    if ok: "\<forall>d \<in> set (al_done s). snd d = None"
  proof -
    have "call_bytes q d = event_line (fst (fst d)) q (snd (fst d))" if "d \<in> set (al_done s)" for d
      using ok that by (cases "(q, d)" rule: call_bytes.cases) auto
    then have "map (call_bytes q) (al_done s) =
        map (\<lambda>(now, e). event_line now q e) (map fst (al_done s))"
      by (simp add: split_beta)
    with out have "al_out s = concat (map (\<lambda>(now, e). event_line now q e) (map fst (al_done s)))"
      by simp
    then show ?thesis using split_event_lines [of q "map fst (al_done s)"] by (simp add: split_beta)
  qed
  ultimately show ?thesis by simp
qed

text \<open>Two goroutines: the second is ready while the first writes its line in two pieces.\<close>

lemma two_writers:
  "\<exists>s. audit_reachable False s \<and> al_holder s = None \<and> al_done s = [((''t'', sample_event), None)] \<and>
     al_pc s 1 = Ready ''u'' hostile_entry"
proof -
  define n where "n = length (event_line ''t'' False sample_event)"
  note r1 = audit_reachable.step [OF audit_reachable.start
    audit_step.marshal [of _ 0 False "''t''" sample_event]]
  note r2 = audit_reachable.step [OF r1 audit_step.marshal [of _ 1 False "''u''" hostile_entry]]
  note r3 = audit_reachable.step [OF r2 audit_step.lock [of _ 0 "''t''" sample_event]]
  note r4 = audit_reachable.step [OF r3 audit_step.piece [of _ 0 "''t''" sample_event 0 1]]
  note r5 = audit_reachable.step [OF r4 audit_step.piece [of _ 0 "''t''" sample_event 1 n]]
  note r6 = audit_reachable.step [OF r5 audit_step.unlock [of _ 0 "''t''" sample_event]]
  have "1 \<le> n" by (simp add: n_def event_line_def)
  then show ?thesis
    by - (intro exI conjI, rule r6, simp_all add: audit_init_def n_def)
qed

theorem audit_lines_never_interleave_witness:
  "\<exists>s. audit_reachable False s \<and> al_pc s 1 = Ready ''u'' hostile_entry \<and>
     split_lines (al_out s) = [encode (Event_json (logged_event ''t'' False sample_event))]"
proof -
  obtain s where s: "audit_reachable False s" "al_holder s = None"
    "al_done s = [((''t'', sample_event), None)]" "al_pc s 1 = Ready ''u'' hostile_entry"
    using two_writers by blast
  then show ?thesis using audit_lines_never_interleave [OF s(1,2)] by auto
qed

end
