(* ===== verification/GoHttp.thy ===== *)
theory GoHttp
  imports GoStrings
begin

text \<open>
  What the gateway sees of \<open>net/http\<close>: the request, the response writer of a connection,
  and the interface \<open>http.ResponseWriter\<close> as a locale, with the contract that the handlers
  rely on: the first \<open>WriteHeader\<close> decides the status and the headers, a \<open>Write\<close> without
  one means 200, and nothing afterwards changes either.
\<close>

subsection \<open>Requests\<close>

text \<open>
  Header names are case-insensitive; the model keys headers by the spelling the gateway's
  code uses. A body is the bytes that arrive and, when the connection fails before its end (the
  caller has gone, or the read timeout has passed), the text of that error. \<open>rq_ctx_id\<close> is the request ID stored on the request's context.
\<close>

type_synonym headers = "bytes \<rightharpoonup> bytes"

record Request =
  rq_Method :: bytes
  rq_Path :: bytes
  rq_Header :: "bytes \<Rightarrow> bytes list"
  rq_Body :: bytes
  rq_BodyError :: "bytes option"
  rq_RemoteAddr :: bytes
  rq_ctx_id :: "bytes option"

text \<open>\<open>Header.Get\<close>: the first value, empty when there is none.\<close>

definition header_get :: "Request \<Rightarrow> bytes \<Rightarrow> bytes" where
  "header_get r k = (case rq_Header r k of [] \<Rightarrow> [] | v # _ \<Rightarrow> v)"

subsection \<open>Method sets\<close>

text \<open>
  The methods a dynamic type can have that decide what a type assertion
  \<open>w.(http.Flusher)\<close> or an \<open>http.ResponseController\<close> finds.
\<close>

datatype rw_method = MHeader | MWrite | MWriteHeader | MFlush | MSetWriteDeadline | MUnwrap

definition ResponseWriter_methods :: "rw_method list" where
  "ResponseWriter_methods = [MHeader, MWrite, MWriteHeader]"

subsection \<open>The connection's response writer\<close>

text \<open>
  \<open>c_sent\<close> is the status line and the headers as they were when it was written;
  \<open>c_fault n\<close> says how the \<open>n\<close>-th write to the peer goes: \<open>None\<close> for well, \<open>Some k\<close> for
  an error after \<open>k\<close> bytes. \<open>c_flushed\<close> is how much of the body has been flushed.
\<close>

record Conn =
  c_header :: headers
  c_sent :: "(int \<times> headers) option"
  c_body :: bytes
  c_flushed :: nat
  c_deadline :: "int option"
  c_can_flush :: bool
  c_writes :: nat
  c_fault :: "nat \<Rightarrow> nat option"

definition new_conn :: "bool \<Rightarrow> (nat \<Rightarrow> nat option) \<Rightarrow> Conn" where
  "new_conn can_flush fault =
     \<lparr>c_header = Map.empty, c_sent = None, c_body = [], c_flushed = 0, c_deadline = None,
      c_can_flush = can_flush, c_writes = 0, c_fault = fault\<rparr>"

definition conn_methods :: "Conn \<Rightarrow> rw_method list" where
  "conn_methods c =
     ResponseWriter_methods @ [MSetWriteDeadline] @ (if c_can_flush c then [MFlush] else [])"

definition conn_set_header :: "bytes \<Rightarrow> bytes \<Rightarrow> Conn \<Rightarrow> Conn" where
  "conn_set_header k v c = c\<lparr>c_header := (c_header c)(k \<mapsto> v)\<rparr>"

definition conn_write_header :: "int \<Rightarrow> Conn \<Rightarrow> Conn" where
  "conn_write_header code c =
     (case c_sent c of
        None \<Rightarrow> c\<lparr>c_sent := Some (code, c_header c)\<rparr>
      | Some _ \<Rightarrow> c)"

definition conn_write :: "bytes \<Rightarrow> Conn \<Rightarrow> bool \<times> Conn" where
  "conn_write b c0 =
     (let c = conn_write_header 200 c0; n = c_writes c in
      case c_fault c n of
        None \<Rightarrow> (True, c\<lparr>c_body := c_body c @ b, c_writes := Suc n\<rparr>)
      | Some k \<Rightarrow> (False, c\<lparr>c_body := c_body c @ take k b, c_writes := Suc n\<rparr>))"

definition conn_flush :: "Conn \<Rightarrow> Conn" where
  "conn_flush c = (conn_write_header 200 c)\<lparr>c_flushed := length (c_body c)\<rparr>"

subsection \<open>The interface\<close>

locale response_writer =
  fixes set_hdr :: "bytes \<Rightarrow> bytes \<Rightarrow> 'w \<Rightarrow> 'w"
    and write_hdr :: "int \<Rightarrow> 'w \<Rightarrow> 'w"
    and write_bytes :: "bytes \<Rightarrow> 'w \<Rightarrow> bool \<times> 'w"
    and headers_of :: "'w \<Rightarrow> headers"
    and sent_of :: "'w \<Rightarrow> (int \<times> headers) option"
    and body_of :: "'w \<Rightarrow> bytes"
    and inv :: "'w \<Rightarrow> bool"
  assumes set_headers: "inv w \<Longrightarrow> headers_of (set_hdr k v w) = (headers_of w)(k \<mapsto> v)"
    and set_sent: "inv w \<Longrightarrow> sent_of (set_hdr k v w) = sent_of w"
    and set_body: "inv w \<Longrightarrow> body_of (set_hdr k v w) = body_of w"
    and set_inv: "inv w \<Longrightarrow> inv (set_hdr k v w)"
    and write_hdr_first:
      "inv w \<Longrightarrow> sent_of w = None \<Longrightarrow> sent_of (write_hdr c w) = Some (c, headers_of w)"
    and write_hdr_later: "inv w \<Longrightarrow> sent_of w = Some x \<Longrightarrow> sent_of (write_hdr c w) = Some x"
    and write_hdr_body: "inv w \<Longrightarrow> body_of (write_hdr c w) = body_of w"
    and write_hdr_inv: "inv w \<Longrightarrow> inv (write_hdr c w)"
    and write_first:
      "inv w \<Longrightarrow> sent_of w = None \<Longrightarrow> sent_of (snd (write_bytes b w)) = Some (200, headers_of w)"
    and write_later: "inv w \<Longrightarrow> sent_of w = Some x \<Longrightarrow> sent_of (snd (write_bytes b w)) = Some x"
    and write_body_prefix: "inv w \<Longrightarrow> \<exists>k. body_of (snd (write_bytes b w)) = body_of w @ take k b"
    and write_body_ok:
      "inv w \<Longrightarrow> fst (write_bytes b w) \<Longrightarrow> body_of (snd (write_bytes b w)) = body_of w @ b"
    and write_inv: "inv w \<Longrightarrow> inv (snd (write_bytes b w))"
begin

text \<open>One answer: a header, then the status, then the body; status and headers stand.\<close>

lemma answer_sent:
  "inv w \<Longrightarrow> sent_of w = None \<Longrightarrow>
   sent_of (snd (write_bytes b (write_hdr c (set_hdr k v w)))) = Some (c, (headers_of w)(k \<mapsto> v))"
  by (simp add: set_headers set_sent set_inv write_hdr_first write_hdr_inv write_later)

lemma answer_body:
  "inv w \<Longrightarrow> fst (write_bytes b (write_hdr c (set_hdr k v w))) \<Longrightarrow>
   body_of (snd (write_bytes b (write_hdr c (set_hdr k v w)))) = body_of w @ b"
  by (simp add: write_body_ok write_hdr_body write_hdr_inv set_body set_inv)

text \<open>Once committed, no operation changes the status or the headers on the wire.\<close>

lemma committed_stays:
  assumes "inv w" and "sent_of w = Some x"
  shows "sent_of (set_hdr k v w) = Some x" and "sent_of (write_hdr c w) = Some x"
    and "sent_of (snd (write_bytes b w)) = Some x"
  by (simp_all add: assms set_sent write_hdr_later write_later)

lemma body_only_grows: "inv w \<Longrightarrow> \<exists>t. body_of (snd (write_bytes b w)) = body_of w @ t"
  using write_body_prefix by blast

end

lemma conn_write_header_simps [writer_simps]:
  "c_header (conn_write_header code c) = c_header c"
  "c_body (conn_write_header code c) = c_body c"
  "c_flushed (conn_write_header code c) = c_flushed c"
  "c_deadline (conn_write_header code c) = c_deadline c"
  "c_can_flush (conn_write_header code c) = c_can_flush c"
  "c_writes (conn_write_header code c) = c_writes c"
  "c_fault (conn_write_header code c) = c_fault c"
  "c_sent (conn_write_header code c) =
     (case c_sent c of None \<Rightarrow> Some (code, c_header c) | Some x \<Rightarrow> Some x)"
  by (simp_all add: conn_write_header_def split: option.split)

lemma conn_set_header_simps [writer_simps]:
  "c_header (conn_set_header k v c) = (c_header c)(k \<mapsto> v)"
  "c_body (conn_set_header k v c) = c_body c"
  "c_flushed (conn_set_header k v c) = c_flushed c"
  "c_deadline (conn_set_header k v c) = c_deadline c"
  "c_can_flush (conn_set_header k v c) = c_can_flush c"
  "c_writes (conn_set_header k v c) = c_writes c"
  "c_fault (conn_set_header k v c) = c_fault c"
  "c_sent (conn_set_header k v c) = c_sent c"
  by (simp_all add: conn_set_header_def)

lemma conn_write_simps [writer_simps]:
  "c_header (snd (conn_write b c)) = c_header c"
  "c_body (snd (conn_write b c)) =
     c_body c @ (case c_fault c (c_writes c) of None \<Rightarrow> b | Some k \<Rightarrow> take k b)"
  "c_flushed (snd (conn_write b c)) = c_flushed c"
  "c_deadline (snd (conn_write b c)) = c_deadline c"
  "c_can_flush (snd (conn_write b c)) = c_can_flush c"
  "c_writes (snd (conn_write b c)) = Suc (c_writes c)"
  "c_fault (snd (conn_write b c)) = c_fault c"
  "c_sent (snd (conn_write b c)) =
     (case c_sent c of None \<Rightarrow> Some (200, c_header c) | Some x \<Rightarrow> Some x)"
  "fst (conn_write b c) \<longleftrightarrow> c_fault c (c_writes c) = None"
  by (simp_all add: conn_write_def Let_def conn_write_header_simps split: option.split)

lemma conn_flush_simps [writer_simps]:
  "c_header (conn_flush c) = c_header c"
  "c_body (conn_flush c) = c_body c"
  "c_flushed (conn_flush c) = length (c_body c)"
  "c_deadline (conn_flush c) = c_deadline c"
  "c_can_flush (conn_flush c) = c_can_flush c"
  "c_writes (conn_flush c) = c_writes c"
  "c_fault (conn_flush c) = c_fault c"
  "c_sent (conn_flush c) =
     (case c_sent c of None \<Rightarrow> Some (200, c_header c) | Some x \<Rightarrow> Some x)"
  by (simp_all add: conn_flush_def conn_write_header_simps split: option.split)

interpretation conn: response_writer conn_set_header conn_write_header conn_write c_header c_sent c_body
  "\<lambda>_. True"
proof unfold_locales
  fix b and w :: Conn
  show "\<exists>k. c_body (snd (conn_write b w)) = c_body w @ take k b"
  proof (cases "c_fault w (c_writes w)")
    case None
    then have "c_body (snd (conn_write b w)) = c_body w @ take (length b) b"
      by (simp add: writer_simps)
    then show ?thesis ..
  next
    case (Some k)
    then have "c_body (snd (conn_write b w)) = c_body w @ take k b"
      by (simp add: writer_simps)
    then show ?thesis ..
  qed
qed (simp_all add: writer_simps)

subsection \<open>\<open>http.StatusText\<close>\<close>

definition status_texts :: "(int \<times> bytes) list" where
  "status_texts =
     [(100, ''Continue''), (101, ''Switching Protocols''), (102, ''Processing''),
      (103, ''Early Hints''), (200, ''OK''), (201, ''Created''), (202, ''Accepted''),
      (203, ''Non-Authoritative Information''), (204, ''No Content''), (205, ''Reset Content''),
      (206, ''Partial Content''), (207, ''Multi-Status''), (208, ''Already Reported''),
      (226, ''IM Used''), (300, ''Multiple Choices''), (301, ''Moved Permanently''),
      (302, ''Found''), (303, ''See Other''), (304, ''Not Modified''), (305, ''Use Proxy''),
      (307, ''Temporary Redirect''), (308, ''Permanent Redirect''), (400, ''Bad Request''),
      (401, ''Unauthorized''), (402, ''Payment Required''), (403, ''Forbidden''),
      (404, ''Not Found''), (405, ''Method Not Allowed''), (406, ''Not Acceptable''),
      (407, ''Proxy Authentication Required''), (408, ''Request Timeout''), (409, ''Conflict''),
      (410, ''Gone''), (411, ''Length Required''), (412, ''Precondition Failed''),
      (413, ''Request Entity Too Large''), (414, ''Request URI Too Long''),
      (415, ''Unsupported Media Type''), (416, ''Requested Range Not Satisfiable''),
      (417, ''Expectation Failed''), (418, ''I'' @ [CHR 0x27] @ ''m a teapot''),
      (421, ''Misdirected Request''), (422, ''Unprocessable Entity''), (423, ''Locked''),
      (424, ''Failed Dependency''), (425, ''Too Early''), (426, ''Upgrade Required''),
      (428, ''Precondition Required''), (429, ''Too Many Requests''),
      (431, ''Request Header Fields Too Large''), (451, ''Unavailable For Legal Reasons''),
      (500, ''Internal Server Error''), (501, ''Not Implemented''), (502, ''Bad Gateway''),
      (503, ''Service Unavailable''), (504, ''Gateway Timeout''),
      (505, ''HTTP Version Not Supported''), (506, ''Variant Also Negotiates''),
      (507, ''Insufficient Storage''), (508, ''Loop Detected''), (510, ''Not Extended''),
      (511, ''Network Authentication Required'')]"

definition StatusText :: "int \<Rightarrow> bytes" where
  "StatusText code = (case map_of status_texts code of Some t \<Rightarrow> t | None \<Rightarrow> [])"

end
