(* ===== verification/StatusWriter.thy ===== *)
theory StatusWriter
  imports GoHttp
begin

text \<open>
  \<open>statusWriter\<close> of \<open>internal/server/middleware.go\<close>: the response writer that the metrics
  middleware puts around the connection's and that every later handler writes to. It
  implements the \<open>http.ResponseWriter\<close> interface (\<open>response_writer\<close>) and the status it
  records is the status on the wire.
\<close>

record statusWriter =
  sw_inner :: Conn
  sw_status :: int
  sw_wroteHeader :: bool

text \<open>
  The struct embeds the interface \<open>http.ResponseWriter\<close>, which promotes the three methods of
  the interface and no other method of the value inside it, and declares three of its own.
\<close>

definition statusWriter_methods :: "rw_method list" where
  "statusWriter_methods = ResponseWriter_methods @ [MWriteHeader, MWrite, MFlush]"

definition sw_Header_Set :: "bytes \<Rightarrow> bytes \<Rightarrow> statusWriter \<Rightarrow> statusWriter" where
  "sw_Header_Set k v s = s\<lparr>sw_inner := conn_set_header k v (sw_inner s)\<rparr>"

definition sw_WriteHeader :: "int \<Rightarrow> statusWriter \<Rightarrow> statusWriter" where
  "sw_WriteHeader code s =
     (if sw_wroteHeader s then s
      else s\<lparr>sw_status := code, sw_wroteHeader := True,
             sw_inner := conn_write_header code (sw_inner s)\<rparr>)"

definition sw_Write :: "bytes \<Rightarrow> statusWriter \<Rightarrow> bool \<times> statusWriter" where
  "sw_Write b s0 =
     (let s = (if \<not> sw_wroteHeader s0 then sw_WriteHeader 200 s0 else s0);
          (ok, c) = conn_write b (sw_inner s)
      in (ok, s\<lparr>sw_inner := c\<rparr>))"

definition sw_Flush :: "statusWriter \<Rightarrow> statusWriter" where
  "sw_Flush s =
     (if MFlush \<in> set (conn_methods (sw_inner s))
      then s\<lparr>sw_inner := conn_flush (sw_inner s)\<rparr> else s)"

text \<open>
  \<open>http.NewResponseController(w).SetWriteDeadline(t)\<close> on a \<open>statusWriter\<close>: the controller
  calls the method if the writer has it, goes on with \<open>Unwrap()\<close> if it has that, and returns
  \<open>ErrNotSupported\<close> (\<open>False\<close>) otherwise.
\<close>

definition sw_SetWriteDeadline :: "int \<Rightarrow> statusWriter \<Rightarrow> bool \<times> statusWriter" where
  "sw_SetWriteDeadline t s =
     (if MSetWriteDeadline \<in> set statusWriter_methods \<or>
         MUnwrap \<in> set statusWriter_methods \<and> MSetWriteDeadline \<in> set (conn_methods (sw_inner s))
      then (True, s\<lparr>sw_inner := (sw_inner s)\<lparr>c_deadline := Some t\<rparr>\<rparr>)
      else (False, s))"

abbreviation sw_sent :: "statusWriter \<Rightarrow> (int \<times> headers) option" where
  "sw_sent s \<equiv> c_sent (sw_inner s)"

abbreviation sw_body :: "statusWriter \<Rightarrow> bytes" where
  "sw_body s \<equiv> c_body (sw_inner s)"

abbreviation sw_header :: "statusWriter \<Rightarrow> headers" where
  "sw_header s \<equiv> c_header (sw_inner s)"

text \<open>
  What the wrapper keeps: it has written the header exactly when the connection has sent
  one, and then the recorded status is the one sent. Before, it is 200.
\<close>

definition sw_ok :: "statusWriter \<Rightarrow> bool" where
  "sw_ok s \<longleftrightarrow>
     (case sw_sent s of
        None \<Rightarrow> \<not> sw_wroteHeader s \<and> sw_status s = 200
      | Some (code, _) \<Rightarrow> sw_wroteHeader s \<and> sw_status s = code)"

definition new_statusWriter :: "Conn \<Rightarrow> statusWriter" where
  "new_statusWriter c = \<lparr>sw_inner = c, sw_status = 200, sw_wroteHeader = False\<rparr>"

lemma sw_ok_new: "c_sent c = None \<Longrightarrow> sw_ok (new_statusWriter c)"
  by (simp add: sw_ok_def new_statusWriter_def)

lemma sw_ok_wrote: "sw_ok s \<Longrightarrow> sw_wroteHeader s \<longleftrightarrow> sw_sent s \<noteq> None"
  by (auto simp: sw_ok_def split: option.splits)

lemma sw_ok_fresh: "sw_ok s \<Longrightarrow> sw_sent s = None \<Longrightarrow> \<not> sw_wroteHeader s \<and> sw_status s = 200"
  by (simp add: sw_ok_def)

lemma sw_ok_status: "sw_ok s \<Longrightarrow> sw_sent s = Some (code, h) \<Longrightarrow> sw_status s = code"
  by (simp add: sw_ok_def)

lemma sw_Header_Set_simps [writer_simps]:
  "sw_inner (sw_Header_Set k v s) = conn_set_header k v (sw_inner s)"
  "sw_status (sw_Header_Set k v s) = sw_status s"
  "sw_wroteHeader (sw_Header_Set k v s) = sw_wroteHeader s"
  by (simp_all add: sw_Header_Set_def)

lemma sw_WriteHeader_simps [writer_simps]:
  "sw_inner (sw_WriteHeader code s) =
     (if sw_wroteHeader s then sw_inner s else conn_write_header code (sw_inner s))"
  "sw_status (sw_WriteHeader code s) = (if sw_wroteHeader s then sw_status s else code)"
  "sw_wroteHeader (sw_WriteHeader code s)"
  by (simp_all add: sw_WriteHeader_def)

lemma sw_Write_simps [writer_simps]:
  "sw_inner (snd (sw_Write b s)) = snd (conn_write b (sw_inner s))"
  "sw_status (snd (sw_Write b s)) = (if sw_wroteHeader s then sw_status s else 200)"
  "sw_wroteHeader (snd (sw_Write b s))"
  "fst (sw_Write b s) \<longleftrightarrow> c_fault (sw_inner s) (c_writes (sw_inner s)) = None"
  by (auto simp: sw_Write_def Let_def writer_simps conn_write_def conn_write_header_def
      split: prod.split option.split if_splits)

lemma sw_Flush_simps [writer_simps]:
  "sw_status (sw_Flush s) = sw_status s"
  "sw_wroteHeader (sw_Flush s) = sw_wroteHeader s"
  "sw_header (sw_Flush s) = sw_header s"
  "sw_body (sw_Flush s) = sw_body s"
  "c_writes (sw_inner (sw_Flush s)) = c_writes (sw_inner s)"
  "c_fault (sw_inner (sw_Flush s)) = c_fault (sw_inner s)"
  "c_can_flush (sw_inner (sw_Flush s)) = c_can_flush (sw_inner s)"
  "c_deadline (sw_inner (sw_Flush s)) = c_deadline (sw_inner s)"
  "sw_sent s = Some x \<Longrightarrow> sw_sent (sw_Flush s) = Some x"
  "c_can_flush (sw_inner s) \<Longrightarrow> c_flushed (sw_inner (sw_Flush s)) = length (sw_body s)"
  by (simp_all add: sw_Flush_def writer_simps conn_methods_def)

lemma sw_SetWriteDeadline_eq [writer_simps]: "sw_SetWriteDeadline t s = (False, s)"
  by (simp add: sw_SetWriteDeadline_def statusWriter_methods_def ResponseWriter_methods_def)

subsection \<open>The invariant, and the interface\<close>

lemma sw_ok_Header_Set: "sw_ok s \<Longrightarrow> sw_ok (sw_Header_Set k v s)"
  by (auto simp: sw_ok_def writer_simps split: option.splits)

lemma sw_ok_WriteHeader: "sw_ok s \<Longrightarrow> sw_ok (sw_WriteHeader code s)"
  by (auto simp: sw_ok_def writer_simps split: option.splits)

lemma sw_ok_Write: "sw_ok s \<Longrightarrow> sw_ok (snd (sw_Write b s))"
  by (auto simp: sw_ok_def writer_simps split: option.splits)

lemma sw_ok_Flush: "sw_ok s \<Longrightarrow> sw_sent s \<noteq> None \<Longrightarrow> sw_ok (sw_Flush s)"
  by (auto simp: sw_ok_def sw_Flush_def writer_simps split: option.splits)

lemmas sw_ok_intros = sw_ok_Header_Set sw_ok_WriteHeader sw_ok_Write

text \<open>The contract of \<open>http.ResponseWriter\<close> holds for every writer in the invariant.\<close>

interpretation sw: response_writer sw_Header_Set sw_WriteHeader sw_Write sw_header sw_sent sw_body
  sw_ok
proof unfold_locales
  fix b and w :: statusWriter
  show "\<exists>k. sw_body (snd (sw_Write b w)) = sw_body w @ take k b"
    using conn.write_body_prefix [where w = "sw_inner w" and b = b] by (simp add: writer_simps)
qed (auto simp: writer_simps sw_ok_wrote sw_ok_intros)

end
