(* ===== verification/RequestId.thy ===== *)
theory RequestId
  imports GoHttp
begin

text \<open>
  \<open>internal/requestid/requestid.go\<close>: the correlation ID of a request, generated or taken
  from the caller after a check of every byte, written on the response and stored on the
  request's context.
\<close>

definition HeaderName :: bytes where
  "HeaderName = ''X-Request-ID''"

definition maxCallerIDLen :: nat where
  "maxCallerIDLen = 128"

text \<open>The context: \<open>WithValue\<close> stores, \<open>FromContext\<close> reads, empty when nothing is stored.\<close>

definition WithValue :: "Request \<Rightarrow> bytes \<Rightarrow> Request" where
  "WithValue r i = r\<lparr>rq_ctx_id := Some i\<rparr>"

definition FromContext :: "Request \<Rightarrow> bytes" where
  "FromContext r = (case rq_ctx_id r of None \<Rightarrow> [] | Some i \<Rightarrow> i)"

lemma FromContext_WithValue [simp]: "FromContext (WithValue r i) = i"
  by (simp add: FromContext_def WithValue_def)

text \<open>
  \<open>fmt.Sprintf("%016x", n)\<close> of a 64-bit unsigned value, and \<open>New\<close>: the bytes that
  \<open>crypto/rand\<close> put into the eight-byte buffer, or the clock when it failed.
\<close>

fun hex_pad :: "nat \<Rightarrow> nat \<Rightarrow> bytes" where
  "hex_pad 0 n = []"
| "hex_pad (Suc k) n = hex_pad k (n div 16) @ [hex_digit (n mod 16)]"

definition New :: "bytes option \<Rightarrow> int \<Rightarrow> bytes" where
  "New rand unixNano =
     (case rand of
        Some buf \<Rightarrow> hex_encode buf
      | None \<Rightarrow> hex_pad 16 (nat (unixNano mod 2 ^ 64)))"

definition valid_id_char :: "char \<Rightarrow> bool" where
  "valid_id_char c \<longleftrightarrow>
     char_between (CHR ''0'') (CHR ''9'') c \<or> char_between (CHR ''a'') (CHR ''z'') c \<or>
     char_between (CHR ''A'') (CHR ''Z'') c \<or>
     c = CHR ''-'' \<or> c = CHR ''_'' \<or> c = CHR ''.'' \<or> c = CHR '':'' \<or> c = CHR ''/''"

definition validCallerID :: "bytes \<Rightarrow> bool" where
  "validCallerID i \<longleftrightarrow> i \<noteq> [] \<and> length i \<le> maxCallerIDLen \<and> list_all valid_id_char i"

text \<open>
  \<open>Middleware\<close>: what the next handler gets (the request with its ID) and the response writer
  with the header set. The arguments \<open>rand\<close> and \<open>now\<close> are what \<open>New\<close> would draw.
\<close>

definition request_id :: "bytes option \<Rightarrow> int \<Rightarrow> Request \<Rightarrow> bytes" where
  "request_id rand now r =
     (let i = header_get r HeaderName in if validCallerID i then i else New rand now)"

definition Middleware ::
  "bytes option \<Rightarrow> int \<Rightarrow> (Request \<Rightarrow> Conn \<Rightarrow> 'a) \<Rightarrow> Request \<Rightarrow> Conn \<Rightarrow> 'a" where
  "Middleware rand now next_handler r w =
     (let i = request_id rand now r
      in next_handler (WithValue r i) (conn_set_header HeaderName i w))"

subsection \<open>Lemmas\<close>

lemma length_hex_pad [simp]: "length (hex_pad k n) = k"
  by (induction k arbitrary: n) simp_all

lemma hex_pad_hex: "list_all is_lower_hex (hex_pad k n)"
  by (induction k arbitrary: n) (simp_all add: hex_digit_is_hex)

lemma valid_id_char_byte:
  "valid_id_char c \<longleftrightarrow>
     in_range 48 57 c \<or> in_range 97 122 c \<or> in_range 65 90 c \<or> byte c \<in> {45, 95, 46, 58, 47}"
proof -
  have eq: "c = d \<longleftrightarrow> byte c = byte d" for d :: char by (simp add: of_char_eq_iff)
  show ?thesis
    by (simp add: valid_id_char_def in_range_def less_eq_char_def eq)
qed

lemma lower_hex_valid_id: "is_lower_hex c \<Longrightarrow> valid_id_char c"
  by (auto simp: valid_id_char_byte is_lower_hex_def in_range_def)

lemma New_shape:
  assumes "\<And>buf. rand = Some buf \<Longrightarrow> length buf = 8"
  shows "length (New rand now) = 16 \<and> list_all is_lower_hex (New rand now)"
  using assms by (auto simp: New_def hex_encode_hex hex_pad_hex split: option.split)

lemma New_valid:
  assumes "\<And>buf. rand = Some buf \<Longrightarrow> length buf = 8"
  shows "validCallerID (New rand now)"
  using New_shape [OF assms, of rand now]
  by (auto simp: validCallerID_def maxCallerIDLen_def list_all_iff lower_hex_valid_id)

lemma valid_id_no_ctl: "valid_id_char c \<Longrightarrow> 0x20 < byte c \<and> byte c < 0x7F"
  by (auto simp: valid_id_char_byte in_range_def)

text \<open>C32: every request ID the gateway works with, echoed or generated, is non-empty, at most
  128 bytes long and made of visible ASCII characters only, so that it can break neither the
  response header, nor a problem document's instance, nor a log line.\<close>

theorem request_id_wellformed:
  assumes "\<And>buf. rand = Some buf \<Longrightarrow> length buf = 8"
  shows "validCallerID (request_id rand now r) \<and>
    (\<forall>c \<in> set (request_id rand now r). 0x20 < byte c \<and> byte c < 0x7F)"
proof -
  have "validCallerID (request_id rand now r)"
    using New_valid [OF assms] by (simp add: request_id_def Let_def)
  then show ?thesis
    by (auto simp: validCallerID_def list_all_iff dest: valid_id_no_ctl)
qed

text \<open>A caller's ID with a space in it is replaced.\<close>

theorem request_id_wellformed_witness:
  "validCallerID (request_id (Some (replicate 8 CHR ''x'')) 0
     \<lparr>rq_Method = ''GET'', rq_Path = ''/v1/tools'',
      rq_Header = (\<lambda>k. if k = HeaderName then [''a b''] else []), rq_Body = [],
      rq_BodyError = None, rq_RemoteAddr = [], rq_ctx_id = None\<rparr>)"
  by (rule request_id_wellformed [THEN conjunct1]) auto

end
