(* ===== verification/Metrics.thy ===== *)
theory Metrics
  imports GoStrings
begin

text \<open>
  \<open>internal/metrics/metrics.go\<close>: the gateway's metric families and the narrow wrappers around
  the Prometheus client library. The library is not part of the repository; what the package
  does to it is the sequence of calls, so the state of a \<open>Registry\<close> is the list of
  operations it has passed on, with the library's panics recorded as such: label values that are
  not as many as the labels or not valid UTF-8, and a negative counter increment. What happens
  after a panic is not modelled: theory \<open>Quiet\<close> shows that there is none. The methods of \<open>Registry\<close>
  that hand out a family are the constructors of \<open>family\<close>.
\<close>

datatype family =
    Requests | RequestDuration | InFlight | ToolCalls | ToolDuration | ModelTokens
  | UpstreamErrors | RateLimited

datatype metric_kind = CounterKind | HistogramKind | GaugeKind

fun family_name :: "family \<Rightarrow> bytes" where
  "family_name Requests = ''opencost_ai_gateway_requests_total''"
| "family_name RequestDuration = ''opencost_ai_gateway_request_duration_seconds''"
| "family_name InFlight = ''opencost_ai_gateway_requests_in_flight''"
| "family_name ToolCalls = ''opencost_ai_gateway_tool_calls_total''"
| "family_name ToolDuration = ''opencost_ai_gateway_tool_call_duration_seconds''"
| "family_name ModelTokens = ''opencost_ai_gateway_model_tokens_total''"
| "family_name UpstreamErrors = ''opencost_ai_gateway_upstream_errors_total''"
| "family_name RateLimited = ''opencost_ai_gateway_rate_limited_total''"

fun family_kind :: "family \<Rightarrow> metric_kind" where
  "family_kind InFlight = GaugeKind"
| "family_kind RequestDuration = HistogramKind"
| "family_kind ToolDuration = HistogramKind"
| "family_kind _ = CounterKind"

fun label_names :: "family \<Rightarrow> bytes list" where
  "label_names Requests = [''endpoint'', ''method'', ''status'']"
| "label_names RequestDuration = [''endpoint'', ''method'']"
| "label_names InFlight = []"
| "label_names ToolCalls = [''tool'']"
| "label_names ToolDuration = [''tool'']"
| "label_names ModelTokens = [''model'', ''kind'']"
| "label_names UpstreamErrors = [''op'', ''kind'']"
| "label_names RateLimited = []"

text \<open>
  The upper bounds of the histograms' buckets, here in milliseconds; \<open>buckets\<close> is what a family
  has been created with.
\<close>

definition defaultBuckets :: "int list" where
  "defaultBuckets = [5, 10, 25, 50, 100, 250, 500, 1000, 2500, 5000, 10000]"

definition buckets :: "family \<Rightarrow> int list" where
  "buckets f = (if family_kind f = HistogramKind then defaultBuckets else [])"

text \<open>
  An observation in seconds is a fraction (nanoseconds over \<open>10 ^ 9\<close>, milliseconds over
  1000); counters and gauges move by integers.
\<close>

datatype metric_op =
    AddOp family "bytes list" int
  | SetOp family int
  | ObserveOp family "bytes list" int int

record Registry =
  mr_ops :: "metric_op list"
  mr_panicked :: bool

definition NewRegistry :: Registry where
  "NewRegistry = \<lparr>mr_ops = [], mr_panicked = False\<rparr>"

text \<open>\<open>WithLabelValues\<close> followed by an operation on the handle it returns.\<close>

definition labels_fit :: "family \<Rightarrow> bytes list \<Rightarrow> bool" where
  "labels_fit f ls \<longleftrightarrow> length ls = length (label_names f) \<and> list_all valid_utf8 ls"

definition with_labels ::
  "family \<Rightarrow> bytes list \<Rightarrow> (Registry \<Rightarrow> Registry) \<Rightarrow> Registry \<Rightarrow> Registry" where
  "with_labels f ls k m =
     (if labels_fit f ls then k m else m\<lparr>mr_panicked := True\<rparr>)"

definition emit :: "metric_op \<Rightarrow> Registry \<Rightarrow> Registry" where
  "emit op m = m\<lparr>mr_ops := mr_ops m @ [op]\<rparr>"

definition Counter_Add :: "family \<Rightarrow> bytes list \<Rightarrow> int \<Rightarrow> Registry \<Rightarrow> Registry" where
  "Counter_Add f ls delta =
     with_labels f ls
       (\<lambda>m. if delta < 0 then m\<lparr>mr_panicked := True\<rparr> else emit (AddOp f ls delta) m)"

definition Counter_Inc :: "family \<Rightarrow> bytes list \<Rightarrow> Registry \<Rightarrow> Registry" where
  "Counter_Inc f ls = with_labels f ls (emit (AddOp f ls 1))"

definition Gauge_Add :: "family \<Rightarrow> int \<Rightarrow> Registry \<Rightarrow> Registry" where
  "Gauge_Add f delta = emit (AddOp f [] delta)"

definition Gauge_Inc :: "family \<Rightarrow> Registry \<Rightarrow> Registry" where
  "Gauge_Inc f = Gauge_Add f 1"

definition Gauge_Dec :: "family \<Rightarrow> Registry \<Rightarrow> Registry" where
  "Gauge_Dec f = Gauge_Add f (- 1)"

definition Gauge_Set :: "family \<Rightarrow> int \<Rightarrow> Registry \<Rightarrow> Registry" where
  "Gauge_Set f v = emit (SetOp f v)"

definition Histogram_Observe :: "family \<Rightarrow> bytes list \<Rightarrow> int \<Rightarrow> int \<Rightarrow> Registry \<Rightarrow> Registry" where
  "Histogram_Observe f ls n d = with_labels f ls (emit (ObserveOp f ls n d))"

subsection \<open>Reading\<close>

text \<open>
  \<open>metricFloat\<close>, the value of a counter or gauge: the sum of what was added since it was last set,
  and 0 for a histogram. \<open>series\<close> is the set of label tuples for which a family has a time series.
\<close>

fun op_value :: "family \<Rightarrow> bytes list \<Rightarrow> metric_op \<Rightarrow> int \<Rightarrow> int" where
  "op_value f ls (AddOp g ks d) v = (if f = g \<and> ls = ks then v + d else v)"
| "op_value f ls (SetOp g x) v = (if f = g \<and> ls = [] then x else v)"
| "op_value f ls (ObserveOp g ks n d) v = v"

definition metric_value :: "family \<Rightarrow> bytes list \<Rightarrow> Registry \<Rightarrow> int" where
  "metric_value f ls m = fold (op_value f ls) (mr_ops m) 0"

fun op_series :: "metric_op \<Rightarrow> family \<times> bytes list" where
  "op_series (AddOp f ls _) = (f, ls)"
| "op_series (SetOp f _) = (f, [])"
| "op_series (ObserveOp f ls _ _) = (f, ls)"

definition series :: "family \<Rightarrow> Registry \<Rightarrow> bytes list set" where
  "series f m = {ls. (f, ls) \<in> op_series ` set (mr_ops m)}"

text \<open>
  What \<open>/metrics\<close> shows a family with: the library collects the families that have a time series,
  and one without labels has its only series from the start.
\<close>

definition exposed :: "family \<Rightarrow> Registry \<Rightarrow> bool" where
  "exposed f m \<longleftrightarrow> label_names f = [] \<or> series f m \<noteq> {}"

text \<open>
  A bucket of a histogram counts the observations of at most its bound; \<open>sample_count\<close> counts all.
\<close>

fun op_le :: "family \<Rightarrow> bytes list \<Rightarrow> int \<Rightarrow> metric_op \<Rightarrow> bool" where
  "op_le f ls b (ObserveOp g ks n d) = (f = g \<and> ls = ks \<and> n * 1000 \<le> b * d)"
| "op_le f ls b _ = False"

fun is_sample :: "family \<Rightarrow> bytes list \<Rightarrow> metric_op \<Rightarrow> bool" where
  "is_sample f ls (ObserveOp g ks n d) = (f = g \<and> ls = ks)"
| "is_sample f ls _ = False"

definition bucket_count :: "family \<Rightarrow> bytes list \<Rightarrow> int \<Rightarrow> Registry \<Rightarrow> nat" where
  "bucket_count f ls b m = length (filter (op_le f ls b) (mr_ops m))"

definition bucket_counts :: "family \<Rightarrow> bytes list \<Rightarrow> Registry \<Rightarrow> nat list" where
  "bucket_counts f ls m = map (\<lambda>b. bucket_count f ls b m) (buckets f)"

definition sample_count :: "family \<Rightarrow> bytes list \<Rightarrow> Registry \<Rightarrow> nat" where
  "sample_count f ls m = length (filter (is_sample f ls) (mr_ops m))"

named_theorems metric_simps "effect of metric operations on values and panics"

lemma metric_value_emit [metric_simps]:
  "metric_value f ls (emit op m) = op_value f ls op (metric_value f ls m)"
  by (simp add: metric_value_def emit_def)

lemma metric_value_panicked [metric_simps]:
  "metric_value f ls (m\<lparr>mr_panicked := p\<rparr>) = metric_value f ls m"
  by (simp add: metric_value_def)

lemma series_emit [metric_simps]:
  "series f (emit op m) =
     series f m \<union> (if fst (op_series op) = f then {snd (op_series op)} else {})"
  by (cases op) (auto simp: series_def emit_def)

lemma series_panicked [metric_simps]: "series f (m\<lparr>mr_panicked := p\<rparr>) = series f m"
  by (simp add: series_def)

lemma panicked_emit [metric_simps]: "mr_panicked (emit op m) = mr_panicked m"
  by (simp add: emit_def)

lemmas metric_op_defs =
  Counter_Add_def Counter_Inc_def Gauge_Add_def Gauge_Inc_def Gauge_Dec_def Histogram_Observe_def
  with_labels_def

text \<open>One family at a time: the others never move, whatever the labels.\<close>

lemma metric_value_other [metric_simps]:
  "f \<noteq> g \<Longrightarrow> metric_value f ls (Counter_Inc g ks m) = metric_value f ls m"
  "f \<noteq> g \<Longrightarrow> metric_value f ls (Counter_Add g ks d m) = metric_value f ls m"
  "metric_value f ls (Histogram_Observe g ks n e m) = metric_value f ls m"
  by (simp_all add: metric_op_defs metric_value_emit metric_value_panicked)

lemma metric_value_ops [metric_simps]:
  "labels_fit g ks \<Longrightarrow>
   metric_value f ls (Counter_Inc g ks m) = metric_value f ls m + (if f = g \<and> ls = ks then 1 else 0)"
  "labels_fit g ks \<Longrightarrow> 0 \<le> d \<Longrightarrow>
   metric_value f ls (Counter_Add g ks d m) = metric_value f ls m + (if f = g \<and> ls = ks then d else 0)"
  "metric_value f ls (Gauge_Inc g m) = metric_value f ls m + (if f = g \<and> ls = [] then 1 else 0)"
  "metric_value f ls (Gauge_Dec g m) = metric_value f ls m - (if f = g \<and> ls = [] then 1 else 0)"
  by (auto simp: metric_op_defs metric_value_emit metric_value_panicked)

lemma panicked_ops [metric_simps]:
  "labels_fit g ks \<Longrightarrow> mr_panicked (Counter_Inc g ks m) = mr_panicked m"
  "labels_fit g ks \<Longrightarrow> 0 \<le> d \<Longrightarrow> mr_panicked (Counter_Add g ks d m) = mr_panicked m"
  "mr_panicked (Gauge_Inc g m) = mr_panicked m"
  "mr_panicked (Gauge_Dec g m) = mr_panicked m"
  "labels_fit g ks \<Longrightarrow> mr_panicked (Histogram_Observe g ks n e m) = mr_panicked m"
  by (simp_all add: metric_op_defs panicked_emit)

lemma series_other [metric_simps]:
  "f \<noteq> g \<Longrightarrow> series f (Counter_Inc g ks m) = series f m"
  "f \<noteq> g \<Longrightarrow> series f (Counter_Add g ks d m) = series f m"
  "f \<noteq> g \<Longrightarrow> series f (Histogram_Observe g ks n e m) = series f m"
  by (auto simp: metric_op_defs series_emit series_panicked)

lemma series_ops [metric_simps]:
  "labels_fit g ks \<Longrightarrow>
     series f (Counter_Inc g ks m) = series f m \<union> (if g = f then {ks} else {})"
  "labels_fit g ks \<Longrightarrow> 0 \<le> d \<Longrightarrow>
     series f (Counter_Add g ks d m) = series f m \<union> (if g = f then {ks} else {})"
  "series f (Gauge_Inc g m) = series f m \<union> (if g = f then {[]} else {})"
  "series f (Gauge_Dec g m) = series f m \<union> (if g = f then {[]} else {})"
  "labels_fit g ks \<Longrightarrow>
     series f (Histogram_Observe g ks n e m) = series f m \<union> (if g = f then {ks} else {})"
  by (auto simp: metric_op_defs series_emit)

lemma series_grow:
  "series f (Counter_Inc g ks m) \<subseteq> series f m \<union> (if g = f then {ks} else {})"
  "series f (Histogram_Observe g ks n e m) \<subseteq> series f m \<union> (if g = f then {ks} else {})"
  by (auto simp: metric_op_defs series_emit series_panicked)

subsection \<open>Histograms, and what is exposed\<close>

lemma sample_count_emit [metric_simps]:
  "sample_count f ls (emit op m) = sample_count f ls m + (if is_sample f ls op then 1 else 0)"
  by (simp add: sample_count_def emit_def)

lemma sample_count_panicked [metric_simps]:
  "sample_count f ls (m\<lparr>mr_panicked := p\<rparr>) = sample_count f ls m"
  by (simp add: sample_count_def)

lemma sample_count_ops [metric_simps]:
  "sample_count f ls (Counter_Inc g ks m) = sample_count f ls m"
  "sample_count f ls (Counter_Add g ks d m) = sample_count f ls m"
  "sample_count f ls (Gauge_Inc g m) = sample_count f ls m"
  "sample_count f ls (Gauge_Dec g m) = sample_count f ls m"
  "labels_fit g ks \<Longrightarrow> sample_count f ls (Histogram_Observe g ks n e m) =
     sample_count f ls m + (if f = g \<and> ls = ks then 1 else 0)"
  by (simp_all add: metric_op_defs sample_count_emit sample_count_panicked)

lemma sorted_defaultBuckets: "sorted defaultBuckets"
  by (simp add: defaultBuckets_def)

text \<open>
  The buckets are cumulative for observations of a positive denominator, which is all that the
  program makes, and no bucket exceeds the count.
\<close>

lemma op_le_mono: "b \<le> b' \<Longrightarrow> \<forall>g ks n d. op = ObserveOp g ks n d \<longrightarrow> 0 < d \<Longrightarrow>
    op_le f ls b op \<Longrightarrow> op_le f ls b' op"
  by (cases op) (auto intro: order_trans mult_right_mono)

lemma bucket_count_mono:
  assumes "b \<le> b'" and "\<And>g ks n d. ObserveOp g ks n d \<in> set (mr_ops m) \<Longrightarrow> 0 < d"
  shows "bucket_count f ls b m \<le> bucket_count f ls b' m"
    and "bucket_count f ls b m \<le> sample_count f ls m"
proof -
  have le: "length (filter P xs) \<le> length (filter Q xs)" if "\<And>x. x \<in> set xs \<Longrightarrow> P x \<Longrightarrow> Q x"
    for P Q and xs :: "metric_op list"
    using that by (induction xs) (auto intro: le_SucI)
  show "bucket_count f ls b m \<le> bucket_count f ls b' m"
    unfolding bucket_count_def
  proof (rule le)
    fix op assume "op \<in> set (mr_ops m)" and "op_le f ls b op"
    then show "op_le f ls b' op" using assms(2) op_le_mono [OF assms(1)] by metis
  qed
  show "bucket_count f ls b m \<le> sample_count f ls m"
    unfolding bucket_count_def sample_count_def
  proof (rule le)
    fix op assume "op_le f ls b op"
    then show "is_sample f ls op" by (cases op) simp_all
  qed
qed

lemma bucket_counts_sorted:
  assumes "\<And>g ks n d. ObserveOp g ks n d \<in> set (mr_ops m) \<Longrightarrow> 0 < d"
  shows "sorted (bucket_counts f ls m)"
  unfolding bucket_counts_def buckets_def using sorted_defaultBuckets
  by (auto simp: sorted_iff_nth_mono bucket_count_mono(1) [OF _ assms])

text \<open>At the start only the two families without labels are exposed.\<close>

lemma exposed_initially: "exposed f NewRegistry \<longleftrightarrow> f = InFlight \<or> f = RateLimited"
  by (cases f) (simp_all add: exposed_def series_def NewRegistry_def)

end
