(* ===== verification/ServerState.thy ===== *)
theory ServerState
  imports StatusWriter RequestId Metrics AuditLog RateLimit AuthSource
begin

text \<open>
  The state that the handlers share and pass along: the structured log, the metrics, the audit
  logger, the rate limiter, the authentication source and the clock, and for the request being
  served its response writer. Operations on the parts are lifted here once, with the rules
  (\<open>frame_simps\<close>) that say which other parts they leave alone.
\<close>

subsection \<open>Structured logging\<close>

text \<open>\<open>log/slog\<close> levels, ordered by severity; the process's handler keeps Info and above.\<close>

datatype log_level = LDebug | LInfo | LWarn | LError

fun level_value :: "log_level \<Rightarrow> int" where
  "level_value LDebug = - 4"
| "level_value LInfo = 0"
| "level_value LWarn = 4"
| "level_value LError = 8"

instantiation log_level :: linorder
begin

definition less_eq_log_level :: "log_level \<Rightarrow> log_level \<Rightarrow> bool" where
  "less_eq_log_level a b \<longleftrightarrow> level_value a \<le> level_value b"

definition less_log_level :: "log_level \<Rightarrow> log_level \<Rightarrow> bool" where
  "less_log_level a b \<longleftrightarrow> level_value a < level_value b"

instance
proof
  fix a b :: log_level
  show "a \<le> b \<Longrightarrow> b \<le> a \<Longrightarrow> a = b"
    by (cases a; cases b) (simp_all add: less_eq_log_level_def)
qed (auto simp: less_eq_log_level_def less_log_level_def)

end

datatype attr = AText bytes | ANum int | ABool bool

record log_entry =
  le_level :: log_level
  le_msg :: bytes
  le_attrs :: "(bytes \<times> attr) list"

subsection \<open>The shared state, and the state while a request is served\<close>

record ('l, 'b, 'v) shared =
  sh_logs :: "log_entry list"
  sh_metrics :: Registry
  sh_audit :: Logger
  sh_limiter :: "('l, 'b) Limiter"
  sh_auth :: 'v
  sh_ticks :: nat

record ('l, 'b, 'v) server = "('l, 'b, 'v) shared" +
  sv_w :: statusWriter

text \<open>
  The runtime around the gateway: the clock as the sequence of its readings in nanoseconds,
  the text of an instant (RFC 3339), SHA-256, and the rate limiter's library.
\<close>

record ('l, 'b) runtime =
  rtm_clock :: "nat \<Rightarrow> int"
  rtm_rfc3339 :: "int \<Rightarrow> bytes"
  rtm_sha256 :: "bytes \<Rightarrow> bytes"
  rtm_lib :: "('l, 'b) rate_lib"

definition enter :: "Conn \<Rightarrow> ('l, 'b, 'v) shared \<Rightarrow> ('l, 'b, 'v) server" where
  "enter c sh =
     \<lparr>sh_logs = sh_logs sh, sh_metrics = sh_metrics sh, sh_audit = sh_audit sh,
      sh_limiter = sh_limiter sh, sh_auth = sh_auth sh, sh_ticks = sh_ticks sh,
      sv_w = new_statusWriter c\<rparr>"

definition leave :: "('l, 'b, 'v) server \<Rightarrow> Conn \<times> ('l, 'b, 'v) shared" where
  "leave s =
     (sw_inner (sv_w s),
      \<lparr>sh_logs = sh_logs s, sh_metrics = sh_metrics s, sh_audit = sh_audit s,
       sh_limiter = sh_limiter s, sh_auth = sh_auth s, sh_ticks = sh_ticks s\<rparr>)"

subsection \<open>Operations\<close>

definition log_at ::
  "log_level \<Rightarrow> bytes \<Rightarrow> (bytes \<times> attr) list \<Rightarrow> ('l, 'b, 'v, 'z) shared_scheme
   \<Rightarrow> ('l, 'b, 'v, 'z) shared_scheme" where
  "log_at lv msg attrs s =
     (if LInfo \<le> lv
      then s\<lparr>sh_logs := sh_logs s @ [\<lparr>le_level = lv, le_msg = msg, le_attrs = attrs\<rparr>]\<rparr>
      else s)"

text \<open>\<open>time.Now()\<close>.\<close>

definition time_now ::
  "('l, 'b) runtime \<Rightarrow> ('l, 'b, 'v, 'z) shared_scheme \<Rightarrow> int \<times> ('l, 'b, 'v, 'z) shared_scheme" where
  "time_now rt s = (rtm_clock rt (sh_ticks s), s\<lparr>sh_ticks := Suc (sh_ticks s)\<rparr>)"

definition on_metrics ::
  "(Registry \<Rightarrow> Registry) \<Rightarrow> ('l, 'b, 'v, 'z) shared_scheme \<Rightarrow> ('l, 'b, 'v, 'z) shared_scheme" where
  "on_metrics f s = s\<lparr>sh_metrics := f (sh_metrics s)\<rparr>"

definition on_writer ::
  "(statusWriter \<Rightarrow> statusWriter) \<Rightarrow> ('l, 'b, 'v) server \<Rightarrow> ('l, 'b, 'v) server" where
  "on_writer f s = s\<lparr>sv_w := f (sv_w s)\<rparr>"

lemma LInfo_le [simp]: "LInfo \<le> LInfo" "LInfo \<le> LWarn" "LInfo \<le> LError" "\<not> LInfo \<le> LDebug"
  by (simp_all add: less_eq_log_level_def)

lemma log_at_frame [frame_simps]:
  "sh_metrics (log_at lv m a s) = sh_metrics s"
  "sh_audit (log_at lv m a s) = sh_audit s"
  "sh_limiter (log_at lv m a s) = sh_limiter s"
  "sh_auth (log_at lv m a s) = sh_auth s"
  "sh_ticks (log_at lv m a s) = sh_ticks s"
  by (simp_all add: log_at_def)

lemma log_at_writer [frame_simps]: "sv_w (log_at lv m a s) = sv_w s"
  by (simp add: log_at_def)

lemma log_at_logs [frame_simps]:
  "LInfo \<le> lv \<Longrightarrow>
   sh_logs (log_at lv m a s) = sh_logs s @ [\<lparr>le_level = lv, le_msg = m, le_attrs = a\<rparr>]"
  by (simp add: log_at_def)

lemma on_metrics_frame [frame_simps]:
  "sh_metrics (on_metrics f s) = f (sh_metrics s)"
  "sh_logs (on_metrics f s) = sh_logs s"
  "sh_audit (on_metrics f s) = sh_audit s"
  "sh_limiter (on_metrics f s) = sh_limiter s"
  "sh_auth (on_metrics f s) = sh_auth s"
  "sh_ticks (on_metrics f s) = sh_ticks s"
  by (simp_all add: on_metrics_def)

lemma on_metrics_writer [frame_simps]: "sv_w (on_metrics f s) = sv_w s"
  by (simp add: on_metrics_def)

lemma on_writer_frame [frame_simps]:
  "sv_w (on_writer f s) = f (sv_w s)"
  "sh_metrics (on_writer f s) = sh_metrics s"
  "sh_logs (on_writer f s) = sh_logs s"
  "sh_audit (on_writer f s) = sh_audit s"
  "sh_limiter (on_writer f s) = sh_limiter s"
  "sh_auth (on_writer f s) = sh_auth s"
  "sh_ticks (on_writer f s) = sh_ticks s"
  by (simp_all add: on_writer_def)

lemma time_now_frame [frame_simps]:
  "fst (time_now rt s) = rtm_clock rt (sh_ticks s)"
  "sh_metrics (snd (time_now rt s)) = sh_metrics s"
  "sh_logs (snd (time_now rt s)) = sh_logs s"
  "sh_audit (snd (time_now rt s)) = sh_audit s"
  "sh_limiter (snd (time_now rt s)) = sh_limiter s"
  "sh_auth (snd (time_now rt s)) = sh_auth s"
  "sh_ticks (snd (time_now rt s)) = Suc (sh_ticks s)"
  by (simp_all add: time_now_def)

lemma time_now_writer [frame_simps]: "sv_w (snd (time_now rt s)) = sv_w s"
  by (simp add: time_now_def)

lemma enter_simps [frame_simps]:
  "sv_w (enter c sh) = new_statusWriter c"
  "sh_metrics (enter c sh) = sh_metrics sh"
  "sh_logs (enter c sh) = sh_logs sh"
  "sh_audit (enter c sh) = sh_audit sh"
  "sh_limiter (enter c sh) = sh_limiter sh"
  "sh_auth (enter c sh) = sh_auth sh"
  "sh_ticks (enter c sh) = sh_ticks sh"
  by (simp_all add: enter_def)

lemma leave_simps [frame_simps]:
  "fst (leave s) = sw_inner (sv_w s)"
  "sh_metrics (snd (leave s)) = sh_metrics s"
  "sh_logs (snd (leave s)) = sh_logs s"
  "sh_audit (snd (leave s)) = sh_audit s"
  "sh_limiter (snd (leave s)) = sh_limiter s"
  "sh_auth (snd (leave s)) = sh_auth s"
  "sh_ticks (snd (leave s)) = sh_ticks s"
  by (simp_all add: leave_def)

end
