(* ===== verification/Problem.thy ===== *)
theory Problem
  imports ServerState
begin

text \<open>
  \<open>internal/server/problem.go\<close> and the title table of \<open>server.go\<close>: every error of the server
  package leaves as an RFC 7807 document through \<open>writeProblem\<close>.
\<close>

definition instanceURI :: "bytes \<Rightarrow> bytes \<Rightarrow> bytes" where
  "instanceURI path reqID = (if reqID = [] then path else path @ ''#'' @ reqID)"

text \<open>The document for a request, as both packages that write problems fill it.\<close>

definition problem_for :: "Request \<Rightarrow> int \<Rightarrow> bytes \<Rightarrow> bytes \<Rightarrow> Problem" where
  "problem_for r status title detail =
     \<lparr>pb_Type = [], pb_Title = title, pb_Status = status, pb_Detail = detail,
      pb_Instance = instanceURI (rq_Path r) (FromContext r), pb_RequestID = FromContext r\<rparr>"

text \<open>
  A problem consists of strings and integers, so \<open>json.Marshal\<close> does not fail and the plain
  text branch of the code is dead.
\<close>

definition writeProblem_w ::
  "Request \<Rightarrow> int \<Rightarrow> bytes \<Rightarrow> bytes \<Rightarrow> statusWriter \<Rightarrow> statusWriter" where
  "writeProblem_w r status title detail w0 =
     (let reqID = FromContext r;
          body = encode (Problem_json (problem_for r status title detail));
          w1 = sw_Header_Set ''Content-Type'' ProblemContentType w0;
          w2 = (if reqID \<noteq> [] then sw_Header_Set HeaderName reqID w1 else w1);
          w3 = sw_WriteHeader status w2
      in snd (sw_Write body w3))"

definition writeProblem ::
  "Request \<Rightarrow> int \<Rightarrow> bytes \<Rightarrow> bytes \<Rightarrow> ('l, 'b, 'v) server \<Rightarrow> ('l, 'b, 'v) server" where
  "writeProblem r status title detail = on_writer (writeProblem_w r status title detail)"

definition problemTitles :: "(int \<times> bytes) list" where
  "problemTitles =
     [(400, ''Bad Request''), (415, ''Unsupported Media Type''), (413, ''Payload Too Large''),
      (429, ''Too Many Requests''), (500, ''Internal Server Error''), (502, ''Bad Gateway'')]"

definition problemTitleFor :: "int \<Rightarrow> bytes" where
  "problemTitleFor status =
     (case map_of problemTitles status of Some t \<Rightarrow> t | None \<Rightarrow> StatusText status)"

subsection \<open>What a problem response looks like\<close>

lemma writeProblem_w_ok: "sw_ok w \<Longrightarrow> sw_ok (writeProblem_w r status title detail w)"
  by (simp add: writeProblem_w_def Let_def sw_ok_intros)

lemma writeProblem_w_sent:
  assumes "sw_ok w" and "sw_sent w = None"
  shows "\<exists>h. sw_sent (writeProblem_w r status title detail w) = Some (status, h) \<and>
    h ''Content-Type'' = Some ProblemContentType \<and>
    (FromContext r \<noteq> [] \<longrightarrow> h HeaderName = Some (FromContext r))"
  using sw_ok_fresh [OF assms] assms(2)
  by (simp add: writeProblem_w_def Let_def writer_simps HeaderName_def)

lemma writeProblem_w_committed:
  assumes "sw_ok w" and "sw_sent w = Some x"
  shows "sw_sent (writeProblem_w r status title detail w) = Some x"
  using assms sw_ok_wrote [OF assms(1)]
  by (simp add: writeProblem_w_def Let_def writer_simps)

lemma writeProblem_w_body:
  assumes "c_fault (sw_inner w) (c_writes (sw_inner w)) = None"
  shows "sw_body (writeProblem_w r status title detail w) =
    sw_body w @ encode (Problem_json (problem_for r status title detail))"
  using assms by (simp add: writeProblem_w_def Let_def writer_simps)

lemma writeProblem_frame [frame_simps]:
  "sv_w (writeProblem r st t d s) = writeProblem_w r st t d (sv_w s)"
  "sh_metrics (writeProblem r st t d s) = sh_metrics s"
  "sh_logs (writeProblem r st t d s) = sh_logs s"
  "sh_audit (writeProblem r st t d s) = sh_audit s"
  "sh_limiter (writeProblem r st t d s) = sh_limiter s"
  "sh_auth (writeProblem r st t d s) = sh_auth s"
  "sh_ticks (writeProblem r st t d s) = sh_ticks s"
  by (simp_all add: writeProblem_def frame_simps)

lemma problemTitleFor_values [simp]:
  "problemTitleFor 400 = ''Bad Request''" "problemTitleFor 413 = ''Payload Too Large''"
  "problemTitleFor 415 = ''Unsupported Media Type''" "problemTitleFor 429 = ''Too Many Requests''"
  "problemTitleFor 500 = ''Internal Server Error''" "problemTitleFor 502 = ''Bad Gateway''"
  "problemTitleFor 503 = ''Service Unavailable''"
  by (simp_all add: problemTitleFor_def problemTitles_def StatusText_def status_texts_def)

end
