(* ===== verification/AuthMiddleware.thy ===== *)
theory AuthMiddleware
  imports Problem
begin

text \<open>
  \<open>internal/auth/middleware.go\<close>: the bearer-token check in front of every handler. It works for
  any \<open>Validator\<close>: the theorems are proved in the locale \<open>validator\<close> and hold for the
  file-backed source through its interpretation.
\<close>

definition bearerScheme :: bytes where
  "bearerScheme = ''bearer''"

definition extractBearer :: "bytes \<Rightarrow> bytes + bytes" where
  "extractBearer header =
     (if header = [] then Inl ''missing Authorization header''
      else case cut (CHR '' '') header of
             None \<Rightarrow> Inl ''malformed Authorization header''
           | Some (scheme, rest) \<Rightarrow>
               if \<not> equal_fold scheme bearerScheme
               then Inl ''unsupported authorization scheme, expected Bearer''
               else let token = trim_space rest in
                    if token = [] then Inl ''empty bearer token'' else Inr token)"

text \<open>The package's own copy of \<open>writeProblem\<close>, with the challenge that a 401 carries.\<close>

definition auth_writeProblem_w ::
  "Request \<Rightarrow> int \<Rightarrow> bytes \<Rightarrow> bytes \<Rightarrow> statusWriter \<Rightarrow> statusWriter" where
  "auth_writeProblem_w r status title detail w0 =
     (let reqID = FromContext r;
          inst = (if reqID \<noteq> [] then rq_Path r @ ''#'' @ reqID else rq_Path r);
          body = encode (Problem_json
            \<lparr>pb_Type = [], pb_Title = title, pb_Status = status, pb_Detail = detail,
             pb_Instance = inst, pb_RequestID = reqID\<rparr>);
          w1 = sw_Header_Set ''Content-Type'' ProblemContentType w0;
          w2 = (if reqID \<noteq> [] then sw_Header_Set HeaderName reqID w1 else w1);
          w3 = (if status = 401
                then sw_Header_Set ''WWW-Authenticate''
                       (''Bearer realm='' @ [quote_char] @ ''opencost-ai'' @ [quote_char]) w2
                else w2);
          w4 = sw_WriteHeader status w3
      in snd (sw_Write body w4))"

definition auth_writeProblem ::
  "Request \<Rightarrow> int \<Rightarrow> bytes \<Rightarrow> bytes \<Rightarrow> ('l, 'b, 'v) server \<Rightarrow> ('l, 'b, 'v) server" where
  "auth_writeProblem r status title detail =
     on_writer (auth_writeProblem_w r status title detail)"

text \<open>
  \<open>Middleware\<close>: \<open>validate ob\<close> is \<open>v.Validate\<close> in the environment \<open>ob\<close> of this call, with the
  validator's state inside the server's.
\<close>

definition auth_Middleware ::
  "('o \<Rightarrow> bytes \<Rightarrow> 'v \<Rightarrow> auth_error option \<times> 'v) \<Rightarrow> 'o
   \<Rightarrow> (Request \<Rightarrow> ('l, 'b, 'v) server \<Rightarrow> ('l, 'b, 'v) server)
   \<Rightarrow> Request \<Rightarrow> ('l, 'b, 'v) server \<Rightarrow> ('l, 'b, 'v) server" where
  "auth_Middleware validate ob next_handler r s =
     (case extractBearer (header_get r ''Authorization'') of
        Inl e \<Rightarrow>
          auth_writeProblem r 401 ''Unauthorized'' e
            (log_at LWarn ''auth header rejected''
               [(''remote'', AText (rq_RemoteAddr r)), (''path'', AText (rq_Path r)),
                (''err'', AText e)] s)
      | Inr token \<Rightarrow>
          (case validate ob token (sh_auth s) of
             (verdict, v') \<Rightarrow>
               let s' = s\<lparr>sh_auth := v'\<rparr> in
               case verdict of
                 None \<Rightarrow> next_handler r s'
               | Some (ErrNoToken d) \<Rightarrow>
                   auth_writeProblem r 503 ''Service Unavailable''
                     ''authentication is not configured on this gateway''
                     (log_at LError ''auth: no token configured''
                        [(''path'', AText (rq_Path r)),
                         (''err'', AText (auth_error_text (ErrNoToken d)))] s')
               | Some ErrInvalidToken \<Rightarrow>
                   auth_writeProblem r 401 ''Unauthorized'' ''invalid bearer token''
                     (log_at LWarn ''auth: invalid token''
                        [(''remote'', AText (rq_RemoteAddr r)), (''path'', AText (rq_Path r))] s')
               | Some (OtherError e) \<Rightarrow>
                   auth_writeProblem r 500 ''Internal Server Error'' ''authentication check failed''
                     (log_at LError ''auth: validator error''
                        [(''path'', AText (rq_Path r)), (''err'', AText e)] s')))"

subsection \<open>Lemmas\<close>

lemma auth_writeProblem_frame [frame_simps]:
  "sv_w (auth_writeProblem r st t d s) = auth_writeProblem_w r st t d (sv_w s)"
  "sh_metrics (auth_writeProblem r st t d s) = sh_metrics s"
  "sh_logs (auth_writeProblem r st t d s) = sh_logs s"
  "sh_audit (auth_writeProblem r st t d s) = sh_audit s"
  "sh_limiter (auth_writeProblem r st t d s) = sh_limiter s"
  "sh_auth (auth_writeProblem r st t d s) = sh_auth s"
  "sh_ticks (auth_writeProblem r st t d s) = sh_ticks s"
  by (simp_all add: auth_writeProblem_def frame_simps)

lemma auth_writeProblem_w_ok: "sw_ok w \<Longrightarrow> sw_ok (auth_writeProblem_w r status title detail w)"
  by (simp add: auth_writeProblem_w_def Let_def sw_ok_intros)

text \<open>The challenge header of a 401.\<close>

definition challenge :: bytes where
  "challenge = ''Bearer realm='' @ [quote_char] @ ''opencost-ai'' @ [quote_char]"

lemma sw_WriteHeader_fresh:
  "\<not> sw_wroteHeader w \<Longrightarrow>
   sw_WriteHeader code w =
     w\<lparr>sw_status := code, sw_wroteHeader := True, sw_inner := conn_write_header code (sw_inner w)\<rparr>"
  by (simp add: sw_WriteHeader_def)

lemma set_challenge_commutes:
  "k \<noteq> k' \<Longrightarrow> sw_Header_Set k v (sw_Header_Set k' v' w) = sw_Header_Set k' v' (sw_Header_Set k v w)"
  by (simp add: sw_Header_Set_def conn_set_header_def fun_upd_twist)

text \<open>The two copies of \<open>writeProblem\<close> agree: the auth one only adds the challenge to a 401.\<close>

lemma auth_problem_is_problem:
  "auth_writeProblem_w r status title detail w =
     writeProblem_w r status title detail
       (if status = 401 then sw_Header_Set ''WWW-Authenticate'' challenge w else w)"
  by (simp add: auth_writeProblem_w_def writeProblem_w_def problem_for_def instanceURI_def
      challenge_def Let_def set_challenge_commutes HeaderName_def)

text \<open>What an outcome other than success leaves: a problem, and no run of the next handler.\<close>

definition refusal :: "int \<Rightarrow> bytes \<Rightarrow> auth_error \<Rightarrow> bool" where
  "refusal status detail e \<longleftrightarrow>
     (case e of
        ErrNoToken _ \<Rightarrow> status = 503 \<and> detail = ''authentication is not configured on this gateway''
      | ErrInvalidToken \<Rightarrow> status = 401 \<and> detail = ''invalid bearer token''
      | OtherError _ \<Rightarrow> status = 500 \<and> detail = ''authentication check failed'')"

lemma middleware_no_header:
  "extractBearer (header_get r ''Authorization'') = Inl e \<Longrightarrow>
   sv_w (auth_Middleware validate ob nxt r s) = auth_writeProblem_w r 401 ''Unauthorized'' e (sv_w s)"
  by (simp add: auth_Middleware_def frame_simps)

lemma middleware_refused:
  assumes "extractBearer (header_get r ''Authorization'') = Inr token"
    and "fst (validate ob token (sh_auth s)) = Some e"
  shows "\<exists>status title detail. refusal status detail e \<and>
    sv_w (auth_Middleware validate ob nxt r s) = auth_writeProblem_w r status title detail (sv_w s)"
  using assms
  by (cases e; cases "validate ob token (sh_auth s)")
    (auto simp: auth_Middleware_def refusal_def frame_simps)

lemma middleware_accepted:
  assumes "extractBearer (header_get r ''Authorization'') = Inr token"
    and "fst (validate ob token (sh_auth s)) = None"
  shows "auth_Middleware validate ob nxt r s =
    nxt r (s\<lparr>sh_auth := snd (validate ob token (sh_auth s))\<rparr>)"
  using assms by (cases "validate ob token (sh_auth s)") (simp add: auth_Middleware_def)

context validator
begin

text \<open>The next handler only ever runs with the admitted credential in its state.\<close>

lemma middleware_guards:
  assumes "\<And>s'. holds (sh_auth s') = Some token \<Longrightarrow> P (nxt r s')"
    and "extractBearer (header_get r ''Authorization'') = Inr token"
    and "fst (validate ob token (sh_auth s)) = None"
  shows "P (auth_Middleware validate ob nxt r s)"
  using assms(1) [of "s\<lparr>sh_auth := snd (validate ob token (sh_auth s))\<rparr>"]
    accepted [OF assms(3)] middleware_accepted [OF assms(2), of validate ob s nxt] assms(3)
  by simp

end

lemma Validate_no_other_error: "fst (Validate ob token src) \<noteq> Some (OtherError t)"
  using reload_error_kind [of ob src]
  by (auto simp: Validate_cases compare_token_def split: option.splits if_splits)

lemma extractBearer_nonempty: "extractBearer h = Inr t \<Longrightarrow> t \<noteq> []"
  by (auto simp: extractBearer_def Let_def split: if_splits option.splits)

text \<open>C2: no request reaches a handler without the token on file: when the wrapped handler is run,
  it is run on a state whose source holds exactly the credential of the \<open>Authorization\<close>
  header, and in every other case the response is that of a handler that does nothing,
  with status 401 or 503 as sent by the middleware.\<close>

theorem auth_guards_handlers:
  assumes "sw_ok (sv_w s)" and "sw_sent (sv_w s) = None"
  shows "(\<exists>token s'. extractBearer (header_get r ''Authorization'') = Inr token \<and>
      source_holds (sh_auth s') = Some token \<and>
      auth_Middleware Validate ob nxt r s = nxt r s') \<or>
    (\<exists>code h. code \<in> {401, 503} \<and>
      sw_sent (sv_w (auth_Middleware Validate ob nxt r s)) = Some (code, h) \<and>
      (code = 401 \<longrightarrow> h ''WWW-Authenticate'' = Some challenge))"
proof -
  have sent: "\<exists>h. sw_sent (auth_writeProblem_w r code title detail (sv_w s)) = Some (code, h) \<and>
      (code = 401 \<longrightarrow> h ''WWW-Authenticate'' = Some challenge)" for code title detail
    using sw_ok_fresh [OF assms] assms(2)
    by (simp add: auth_writeProblem_w_def Let_def writer_simps challenge_def)
  show ?thesis
  proof (cases "extractBearer (header_get r ''Authorization'')")
    case (Inl e)
    then show ?thesis
      using sent [of 401 "''Unauthorized''" e] middleware_no_header [OF Inl, of Validate ob nxt s]
      by auto
  next
    case (Inr token)
    show ?thesis
    proof (cases "fst (Validate ob token (sh_auth s))")
      case None
      then have "auth_Middleware Validate ob nxt r s =
          nxt r (s\<lparr>sh_auth := snd (Validate ob token (sh_auth s))\<rparr>)"
        using middleware_accepted [OF Inr, of Validate ob s nxt] by simp
      then show ?thesis using Inr source.accepted [OF None]
        by (intro disjI1 exI [of _ token]
            exI [of _ "s\<lparr>sh_auth := snd (Validate ob token (sh_auth s))\<rparr>"]) simp
    next
      case (Some e)
      have "e \<noteq> OtherError t" for t
        using Some Validate_no_other_error by blast
      moreover obtain code title detail where "refusal code detail e"
        and w: "sv_w (auth_Middleware Validate ob nxt r s) =
          auth_writeProblem_w r code title detail (sv_w s)"
        using middleware_refused [OF Inr, of Validate ob s e nxt] Some by blast
      ultimately have "code \<in> {401, 503}" by (cases e) (auto simp: refusal_def)
      then show ?thesis using sent [of code title detail] unfolding w by blast
    qed
  qed
qed

lemma auth_problem_ignores_headers:
  "auth_writeProblem_w (r\<lparr>rq_Header := h\<rparr>) = auth_writeProblem_w r"
  by (intro ext) (simp add: auth_writeProblem_w_def FromContext_def Let_def cong: if_cong)

text \<open>C34: a refused token leaves no trace: two requests that differ only in their bearer tokens,
  both of them invalid, leave the very same state: the same log, response, metrics and audit.\<close>

theorem invalid_token_leaves_no_trace:
  assumes "extractBearer a = Inr t" and "extractBearer b = Inr u"
    and "fst (Validate ob t (sh_auth s)) = Some ErrInvalidToken"
    and "fst (Validate ob u (sh_auth s)) = Some ErrInvalidToken"
  shows "auth_Middleware Validate ob nxt (r\<lparr>rq_Header := (rq_Header r)(''Authorization'' := [a])\<rparr>) s =
    auth_Middleware Validate ob nxt (r\<lparr>rq_Header := (rq_Header r)(''Authorization'' := [b])\<rparr>) s"
proof -
  have "Validate ob t (sh_auth s) = Validate ob u (sh_auth s)"
    using assms(3,4) source.same_effect [of ob t "sh_auth s" u] by (simp add: prod_eq_iff)
  then show ?thesis
    using assms(1,2,3)
    by (cases "Validate ob u (sh_auth s)")
      (simp add: auth_Middleware_def header_get_def auth_writeProblem_def
        auth_problem_ignores_headers)
qed

subsection \<open>Concrete requests\<close>

definition plain_request :: "bytes \<Rightarrow> Request" where
  "plain_request authorization =
     \<lparr>rq_Method = ''GET'', rq_Path = ''/v1/tools'',
      rq_Header = (\<lambda>k. if k = ''Authorization'' then [authorization] else []),
      rq_Body = [], rq_BodyError = None, rq_RemoteAddr = ''10.0.0.7:1'', rq_ctx_id = None\<rparr>"

definition fresh_server :: "('l, 'b, Source) server" where
  "fresh_server =
     enter (new_conn True (\<lambda>_. None))
       \<lparr>sh_logs = [], sh_metrics = NewRegistry, sh_audit = NewLogger (\<lambda>_. None) False,
        sh_limiter = \<lparr>rl_perMinute = 0, rl_limit = None, rl_burst = 0, rl_limiters = Map.empty\<rparr>,
        sh_auth = loaded_source, sh_ticks = 0\<rparr>"

lemma fresh_server_writer:
  "sw_ok (sv_w fresh_server)" "sw_sent (sv_w fresh_server) = None"
  "sh_auth fresh_server = loaded_source"
  by (simp_all add: fresh_server_def frame_simps sw_ok_new new_conn_def)
    (simp add: new_statusWriter_def)

lemma basic_scheme_rejected:
  "extractBearer (header_get (plain_request ''Basic x'') ''Authorization'') =
     Inl ''unsupported authorization scheme, expected Bearer''"
  by code_simp

theorem auth_guards_handlers_witness:
  "\<exists>code h. code \<in> {401, 503 :: int} \<and>
     sw_sent (sv_w (auth_Middleware Validate \<lparr>ob_stat = Inl [], ob_read = Inl []\<rparr> (\<lambda>_ s. s)
       (plain_request ''Basic x'') fresh_server)) = Some (code, h)"
  using auth_guards_handlers [OF fresh_server_writer(1,2), of "plain_request ''Basic x''"
      "\<lparr>ob_stat = Inl [], ob_read = Inl []\<rparr>" "\<lambda>_ s. s"]
  unfolding basic_scheme_rejected by (elim disjE exE conjE) (simp, blast)

lemma sample_tokens:
  "extractBearer ''Bearer x'' = Inr ''x''" "extractBearer ''bearer y'' = Inr ''y''"
  by code_simp+

theorem invalid_token_leaves_no_trace_witness:
  "auth_Middleware Validate \<lparr>ob_stat = Inl [], ob_read = Inl []\<rparr> (\<lambda>_ s. s)
     ((plain_request [])\<lparr>rq_Header := (rq_Header (plain_request []))(''Authorization'' := [''Bearer x''])\<rparr>)
     fresh_server =
   auth_Middleware Validate \<lparr>ob_stat = Inl [], ob_read = Inl []\<rparr> (\<lambda>_ s. s)
     ((plain_request [])\<lparr>rq_Header := (rq_Header (plain_request []))(''Authorization'' := [''bearer y''])\<rparr>)
     fresh_server"
  by (rule invalid_token_leaves_no_trace [OF sample_tokens])
    (simp_all add: fresh_server_writer loaded_source_def Validate_def reloadIfChanged_def
      stat_failed_def compare_token_def)

end
