(* ===== verification/BridgeTypes.thy ===== *)
theory BridgeTypes
  imports ApiV1 JsonRoundTrip "HOL-Library.Word" "HOL-Library.Signed_Division" "HOL-Library.List_Lexorder"
begin

text \<open>
  \<open>internal/bridge/types.go\<close>: the Ollama-shaped messages that the gateway sends and receives,
  how \<open>encoding/json\<close> fills them, and the error type of the bridge client with its own
  integer formatting.
\<close>

subsection \<open>Values of type \<open>any\<close>\<close>

text \<open>
  What the standard library does that is not spelled out here: \<open>strconv.ParseFloat\<close> (\<open>None\<close> out
  of range), \<open>time.Time\<close>'s reading and writing of RFC 3339, the text of a decoding error and
  \<open>strconv.Quote\<close>.
\<close>

record codec =
  cd_parse_float :: "bytes \<Rightarrow> float64 option"
  cd_time :: "bytes \<Rightarrow> bytes option"
  cd_error_text :: "dec_error \<Rightarrow> bytes"
  cd_quote :: "bytes \<Rightarrow> bytes"

text \<open>A codec to evaluate examples with.\<close>

definition plain_codec :: codec where
  "plain_codec =
     \<lparr>cd_parse_float = (\<lambda>_. None), cd_time = (\<lambda>t. Some t), cd_error_text = (\<lambda>_. ''bad json''),
      cd_quote = (\<lambda>t. t)\<rparr>"

text \<open>A member of a Go map: sorted by key, the last value of a key counts.\<close>

fun put_member :: "bytes \<Rightarrow> json \<Rightarrow> (bytes \<times> json) list \<Rightarrow> (bytes \<times> json) list" where
  "put_member k v [] = [(k, v)]"
| "put_member k v ((k', v') # kvs) =
     (if k = k' then (k, v) # kvs
      else if k < k' then (k, v) # (k', v') # kvs
      else (k', v') # put_member k v kvs)"

fun to_any :: "codec \<Rightarrow> jval \<Rightarrow> json \<times> dec_error option"
and to_anys :: "codec \<Rightarrow> jval list \<Rightarrow> json list \<times> dec_error option"
and to_members ::
  "codec \<Rightarrow> (bytes \<times> jval) list \<Rightarrow> (bytes \<times> json) list \<Rightarrow> (bytes \<times> json) list \<times> dec_error option"
where
  "to_any cd VNull = (JNull, None)"
| "to_any cd (VBool b) = (JBool b, None)"
| "to_any cd (VNum t) =
     (case cd_parse_float cd t of
        Some x \<Rightarrow> (JFloat x, None)
      | None \<Rightarrow> (JNull, Some (WrongType [])))"
| "to_any cd (VStr s) = (JStr s, None)"
| "to_any cd (VArr vs) = (case to_anys cd vs of (xs, e) \<Rightarrow> (JArr xs, e))"
| "to_any cd (VObj kvs) = (case to_members cd kvs [] of (ms, e) \<Rightarrow> (JObj ms, e))"
| "to_anys cd [] = ([], None)"
| "to_anys cd (v # vs) =
     (case to_any cd v of
        (x, e) \<Rightarrow> (case to_anys cd vs of (xs, e') \<Rightarrow> (x # xs, first_error e e')))"
| "to_members cd [] m = (m, None)"
| "to_members cd ((k, v) # kvs) m =
     (case to_any cd v of
        (x, e) \<Rightarrow>
          (case to_members cd kvs (put_member k x m) of (m', e') \<Rightarrow> (m', first_error e e')))"

subsection \<open>Filling fields\<close>

text \<open>A field of a struct, a slice, a map, and a time.\<close>

definition store_in :: "('s \<Rightarrow> 'a) \<Rightarrow> ('a \<Rightarrow> 's \<Rightarrow> 's) \<Rightarrow> 'a store \<Rightarrow> 's store" where
  "store_in get upd st v s = (case st v (get s) of (x, e) \<Rightarrow> (upd x s, e))"

fun store_elems :: "'a \<Rightarrow> 'a store \<Rightarrow> jval list \<Rightarrow> 'a list \<Rightarrow> 'a list \<times> dec_error option" where
  "store_elems zero el [] xs = ([], None)"
| "store_elems zero el (v # vs) xs =
     (case el v (case xs of [] \<Rightarrow> zero | x # _ \<Rightarrow> x) of
        (y, e) \<Rightarrow>
          (case store_elems zero el vs (tl xs) of (ys, e') \<Rightarrow> (y # ys, first_error e e')))"

definition store_list :: "bytes \<Rightarrow> 'a \<Rightarrow> 'a store \<Rightarrow> 'a list store" where
  "store_list path zero el v xs =
     (case v of
        VArr vs \<Rightarrow> store_elems zero el vs xs
      | VNull \<Rightarrow> ([], None)
      | _ \<Rightarrow> (xs, Some (WrongType path)))"

definition store_map :: "codec \<Rightarrow> bytes \<Rightarrow> (bytes \<times> json) list option store" where
  "store_map cd path v m =
     (case v of
        VObj kvs \<Rightarrow>
          (case to_members cd kvs (case m of None \<Rightarrow> [] | Some m0 \<Rightarrow> m0) of (m', e) \<Rightarrow> (Some m', e))
      | VNull \<Rightarrow> (None, None)
      | _ \<Rightarrow> (m, Some (WrongType path)))"

definition store_time :: "codec \<Rightarrow> bytes store" where
  "store_time cd v t =
     (case v of
        VStr x \<Rightarrow> (case cd_time cd x of Some t' \<Rightarrow> (t', None) | None \<Rightarrow> (t, Some BadTime))
      | VNull \<Rightarrow> (t, None)
      | _ \<Rightarrow> (t, Some BadTime))"

subsection \<open>Messages\<close>

record ToolCallFunction =
  tf_Name :: bytes
  tf_Arguments :: "(bytes \<times> json) list option"

record BridgeToolCall =
  bt_Function :: ToolCallFunction

record Message =
  mg_Role :: bytes
  mg_Content :: bytes
  mg_ToolCalls :: "BridgeToolCall list"

definition zero_ToolCall :: BridgeToolCall where
  "zero_ToolCall = \<lparr>bt_Function = \<lparr>tf_Name = [], tf_Arguments = None\<rparr>\<rparr>"

definition zero_Message :: Message where
  "zero_Message = \<lparr>mg_Role = [], mg_Content = [], mg_ToolCalls = []\<rparr>"

definition ToolCallFunction_store :: "codec \<Rightarrow> ToolCallFunction store" where
  "ToolCallFunction_store cd =
     store_struct False ''function''
       [(''name'', store_str ''name'' (\<lambda>x f. f\<lparr>tf_Name := x\<rparr>)),
        (''arguments'',
         store_in tf_Arguments (\<lambda>x f. f\<lparr>tf_Arguments := x\<rparr>) (store_map cd ''arguments''))]"

definition BridgeToolCall_store :: "codec \<Rightarrow> BridgeToolCall store" where
  "BridgeToolCall_store cd =
     store_struct False ''tool_calls''
       [(''function'',
         store_in bt_Function (\<lambda>x t. t\<lparr>bt_Function := x\<rparr>) (ToolCallFunction_store cd))]"

definition Message_store :: "codec \<Rightarrow> Message store" where
  "Message_store cd =
     store_struct False ''message''
       [(''role'', store_str ''role'' (\<lambda>x m. m\<lparr>mg_Role := x\<rparr>)),
        (''content'', store_str ''content'' (\<lambda>x m. m\<lparr>mg_Content := x\<rparr>)),
        (''tool_calls'',
         store_in mg_ToolCalls (\<lambda>x m. m\<lparr>mg_ToolCalls := x\<rparr>)
           (store_list ''tool_calls'' zero_ToolCall (BridgeToolCall_store cd)))]"

definition ToolCallFunction_json :: "ToolCallFunction \<Rightarrow> json" where
  "ToolCallFunction_json f =
     JObj ([(''name'', JStr (tf_Name f))] @ args_field ''arguments'' (tf_Arguments f))"

definition BridgeToolCall_json :: "BridgeToolCall \<Rightarrow> json" where
  "BridgeToolCall_json t = JObj [(''function'', ToolCallFunction_json (bt_Function t))]"

definition Message_json :: "Message \<Rightarrow> json" where
  "Message_json m =
     JObj ([(''role'', JStr (mg_Role m)), (''content'', JStr (mg_Content m))]
       @ list_field ''tool_calls'' (map BridgeToolCall_json (mg_ToolCalls m)))"

subsection \<open>Requests and responses\<close>

record ChatRequest =
  cq_Model :: bytes
  cq_Messages :: "Message list"
  cq_Stream :: bool
  cq_Options :: "(bytes \<times> json) list option"

definition ChatRequest_json :: "ChatRequest \<Rightarrow> json" where
  "ChatRequest_json q =
     JObj ([(''model'', JStr (cq_Model q)),
            (''messages'', JArr (map Message_json (cq_Messages q))),
            (''stream'', JBool (cq_Stream q))]
       @ args_field ''options'' (cq_Options q))"

record ChatResponse =
  cp_Model :: bytes
  cp_CreatedAt :: bytes
  cp_Message :: Message
  cp_Done :: bool
  cp_DoneReason :: bytes
  cp_TotalDuration :: int
  cp_LoadDuration :: int
  cp_PromptEvalCount :: int
  cp_PromptEvalDuration :: int
  cp_EvalCount :: int
  cp_EvalDuration :: int

definition zero_ChatResponse :: ChatResponse where
  "zero_ChatResponse =
     \<lparr>cp_Model = [], cp_CreatedAt = ''0001-01-01T00:00:00Z'', cp_Message = zero_Message,
      cp_Done = False, cp_DoneReason = [], cp_TotalDuration = 0, cp_LoadDuration = 0,
      cp_PromptEvalCount = 0, cp_PromptEvalDuration = 0, cp_EvalCount = 0, cp_EvalDuration = 0\<rparr>"

definition ChatResponse_fields :: "codec \<Rightarrow> (bytes \<times> ChatResponse store) list" where
  "ChatResponse_fields cd =
     [(''model'', store_str ''model'' (\<lambda>x r. r\<lparr>cp_Model := x\<rparr>)),
      (''created_at'', store_in cp_CreatedAt (\<lambda>x r. r\<lparr>cp_CreatedAt := x\<rparr>) (store_time cd)),
      (''message'', store_in cp_Message (\<lambda>x r. r\<lparr>cp_Message := x\<rparr>) (Message_store cd)),
      (''done'', store_bool ''done'' (\<lambda>x r. r\<lparr>cp_Done := x\<rparr>)),
      (''done_reason'', store_str ''done_reason'' (\<lambda>x r. r\<lparr>cp_DoneReason := x\<rparr>)),
      (''total_duration'', store_int ''total_duration'' (\<lambda>x r. r\<lparr>cp_TotalDuration := x\<rparr>)),
      (''load_duration'', store_int ''load_duration'' (\<lambda>x r. r\<lparr>cp_LoadDuration := x\<rparr>)),
      (''prompt_eval_count'',
       store_int ''prompt_eval_count'' (\<lambda>x r. r\<lparr>cp_PromptEvalCount := x\<rparr>)),
      (''prompt_eval_duration'',
       store_int ''prompt_eval_duration'' (\<lambda>x r. r\<lparr>cp_PromptEvalDuration := x\<rparr>)),
      (''eval_count'', store_int ''eval_count'' (\<lambda>x r. r\<lparr>cp_EvalCount := x\<rparr>)),
      (''eval_duration'', store_int ''eval_duration'' (\<lambda>x r. r\<lparr>cp_EvalDuration := x\<rparr>))]"

subsection \<open>Model listing\<close>

record ModelDetails =
  mt_Format :: bytes
  mt_Family :: bytes
  mt_Families :: "bytes list"
  mt_ParameterSize :: bytes
  mt_QuantizationLevel :: bytes

record TagModel =
  tm_Name :: bytes
  tm_Model :: bytes
  tm_ModifiedAt :: bytes
  tm_Size :: int
  tm_Digest :: bytes
  tm_Details :: ModelDetails

definition zero_TagModel :: TagModel where
  "zero_TagModel =
     \<lparr>tm_Name = [], tm_Model = [], tm_ModifiedAt = ''0001-01-01T00:00:00Z'', tm_Size = 0,
      tm_Digest = [],
      tm_Details = \<lparr>mt_Format = [], mt_Family = [], mt_Families = [], mt_ParameterSize = [],
                    mt_QuantizationLevel = []\<rparr>\<rparr>"

definition ModelDetails_store :: "ModelDetails store" where
  "ModelDetails_store =
     store_struct False ''details''
       [(''format'', store_str ''format'' (\<lambda>x d. d\<lparr>mt_Format := x\<rparr>)),
        (''family'', store_str ''family'' (\<lambda>x d. d\<lparr>mt_Family := x\<rparr>)),
        (''families'',
         store_in mt_Families (\<lambda>x d. d\<lparr>mt_Families := x\<rparr>)
           (store_list ''families'' [] (store_str ''families'' (\<lambda>x _. x)))),
        (''parameter_size'', store_str ''parameter_size'' (\<lambda>x d. d\<lparr>mt_ParameterSize := x\<rparr>)),
        (''quantization_level'',
         store_str ''quantization_level'' (\<lambda>x d. d\<lparr>mt_QuantizationLevel := x\<rparr>))]"

definition TagModel_store :: "codec \<Rightarrow> TagModel store" where
  "TagModel_store cd =
     store_struct False ''models''
       [(''name'', store_str ''name'' (\<lambda>x t. t\<lparr>tm_Name := x\<rparr>)),
        (''model'', store_str ''model'' (\<lambda>x t. t\<lparr>tm_Model := x\<rparr>)),
        (''modified_at'',
         store_in tm_ModifiedAt (\<lambda>x t. t\<lparr>tm_ModifiedAt := x\<rparr>) (store_time cd)),
        (''size'', store_int ''size'' (\<lambda>x t. t\<lparr>tm_Size := x\<rparr>)),
        (''digest'', store_str ''digest'' (\<lambda>x t. t\<lparr>tm_Digest := x\<rparr>)),
        (''details'', store_in tm_Details (\<lambda>x t. t\<lparr>tm_Details := x\<rparr>) ModelDetails_store)]"

text \<open>The envelope \<open>tagsResponse\<close> has one field, so its value is the list.\<close>

definition tagsResponse_fields :: "codec \<Rightarrow> (bytes \<times> TagModel list store) list" where
  "tagsResponse_fields cd = [(''models'', store_list ''models'' zero_TagModel (TagModel_store cd))]"

subsection \<open>Errors\<close>

record Error =
  er_Status :: int
  er_Op :: bytes
  er_Body :: bytes
  er_Err :: "bytes option"

text \<open>
  \<open>itoa\<close> on a 64-bit \<open>int\<close>: negation wraps, division truncates, the loop runs while the value
  is positive in the signed order, and digits are written from the right. The buffer of 20
  bytes is the list built.
\<close>

definition quot :: "64 word \<Rightarrow> 64 word \<Rightarrow> 64 word" where
  "quot a b = word_of_int (sint a sdiv sint b)"

definition rem :: "64 word \<Rightarrow> 64 word \<Rightarrow> 64 word" where
  "rem a b = word_of_int (sint a smod sint b)"

lemma sint_64_bounds: "- (2 ^ 63) \<le> sint (n :: 64 word)" "sint (n :: 64 word) < 2 ^ 63"
  using sint_greater_eq [of n] sint_less [of n] by simp_all

lemma sint_word_of_int: "- (2 ^ 63) \<le> k \<Longrightarrow> k < 2 ^ 63 \<Longrightarrow> sint (word_of_int k :: 64 word) = k"
  by (simp add: sint_uint unsigned_of_int signed_take_bit_int_eq_self signed_take_bit_take_bit)

lemma sint_10: "sint (10 :: 64 word) = 10"
  by simp

lemma quot_10: "0 < sint n \<Longrightarrow> sint (quot n 10) = sint n div 10"
  using sint_64_bounds [of n]
  by (simp add: quot_def sint_10 signed_divide_int_def sint_word_of_int)

lemma rem_10: "0 < sint n \<Longrightarrow> sint (rem n 10) = sint n mod 10"
  by (simp add: rem_def sint_10 signed_modulo_int_def signed_divide_int_def sint_word_of_int)

function itoa_digits :: "64 word \<Rightarrow> bytes \<Rightarrow> bytes" where
  "itoa_digits n buf =
     (if 0 < sint n
      then itoa_digits (quot n 10) (digit_char (nat (sint (rem n 10))) # buf)
      else buf)"
  by pat_completeness auto
termination
  by (relation "measure (\<lambda>(n, buf). nat (sint n))") (auto simp: quot_10)

definition itoa :: "64 word \<Rightarrow> bytes" where
  "itoa n =
     (if n = 0 then ''0''
      else let neg = sint n < 0;
               buf = itoa_digits (if neg then - n else n) []
           in if neg then CHR ''-'' # buf else buf)"

definition Error_text :: "Error \<Rightarrow> bytes" where
  "Error_text e =
     (case er_Err e of
        Some t \<Rightarrow> ''bridge '' @ er_Op e @ '': '' @ t
      | None \<Rightarrow> ''bridge '' @ er_Op e @ '': upstream status '' @ itoa (word_of_int (er_Status e)))"

declare itoa_digits.simps [simp del]

lemma itoa_digits_dec:
  "0 < sint n \<Longrightarrow> itoa_digits n buf = dec_nat (nat (sint n)) @ buf"
proof (induction n buf rule: itoa_digits.induct)
  case (1 n buf)
  define k where "k = nat (sint n)"
  have k: "sint n = int k" "0 < k" using 1(2) by (simp_all add: k_def)
  have q: "sint (quot n 10) = int (k div 10)" and r: "nat (sint (rem n 10)) = k mod 10"
    using quot_10 [OF 1(2)] rem_10 [OF 1(2)] by (simp_all add: k zdiv_int nat_mod_distrib)
  have unfold: "itoa_digits n buf = itoa_digits (quot n 10) (digit_char (k mod 10) # buf)"
    using 1(2) r by (subst itoa_digits.simps) simp
  show ?case
  proof (cases "k < 10")
    case True
    then have "\<not> 0 < sint (quot n 10)" using q by simp
    then have "itoa_digits (quot n 10) (digit_char (k mod 10) # buf) = digit_char (k mod 10) # buf"
      by (subst itoa_digits.simps) simp
    with True show ?thesis unfolding unfold k_def [symmetric] by (simp add: dec_nat.simps [of k])
  next
    case False
    then have "0 < sint (quot n 10)" using q by simp
    from 1(1) [OF 1(2) this] r q False show ?thesis
      unfolding unfold k_def [symmetric] by (simp add: dec_nat.simps [of k])
  qed
qed

lemma dec_nat_length: "n < 10 ^ k \<Longrightarrow> 0 < k \<Longrightarrow> length (dec_nat n) \<le> k"
proof (induction n arbitrary: k rule: dec_nat.induct)
  case (1 n)
  show ?case
  proof (cases "n < 10")
    case False
    then obtain j where j: "k = Suc j" "0 < j"
      using 1(2,3) by (cases k; cases "k - 1 = 0") auto
    then have "n div 10 < 10 ^ j" using 1(2) by simp
    from 1(1) [OF False this j(2)] False j(1) show ?thesis by (simp add: dec_nat.simps [of n])
  qed (use 1(3) in \<open>simp add: dec_nat.simps [of n]\<close>)
qed

text \<open>The one value without an own negation.\<close>

definition min_int :: "64 word" where
  "min_int = word_of_int (- (2 ^ 63))"

lemma sint_uminus: "n \<noteq> min_int \<Longrightarrow> sint (- n) = - sint (n :: 64 word)"
proof -
  assume "n \<noteq> min_int"
  moreover have "n = word_of_int (sint n)" by simp
  ultimately have "sint n \<noteq> - (2 ^ 63)" unfolding min_int_def by force
  then have b: "- (2 ^ 63) \<le> - sint n" "- sint n < 2 ^ 63" using sint_64_bounds [of n] by linarith+
  have "- n = word_of_int (- sint n)" by simp
  then show ?thesis using sint_word_of_int [OF b] by simp
qed

text \<open>The client's own integer formatting agrees with decimal notation on every 64-bit value but
  the smallest, where the negation wraps, no digit is written and the text is a bare sign; it
  never needs more than the 20 bytes of its buffer.\<close>

theorem itoa_decimal:
  "itoa n = (if n = min_int then ''-'' else dec_int (sint n)) \<and> length (itoa n) \<le> 20"
proof (cases "n = min_int")
  case True
  have "itoa min_int = ''-''" by code_simp
  with True show ?thesis by simp
next
  case False
  have digits: "itoa n = dec_int (sint n)"
  proof (cases "n = 0")
    case True
    then show ?thesis by (simp add: itoa_def) code_simp
  next
    case nz: False
    moreover have "n = word_of_int (sint n)" by simp
    ultimately have "sint n \<noteq> 0" by force
    then show ?thesis
      using nz sint_uminus [OF False]
      by (auto simp: itoa_def Let_def itoa_digits_dec dec_int_def)
  qed
  have "nat \<bar>sint n\<bar> < 10 ^ 19" using sint_64_bounds [of n] by simp
  from dec_nat_length [OF this] have "length (dec_int (sint n)) \<le> 20"
    by (cases "sint n < 0") (simp_all add: dec_int_def)
  with False digits show ?thesis by simp
qed

end
