(* ===== verification/BridgeStream.thy ===== *)
theory BridgeStream
  imports BridgeTypes
begin

text \<open>
  \<open>internal/bridge/stream.go\<close>: the iterator over the newline-delimited JSON of a streaming chat.
  A response body is the bytes it will still deliver and how it ends; the buffered reader over
  it is \<open>read_slice\<close>, \<open>bufio.Reader.ReadSlice\<close> with a buffer of \<open>maxStreamLineBytes + 1\<close> bytes.
  Bytes in the buffer and bytes still in the connection are one list: the result of a call
  does not depend on how they arrive, except at the very end (\<open>bd_eager\<close>).
\<close>

text \<open>
  \<open>bd_end\<close> is \<open>None\<close> for \<open>io.EOF\<close> and the error's text otherwise; \<open>bd_eager\<close> says that the
  last read returns it together with the last bytes.
\<close>

record Body =
  bd_data :: bytes
  bd_end :: "bytes option"
  bd_eager :: bool
  bd_closed :: bool

definition maxStreamLineBytes :: nat where
  "maxStreamLineBytes = 2 ^ 20"

datatype slice_result = Line bytes | BufferFull | Ended bytes "bytes option"

definition newline :: char where
  "newline = CHR 0x0A"

definition read_slice :: "nat \<Rightarrow> Body \<Rightarrow> slice_result \<times> Body" where
  "read_slice bufsize b =
     (let window = take bufsize (bd_data b) in
      if newline \<in> set window
      then let line = takeWhile (\<lambda>c. c \<noteq> newline) window @ [newline]
           in (Line line, b\<lparr>bd_data := drop (length line) (bd_data b)\<rparr>)
      else if length (bd_data b) < bufsize \<or> length (bd_data b) = bufsize \<and> bd_eager b
      then (Ended (bd_data b) (bd_end b), b\<lparr>bd_data := []\<rparr>)
      else (BufferFull, b\<lparr>bd_data := drop bufsize (bd_data b)\<rparr>))"

record ChatStreamChunk =
  ck_Model :: bytes
  ck_Message :: Message
  ck_Thinking :: bytes
  ck_Done :: bool
  ck_DoneReason :: bytes
  ck_PromptEvalCount :: int
  ck_EvalCount :: int
  ck_TotalDuration :: int
  ck_LoadDuration :: int
  ck_PromptEvalDuration :: int
  ck_EvalDuration :: int

definition zero_Chunk :: ChatStreamChunk where
  "zero_Chunk =
     \<lparr>ck_Model = [], ck_Message = zero_Message, ck_Thinking = [], ck_Done = False,
      ck_DoneReason = [], ck_PromptEvalCount = 0, ck_EvalCount = 0, ck_TotalDuration = 0,
      ck_LoadDuration = 0, ck_PromptEvalDuration = 0, ck_EvalDuration = 0\<rparr>"

definition ChatStreamChunk_fields :: "codec \<Rightarrow> (bytes \<times> ChatStreamChunk store) list" where
  "ChatStreamChunk_fields cd =
     [(''model'', store_str ''model'' (\<lambda>x c. c\<lparr>ck_Model := x\<rparr>)),
      (''message'', store_in ck_Message (\<lambda>x c. c\<lparr>ck_Message := x\<rparr>) (Message_store cd)),
      (''thinking'', store_str ''thinking'' (\<lambda>x c. c\<lparr>ck_Thinking := x\<rparr>)),
      (''done'', store_bool ''done'' (\<lambda>x c. c\<lparr>ck_Done := x\<rparr>)),
      (''done_reason'', store_str ''done_reason'' (\<lambda>x c. c\<lparr>ck_DoneReason := x\<rparr>)),
      (''prompt_eval_count'',
       store_int ''prompt_eval_count'' (\<lambda>x c. c\<lparr>ck_PromptEvalCount := x\<rparr>)),
      (''eval_count'', store_int ''eval_count'' (\<lambda>x c. c\<lparr>ck_EvalCount := x\<rparr>)),
      (''total_duration'', store_int ''total_duration'' (\<lambda>x c. c\<lparr>ck_TotalDuration := x\<rparr>)),
      (''load_duration'', store_int ''load_duration'' (\<lambda>x c. c\<lparr>ck_LoadDuration := x\<rparr>)),
      (''prompt_eval_duration'',
       store_int ''prompt_eval_duration'' (\<lambda>x c. c\<lparr>ck_PromptEvalDuration := x\<rparr>)),
      (''eval_duration'', store_int ''eval_duration'' (\<lambda>x c. c\<lparr>ck_EvalDuration := x\<rparr>))]"

text \<open>\<open>json.Unmarshal(line, &chunk)\<close> into a fresh chunk.\<close>

definition unmarshal_chunk :: "codec \<Rightarrow> bytes \<Rightarrow> dec_error + ChatStreamChunk" where
  "unmarshal_chunk cd line =
     (case unmarshal_value line of
        Inl e \<Rightarrow> Inl e
      | Inr v \<Rightarrow>
          (case store_struct False [] (ChatStreamChunk_fields cd) v zero_Chunk of
             (c, None) \<Rightarrow> Inr c
           | (_, Some e) \<Rightarrow> Inl e))"

record ChatStream =
  cs_body :: Body
  cs_closed :: bool

definition newChatStream :: "Body \<Rightarrow> ChatStream" where
  "newChatStream b = \<lparr>cs_body = b, cs_closed = False\<rparr>"

datatype next_result = StreamEOF | StreamError Error | StreamChunk ChatStreamChunk

definition stream_error :: "bytes \<Rightarrow> Error" where
  "stream_error t = \<lparr>er_Status = 0, er_Op = ''chat_stream'', er_Body = [], er_Err = Some t\<rparr>"

definition line_end :: bytes where
  "line_end = [newline, CHR 0x0D]"

text \<open>A line that is not blank.\<close>

definition decode_line :: "codec \<Rightarrow> bytes \<Rightarrow> next_result" where
  "decode_line cd line =
     (case unmarshal_chunk cd line of
        Inl e \<Rightarrow> StreamError (stream_error (''decode chunk: '' @ cd_error_text cd e))
      | Inr c \<Rightarrow> StreamChunk c)"

lemma read_slice_shrinks:
  assumes "read_slice bufsize b = (Line l, b')" shows "length (bd_data b') < length (bd_data b)"
proof -
  have n: "newline \<in> set (take bufsize (bd_data b))"
    and b': "b' = b\<lparr>bd_data := drop (length l) (bd_data b)\<rparr>" and l: "l \<noteq> []"
    using assms by (auto simp: read_slice_def Let_def split: if_splits)
  from n have "bd_data b \<noteq> []" by auto
  with l show ?thesis by (simp add: b')
qed

text \<open>The loop of \<open>Next\<close>: blank lines are skipped.\<close>

function next_line :: "codec \<Rightarrow> Body \<Rightarrow> next_result \<times> Body" where
  "next_line cd b =
     (case read_slice (maxStreamLineBytes + 1) b of
        (BufferFull, b') \<Rightarrow>
          (StreamError (stream_error
             (''stream line exceeded '' @ dec_nat maxStreamLineBytes @ '' bytes'')), b')
      | (Ended line (Some e), b') \<Rightarrow> (StreamError (stream_error e), b')
      | (Ended line None, b') \<Rightarrow>
          (let l = trim_right_set line_end line
           in if l = [] then (StreamEOF, b') else (decode_line cd l, b'))
      | (Line line, b') \<Rightarrow>
          (let l = trim_right_set line_end line
           in if l = [] then next_line cd b' else (decode_line cd l, b')))"
  by pat_completeness auto
termination
  by (relation "measure (\<lambda>(cd, b). length (bd_data b))") (auto dest: read_slice_shrinks [OF sym])

declare next_line.simps [simp del]

definition Next :: "codec \<Rightarrow> ChatStream \<Rightarrow> next_result \<times> ChatStream" where
  "Next cd s =
     (if cs_closed s then (StreamEOF, s)
      else case next_line cd (cs_body s) of (r, b) \<Rightarrow> (r, s\<lparr>cs_body := b\<rparr>))"

definition drain_limit :: nat where
  "drain_limit = 2 ^ 16"

definition Close :: "ChatStream \<Rightarrow> ChatStream" where
  "Close s =
     (if cs_closed s then s
      else s\<lparr>cs_closed := True,
             cs_body := (cs_body s)\<lparr>bd_data := drop drain_limit (bd_data (cs_body s)),
                                     bd_closed := True\<rparr>\<rparr>)"

subsection \<open>Names in chunks\<close>

text \<open>The name of the model in a decoded chunk is valid UTF-8.\<close>

lemma chunk_field_model:
  "f \<in> snd ` set (ChatStreamChunk_fields cd) \<Longrightarrow> valid_strings v \<Longrightarrow> valid_utf8 (ck_Model c) \<Longrightarrow>
   valid_utf8 (ck_Model (fst (f v c)))"
  by (auto simp: ChatStreamChunk_fields_def store_str_def store_bool_def store_int_def store_in_def
      split_beta split: jval.splits sum.splits)

lemma unmarshal_value_valid: "unmarshal_value s = Inr v \<Longrightarrow> valid_strings v"
  by (auto simp: unmarshal_value_def dest: scan_valid_top split: scan.splits if_splits)

lemma unmarshal_chunk_model:
  assumes "unmarshal_chunk cd line = Inr c" shows "valid_utf8 (ck_Model c)"
proof -
  obtain v where v: "unmarshal_value line = Inr v"
    and c: "c = fst (store_struct False [] (ChatStreamChunk_fields cd) v zero_Chunk)"
    using assms by (auto simp: unmarshal_chunk_def split: sum.splits prod.splits option.splits)
  show ?thesis
    unfolding c
    by (rule store_struct_keeps [where P = "\<lambda>c. valid_utf8 (ck_Model c)"])
      (use chunk_field_model unmarshal_value_valid [OF v] in \<open>auto simp: zero_Chunk_def\<close>)
qed

lemma decode_line_model: "decode_line cd line = StreamChunk c \<Longrightarrow> valid_utf8 (ck_Model c)"
  by (auto simp: decode_line_def dest: unmarshal_chunk_model split: sum.splits)

subsection \<open>Lemmas\<close>

lemma newline_in_window:
  assumes "newline \<notin> set l"
  shows "newline \<in> set (take n (l @ newline # rest)) \<longleftrightarrow> length l < n"
    and "length l < n \<Longrightarrow> takeWhile (\<lambda>c. c \<noteq> newline) (take n (l @ newline # rest)) = l"
proof -
  show "newline \<in> set (take n (l @ newline # rest)) \<longleftrightarrow> length l < n"
    using assms by (cases "length l < n") (auto simp: take_Cons' dest: in_set_takeD)
  assume "length l < n"
  then have "take n (l @ newline # rest) = l @ newline # take (n - length l - 1) rest"
    by (simp add: take_Cons')
  then show "takeWhile (\<lambda>c. c \<noteq> newline) (take n (l @ newline # rest)) = l"
    using assms by (simp add: takeWhile_append2 takeWhile_append)
qed

lemma read_slice_line:
  assumes "bd_data b = l @ newline # rest" and "newline \<notin> set l" and "length l < n"
  shows "read_slice n b = (Line (l @ [newline]), b\<lparr>bd_data := rest\<rparr>)"
  using newline_in_window [OF assms(2), of n rest] assms
  by (simp add: read_slice_def Let_def)

lemma read_slice_last:
  assumes "newline \<notin> set (bd_data b)" and "length (bd_data b) < n"
  shows "read_slice n b = (Ended (bd_data b) (bd_end b), b\<lparr>bd_data := []\<rparr>)"
  using assms by (auto simp: read_slice_def Let_def dest: in_set_takeD)

lemma read_slice_full:
  assumes "bd_data b = l @ newline # rest" and "newline \<notin> set l" and "n \<le> length l"
  shows "read_slice n b = (BufferFull, b\<lparr>bd_data := drop n (bd_data b)\<rparr>)"
  using newline_in_window [OF assms(2), of n rest] assms
  by (simp add: read_slice_def Let_def)

lemma trim_line_end [simp]: "trim_right_set line_end (l @ [newline]) = trim_right_set line_end l"
  by (simp add: trim_right_set_snoc line_end_def)

lemma next_line_line:
  assumes "bd_data b = l @ newline # rest" and "newline \<notin> set l"
    and "length l \<le> maxStreamLineBytes"
  shows "next_line cd b =
    (if trim_right_set line_end l = [] then next_line cd (b\<lparr>bd_data := rest\<rparr>)
     else (decode_line cd (trim_right_set line_end l), b\<lparr>bd_data := rest\<rparr>))"
  using assms(3)
  by (subst next_line.simps) (simp add: read_slice_line [OF assms(1,2)] Let_def)

lemma next_line_last:
  assumes "newline \<notin> set (bd_data b)" and "length (bd_data b) \<le> maxStreamLineBytes"
    and "bd_end b = None"
  shows "next_line cd b =
    (if trim_right_set line_end (bd_data b) = [] then (StreamEOF, b\<lparr>bd_data := []\<rparr>)
     else (decode_line cd (trim_right_set line_end (bd_data b)), b\<lparr>bd_data := []\<rparr>))"
  using assms(2,3)
  by (subst next_line.simps) (simp add: read_slice_last [OF assms(1)] Let_def)

text \<open>Every call that yields a chunk consumes something of the body.\<close>

lemma decode_line_cases:
  "(\<exists>c. decode_line cd l = StreamChunk c) \<or> (\<exists>t. decode_line cd l = StreamError (stream_error t))"
  by (cases "unmarshal_chunk cd l") (auto simp: decode_line_def)

lemma trim_nonempty: "trim_right_set cs l \<noteq> [] \<Longrightarrow> l \<noteq> []"
  by (auto simp: trim_right_set_def)

lemma next_line_shrinks:
  "next_line cd b = (StreamChunk c, b') \<Longrightarrow> length (bd_data b') < length (bd_data b)"
proof (induction cd b rule: next_line.induct)
  case (1 cd b)
  obtain r b1 where rs: "read_slice (maxStreamLineBytes + 1) b = (r, b1)" by force
  show ?case
  proof (cases r)
    case (Line line)
    have less: "length (bd_data b1) < length (bd_data b)"
      using read_slice_shrinks rs Line by blast
    show ?thesis
    proof (cases "trim_right_set line_end line = []")
      case True
      then have "next_line cd b1 = (StreamChunk c, b')"
        using 1(2) rs Line by (subst (asm) next_line.simps) simp
      from 1(1) [OF rs [symmetric] Line refl True this] less show ?thesis by simp
    next
      case False
      then have "b' = b1" using 1(2) rs Line by (subst (asm) next_line.simps) simp
      with less show ?thesis by simp
    qed
  next
    case BufferFull
    then have False using 1(2) rs by (subst (asm) next_line.simps) simp
    then show ?thesis ..
  next
    case (Ended line e)
    then have l: "line = bd_data b" and b1: "bd_data b1 = []"
      using rs by (auto simp: read_slice_def Let_def split: if_splits)
    have "trim_right_set line_end line \<noteq> []" and "b' = b1"
      using 1(2) rs Ended
      by (subst (asm) next_line.simps, simp add: Let_def split: option.splits if_splits)+
    with l b1 show ?thesis using trim_nonempty [of line_end line] by simp
  qed
qed

text \<open>Where a result of \<open>next_line\<close> comes from.\<close>

lemma next_line_origin:
  "fst (next_line cd b) = StreamEOF \<or> (\<exists>t. fst (next_line cd b) = StreamError (stream_error t)) \<or>
   (\<exists>l. fst (next_line cd b) = decode_line cd l)"
proof (induction cd b rule: next_line.induct)
  case (1 cd b)
  obtain r b1 where rs: "read_slice (maxStreamLineBytes + 1) b = (r, b1)" by force
  show ?case
  proof (cases r)
    case (Line line)
    show ?thesis
    proof (cases "trim_right_set line_end line = []")
      case True
      then have "next_line cd b = next_line cd b1"
        using rs Line by (subst next_line.simps) simp
      with 1 [OF rs [symmetric] Line refl True] show ?thesis by simp
    next
      case False
      then show ?thesis using rs Line by (subst (1 2 3) next_line.simps) auto
    qed
  next
    case (Ended line oe)
    then show ?thesis
      using rs by (cases oe) (subst (1 2 3) next_line.simps; auto simp: Let_def)+
  next
    case BufferFull
    then show ?thesis using rs by (subst (1 2 3) next_line.simps) auto
  qed
qed

lemma next_line_error: "fst (next_line cd b) = StreamError e \<Longrightarrow> \<exists>t. e = stream_error t"
  using next_line_origin [of cd b] decode_line_cases by (metis next_result.distinct next_result.inject)

lemma next_line_model: "fst (next_line cd b) = StreamChunk c \<Longrightarrow> valid_utf8 (ck_Model c)"
  using next_line_origin [of cd b] decode_line_model by (metis next_result.distinct)

lemma Next_model: "Next cd s = (StreamChunk c, s') \<Longrightarrow> valid_utf8 (ck_Model c)"
  using next_line_model [of cd "cs_body s" c] by (auto simp: Next_def split: if_splits prod.splits)

lemma Next_error: "fst (Next cd s) = StreamError e \<Longrightarrow> \<exists>t. e = stream_error t"
  using next_line_error [of cd "cs_body s" e]
  by (auto simp: Next_def split: if_splits prod.splits)

text \<open>What is left to read, the measure of every loop over \<open>Next\<close>.\<close>

definition remaining :: "ChatStream \<Rightarrow> nat" where
  "remaining s = length (bd_data (cs_body s))"

lemma Next_shrinks: "Next cd s = (StreamChunk c, s') \<Longrightarrow> remaining s' < remaining s"
  using next_line_shrinks [of cd "cs_body s" c]
  by (auto simp: Next_def remaining_def split: if_splits prod.splits)

subsection \<open>A whole stream\<close>

text \<open>All results of a caller that iterates until the end or an error.\<close>

function stream_results :: "codec \<Rightarrow> ChatStream \<Rightarrow> next_result list" where
  "stream_results cd s =
     (case Next cd s of
        (StreamChunk c, s') \<Rightarrow> StreamChunk c # stream_results cd s'
      | (r, _) \<Rightarrow> [r])"
  by pat_completeness auto
termination
  by (relation "measure (\<lambda>(cd, s). remaining s)") (auto dest: Next_shrinks [OF sym])

declare stream_results.simps [simp del]

text \<open>The reference: decode the lines that are not blank, up to the first error.\<close>

fun until_error :: "next_result list \<Rightarrow> next_result list" where
  "until_error [] = [StreamEOF]"
| "until_error (StreamChunk c # rs) = StreamChunk c # until_error rs"
| "until_error (r # rs) = [r]"

definition reference_results :: "codec \<Rightarrow> bytes \<Rightarrow> next_result list" where
  "reference_results cd data =
     until_error (map (decode_line cd)
       (filter (\<lambda>l. l \<noteq> []) (map (trim_right_set line_end) (split_lines data))))"

lemma split_lines_last: "newline \<notin> set l \<Longrightarrow> split_lines l = (if l = [] then [] else [l])"
  by (induction l) (auto simp: newline_def)

lemma first_line_cases:
  obtains (line) l rest where "data = l @ newline # rest" and "newline \<notin> set l"
    and "split_lines data = l # split_lines rest"
  | (last) "newline \<notin> set data" and "split_lines data = (if data = [] then [] else [data])"
proof (cases "newline \<in> set data")
  case True
  then obtain l rest where "data = l @ newline # rest" "newline \<notin> set l"
    by (meson split_list_first)
  then show ?thesis using line split_lines_line [of l rest] by (simp add: newline_def)
qed (use last split_lines_last in blast)

lemma Next_open:
  "Next cd (newChatStream b) = (fst (next_line cd b), newChatStream (snd (next_line cd b)))"
  by (simp add: Next_def newChatStream_def split_beta)

lemma stream_results_open:
  "stream_results cd (newChatStream b) =
     (case next_line cd b of
        (StreamChunk c, b') \<Rightarrow> StreamChunk c # stream_results cd (newChatStream b')
      | (r, _) \<Rightarrow> [r])"
  by (subst stream_results.simps) (simp add: Next_open split_beta split: next_result.split)

lemma stream_results_decoded:
  "next_line cd b = (decode_line cd l, b') \<Longrightarrow>
   stream_results cd (newChatStream b) =
     (case decode_line cd l of
        StreamChunk c \<Rightarrow> StreamChunk c # stream_results cd (newChatStream b')
      | r \<Rightarrow> [r])"
  by (simp add: stream_results_open [of cd b] split: next_result.split)

lemma stream_results_eof:
  "next_line cd b = (StreamEOF, b') \<Longrightarrow> stream_results cd (newChatStream b) = [StreamEOF]"
  by (simp add: stream_results_open [of cd b])

lemma stream_results_blank:
  "next_line cd b = next_line cd b' \<Longrightarrow>
   stream_results cd (newChatStream b) = stream_results cd (newChatStream b')"
  by (simp add: stream_results_open [of cd b] stream_results_open [of cd b'])

lemma until_error_decoded:
  "until_error (decode_line cd l # rs) =
     (case decode_line cd l of StreamChunk c \<Rightarrow> StreamChunk c # until_error rs | r \<Rightarrow> [r])"
  by (cases "decode_line cd l") simp_all

lemma stream_results_reference:
  assumes "\<forall>l \<in> set (split_lines data). length l \<le> maxStreamLineBytes"
  shows "stream_results cd (newChatStream
      \<lparr>bd_data = data, bd_end = None, bd_eager = eager, bd_closed = False\<rparr>) =
    reference_results cd data"
  using assms
proof (induction "length data" arbitrary: data rule: less_induct)
  case less
  define body where "body d = \<lparr>bd_data = d, bd_end = None, bd_eager = eager, bd_closed = False\<rparr>" for d
  have sel: "bd_data (body d) = d" "bd_end (body d) = None" "body d\<lparr>bd_data := d'\<rparr> = body d'" for d d'
    by (simp_all add: body_def)
  have "stream_results cd (newChatStream (body data)) = reference_results cd data"
  proof (cases rule: first_line_cases [of data])
    case (line l rest)
    have len: "length l \<le> maxStreamLineBytes" using less(2) line(3) by simp
    have IH: "stream_results cd (newChatStream (body rest)) = reference_results cd rest"
      unfolding body_def using less(1) [of rest] less(2) line by simp
    have "next_line cd (body data) =
        (if trim_right_set line_end l = [] then next_line cd (body rest)
         else (decode_line cd (trim_right_set line_end l), body rest))"
      using next_line_line [of "body data" l rest cd] line(1,2) len by (simp add: sel)
    then show ?thesis
      using IH line(3) stream_results_blank [of cd "body data" "body rest"]
        stream_results_decoded [of cd "body data" "trim_right_set line_end l" "body rest"]
      by (simp add: reference_results_def until_error_decoded cong: next_result.case_cong
          split: if_splits)
  next
    case last
    have len: "length data \<le> maxStreamLineBytes"
      using less(2) last(2) by (cases "data = []") simp_all
    have nl: "next_line cd (body data) =
        (if trim_right_set line_end data = [] then (StreamEOF, body [])
         else (decode_line cd (trim_right_set line_end data), body []))"
      using next_line_last [of "body data" cd] last(1) len by (simp add: sel)
    have "next_line cd (body []) = (StreamEOF, body [])"
      using next_line_last [of "body []" cd] by (simp add: sel trim_right_set_def)
    then have eof: "stream_results cd (newChatStream (body [])) = [StreamEOF]"
      by (rule stream_results_eof)
    show ?thesis
    proof (cases "trim_right_set line_end data = []")
      case True
      then show ?thesis
        using nl last(2) by (simp add: stream_results_eof reference_results_def)
    next
      case False
      then have "data \<noteq> []" using trim_nonempty by blast
      with False show ?thesis
        using nl last(2) eof
          stream_results_decoded [of cd "body data" "trim_right_set line_end data" "body []"]
        by (simp add: reference_results_def until_error_decoded cong: next_result.case_cong)
    qed
  qed
  then show ?case by (simp add: body_def)
qed

text \<open>C17: framing: for an upstream that ends normally and keeps its lines within the limit, the
  iterator yields exactly the decoded non-blank lines in order, up to the first that does not
  decode, and then the end; blank lines and carriage returns have no effect, and a last line
  without a newline counts.\<close>

theorem stream_yields_lines:
  assumes "\<forall>l \<in> set (split_lines data). length l \<le> maxStreamLineBytes"
  shows "stream_results cd (newChatStream
      \<lparr>bd_data = data, bd_end = None, bd_eager = eager, bd_closed = False\<rparr>) =
    reference_results cd data"
  by (rule stream_results_reference [OF assms])

definition ndjson :: bytes where
  "ndjson = ''{}'' @ [newline, newline] @ ''null'' @ [CHR 0x0D, newline]"

theorem stream_yields_lines_witness:
  "stream_results plain_codec (newChatStream
     \<lparr>bd_data = ndjson, bd_end = None, bd_eager = False, bd_closed = False\<rparr>) =
   [StreamChunk zero_Chunk, StreamChunk zero_Chunk, StreamEOF]"
proof -
  have lines: "split_lines ndjson = [''{}'', [], ''null'' @ [CHR 0x0D]]" by code_simp
  have "unmarshal_value ''{}'' = Inr (VObj [])" and "unmarshal_value ''null'' = Inr VNull"
    by code_simp+
  then have "decode_line plain_codec ''{}'' = StreamChunk zero_Chunk"
    and "decode_line plain_codec ''null'' = StreamChunk zero_Chunk"
    by (simp_all add: decode_line_def unmarshal_chunk_def store_struct_def)
  then show ?thesis
    by (subst stream_yields_lines)
      (simp_all add: lines reference_results_def maxStreamLineBytes_def trim_right_set_def
        line_end_def newline_def)
qed

text \<open>C36: the line limit is exact: a line whose text (without its newline) has at most
  \<open>maxStreamLineBytes\<close> bytes is decoded, and one that is a single byte longer is refused with the
  error that names the limit, whatever follows it.\<close>

theorem line_limit_exact:
  assumes "newline \<notin> set l" and "trim_right_set line_end l \<noteq> []"
    and "\<not> cs_closed s" and "bd_data (cs_body s) = l @ newline # rest"
  shows "fst (Next cd s) =
    (if length l \<le> maxStreamLineBytes then decode_line cd (trim_right_set line_end l)
     else StreamError (stream_error (''stream line exceeded 1048576 bytes'')))"
proof (cases "length l \<le> maxStreamLineBytes")
  case True
  then show ?thesis
    using assms by (simp add: Next_def next_line_line [OF assms(4,1)])
next
  case False
  then have "maxStreamLineBytes + 1 \<le> length l" by simp
  from read_slice_full [OF assms(4,1) this]
  have "fst (next_line cd (cs_body s)) =
      StreamError (stream_error (''stream line exceeded '' @ dec_nat maxStreamLineBytes @ '' bytes''))"
    by (subst next_line.simps) simp
  moreover have "dec_nat maxStreamLineBytes = ''1048576''"
    by (simp add: maxStreamLineBytes_def dec_nat.simps) code_simp
  ultimately show ?thesis using False assms(3) by (simp add: Next_def split_beta)
qed

theorem line_limit_exact_witness:
  "fst (Next plain_codec (newChatStream \<lparr>bd_data = replicate (Suc maxStreamLineBytes) (CHR ''1'') @ [newline],
       bd_end = None, bd_eager = False, bd_closed = False\<rparr>)) =
   StreamError (stream_error (''stream line exceeded 1048576 bytes''))"
proof -
  define l where "l = replicate (Suc maxStreamLineBytes) (CHR ''1'')"
  have l: "newline \<notin> set l" "trim_right_set line_end l \<noteq> []" "length l = Suc maxStreamLineBytes"
    by (simp_all add: l_def trim_right_set_def line_end_def newline_def)
  show ?thesis
    unfolding l_def [symmetric]
    by (subst line_limit_exact [OF l(1,2), where rest = "[]"]) (simp_all add: newChatStream_def l(3))
qed

end
