(* ===== verification/BridgeClient.thy ===== *)
theory BridgeClient
  imports BridgeStream
begin

text \<open>
  \<open>internal/bridge/client.go\<close>: the HTTP client of the bridge. The network is the parameter
  \<open>ne_net\<close>, a function from the requests sent to responses or transport errors; the parsing and
  printing of URLs are parameters too. \<open>http.Client.Do\<close> itself is modelled with its redirect
  loop, because this client exists to switch that loop off; every operation also returns the
  requests that went out. The interface that the server package declares is the locale
  \<open>bridge\<close>.
\<close>

subsection \<open>What the client uses of \<open>net/http\<close> and \<open>net/url\<close>\<close>

record URL =
  u_Scheme :: bytes
  u_Host :: bytes
  u_Path :: bytes
  u_RawPath :: bytes

record http_request =
  hq_Method :: bytes
  hq_URL :: bytes
  hq_Header :: "(bytes \<times> bytes) list"
  hq_Body :: "bytes option"

record http_response =
  hs_Status :: int
  hs_Location :: bytes
  hs_Body :: Body

text \<open>
  \<open>ne_build m u\<close> is the error text of \<open>http.NewRequestWithContext\<close>, \<open>ne_resolve u l\<close> the URL
  that a \<open>Location\<close> names relative to the request's, or the error for one that does not parse.
\<close>

record net_env =
  ne_parse :: "bytes \<Rightarrow> bytes + URL"
  ne_string :: "URL \<Rightarrow> bytes"
  ne_build :: "bytes \<Rightarrow> bytes \<Rightarrow> bytes option"
  ne_resolve :: "bytes \<Rightarrow> bytes \<Rightarrow> bytes + bytes"
  ne_net :: "http_request \<Rightarrow> bytes + http_response"

text \<open>
  \<open>CheckRedirect\<close>: nil (at most ten requests in all), or a function that answers
  \<open>ErrUseLastResponse\<close>. The \<open>Location\<close> is parsed before it is asked.
\<close>

datatype redirect_policy = DefaultRedirects | UseLastResponse

definition redirect_status :: "int \<Rightarrow> bool" where
  "redirect_status code \<longleftrightarrow> code \<in> {301, 302, 303, 307, 308}"

definition redirected :: "bytes \<Rightarrow> http_request \<Rightarrow> http_response \<Rightarrow> http_request" where
  "redirected url q p =
     (if hs_Status p \<in> {307, 308} then q\<lparr>hq_URL := url\<rparr>
      else q\<lparr>hq_URL := url, hq_Body := None,
             hq_Method := (if hq_Method q \<in> {''GET'', ''HEAD''} then hq_Method q else ''GET'')\<rparr>)"

fun client_do ::
  "net_env \<Rightarrow> redirect_policy \<Rightarrow> nat \<Rightarrow> http_request
   \<Rightarrow> (bytes + http_response) \<times> http_request list" where
  "client_do env policy hops q =
     (case ne_net env q of
        Inl e \<Rightarrow> (Inl e, [q])
      | Inr p \<Rightarrow>
          if redirect_status (hs_Status p) \<and> hs_Location p \<noteq> [] then
            (case (ne_resolve env (hq_URL q) (hs_Location p), policy) of
               (Inl e, _) \<Rightarrow> (Inl e, [q])
             | (Inr url, UseLastResponse) \<Rightarrow> (Inr p, [q])
             | (Inr url, DefaultRedirects) \<Rightarrow>
                 (case hops of
                    0 \<Rightarrow> (Inl ''stopped after 10 redirects'', [q])
                  | Suc h \<Rightarrow>
                      (case client_do env policy h (redirected url q p) of
                         (res, sent) \<Rightarrow> (res, q # sent))))
          else (Inr p, [q]))"

declare client_do.simps [simp del]

definition max_redirects :: nat where
  "max_redirects = 9"

subsection \<open>The client\<close>

definition DefaultHTTPTimeout :: int where
  "DefaultHTTPTimeout = 120000000000"

definition maxErrorBodyBytes :: nat where
  "maxErrorBodyBytes = 4 * 2 ^ 10"

record http_client =
  hc_Timeout :: int
  hc_CheckRedirect :: redirect_policy

record Client =
  cl_baseURL :: URL
  cl_hc :: http_client
  cl_streamHC :: http_client
  cl_ua :: bytes

text \<open>Options: \<open>WithHTTPClient\<close> of a possibly nil client, and \<open>WithUserAgent\<close>.\<close>

datatype Option = WithHTTPClient "http_client option" | WithUserAgent bytes

fun apply_option :: "Option \<Rightarrow> Client \<Rightarrow> Client" where
  "apply_option (WithHTTPClient None) c = c"
| "apply_option (WithHTTPClient (Some hc)) c =
     c\<lparr>cl_hc := hc, cl_streamHC := \<lparr>hc_Timeout = 0, hc_CheckRedirect = DefaultRedirects\<rparr>\<rparr>"
| "apply_option (WithUserAgent ua) c = c\<lparr>cl_ua := ua\<rparr>"

definition refuseRedirects :: redirect_policy where
  "refuseRedirects = UseLastResponse"

definition New :: "codec \<Rightarrow> net_env \<Rightarrow> bytes \<Rightarrow> Option list \<Rightarrow> bytes + Client" where
  "New cd env baseURL opts =
     (case ne_parse env baseURL of
        Inl e \<Rightarrow> Inl (''parse bridge URL '' @ cd_quote cd baseURL @ '': '' @ e)
      | Inr u \<Rightarrow>
          if u_Scheme u \<noteq> ''http'' \<and> u_Scheme u \<noteq> ''https''
          then Inl (''bridge URL '' @ cd_quote cd baseURL @ '': scheme must be http or https'')
          else if u_Host u = []
          then Inl (''bridge URL '' @ cd_quote cd baseURL @ '': missing host'')
          else
            let c0 = \<lparr>cl_baseURL = u\<lparr>u_Path := trim_right_set ''/'' (u_Path u)\<rparr>,
                      cl_hc = \<lparr>hc_Timeout = DefaultHTTPTimeout, hc_CheckRedirect = DefaultRedirects\<rparr>,
                      cl_streamHC = \<lparr>hc_Timeout = 0, hc_CheckRedirect = DefaultRedirects\<rparr>,
                      cl_ua = ''opencost-ai-gateway/dev''\<rparr>;
                c1 = fold apply_option opts c0
            in Inr (c1\<lparr>cl_hc := (cl_hc c1)\<lparr>hc_CheckRedirect := refuseRedirects\<rparr>,
                       cl_streamHC := (cl_streamHC c1)\<lparr>hc_CheckRedirect := refuseRedirects\<rparr>\<rparr>))"

definition BaseURL :: "net_env \<Rightarrow> Client \<Rightarrow> bytes" where
  "BaseURL env c = ne_string env (cl_baseURL c)"

text \<open>The URL of an endpoint, and the header of a request.\<close>

definition endpoint_url :: "Client \<Rightarrow> bytes \<Rightarrow> URL" where
  "endpoint_url c path =
     (cl_baseURL c)\<lparr>u_Path := u_Path (cl_baseURL c) @ ''/'' @ trim_left_set ''/'' path,
                    u_RawPath := []\<rparr>"

definition request_header :: "Client \<Rightarrow> bytes option \<Rightarrow> bytes \<Rightarrow> (bytes \<times> bytes) list" where
  "request_header c body accept =
     (if body \<noteq> None then [(''Content-Type'', ''application/json'')] else [])
     @ [(''Accept'', accept), (''User-Agent'', cl_ua c)]"

definition status_error :: "bytes \<Rightarrow> http_response \<Rightarrow> Error" where
  "status_error op p =
     \<lparr>er_Status = hs_Status p, er_Op = op,
      er_Body = trim_space (take maxErrorBodyBytes (bd_data (hs_Body p))), er_Err = None\<rparr>"

definition local_error :: "bytes \<Rightarrow> bytes \<Rightarrow> Error" where
  "local_error op t = \<lparr>er_Status = 0, er_Op = op, er_Body = [], er_Err = Some t\<rparr>"

text \<open>\<open>json.NewDecoder(body).Decode(out)\<close>: one value; what follows it is not looked at.\<close>

definition decode_body ::
  "codec \<Rightarrow> (bytes \<times> 's store) list \<Rightarrow> 's \<Rightarrow> Body \<Rightarrow> bytes + 's" where
  "decode_body cd fs zero b =
     (let over = bd_end b \<noteq> None in
      case decode_next (bd_data b) over of
        Inl e \<Rightarrow>
          Inl (case (e, bd_end b) of
                 (ReadFailed, Some t) \<Rightarrow> t
               | _ \<Rightarrow> cd_error_text cd e)
      | Inr (v, _) \<Rightarrow>
          (case store_struct False [] fs v zero of
             (x, None) \<Rightarrow> Inr x
           | (_, Some e) \<Rightarrow> Inl (cd_error_text cd e)))"

text \<open>\<open>do\<close>: \<open>body\<close> is the encoded request body, \<open>None\<close> for nil.\<close>

definition do_request ::
  "codec \<Rightarrow> net_env \<Rightarrow> Client \<Rightarrow> bytes \<Rightarrow> bytes \<Rightarrow> bytes option \<Rightarrow> (bytes \<times> 's store) list \<Rightarrow> 's
   \<Rightarrow> bytes \<Rightarrow> (Error + 's) \<times> http_request list" where
  "do_request cd env c method path body fs zero op =
     (let url = ne_string env (endpoint_url c path) in
      case ne_build env method url of
        Some e \<Rightarrow> (Inl (local_error op (''build request: '' @ e)), [])
      | None \<Rightarrow>
          (case client_do env (hc_CheckRedirect (cl_hc c)) max_redirects
                  \<lparr>hq_Method = method, hq_URL = url,
                   hq_Header = request_header c body ''application/json'', hq_Body = body\<rparr> of
             (Inl e, sent) \<Rightarrow> (Inl (local_error op e), sent)
           | (Inr p, sent) \<Rightarrow>
               if hs_Status p < 200 \<or> 300 \<le> hs_Status p then (Inl (status_error op p), sent)
               else case decode_body cd fs zero (hs_Body p) of
                      Inl e \<Rightarrow> (Inl (local_error op (''decode response: '' @ e)), sent)
                    | Inr x \<Rightarrow> (Inr x, sent)))"

definition Chat ::
  "codec \<Rightarrow> net_env \<Rightarrow> Client \<Rightarrow> ChatRequest \<Rightarrow> (Error + ChatResponse) \<times> http_request list" where
  "Chat cd env c req =
     do_request cd env c ''POST'' ''/api/chat''
       (Some (encode (ChatRequest_json (req\<lparr>cq_Stream := False\<rparr>))))
       (ChatResponse_fields cd) zero_ChatResponse ''chat''"

definition Models ::
  "codec \<Rightarrow> net_env \<Rightarrow> Client \<Rightarrow> (Error + TagModel list) \<times> http_request list" where
  "Models cd env c =
     do_request cd env c ''GET'' ''/api/tags'' None (tagsResponse_fields cd) [] ''models''"

definition ChatStream ::
  "net_env \<Rightarrow> Client \<Rightarrow> ChatRequest \<Rightarrow> (Error + ChatStream) \<times> http_request list" where
  "ChatStream env c req =
     (let body = Some (encode (ChatRequest_json (req\<lparr>cq_Stream := True\<rparr>)));
          url = ne_string env ((cl_baseURL c)\<lparr>u_Path := u_Path (cl_baseURL c) @ ''/api/chat'',
                                              u_RawPath := []\<rparr>)
      in case ne_build env ''POST'' url of
           Some e \<Rightarrow> (Inl (local_error ''chat_stream'' (''build request: '' @ e)), [])
         | None \<Rightarrow>
             (case client_do env (hc_CheckRedirect (cl_streamHC c)) max_redirects
                     \<lparr>hq_Method = ''POST'', hq_URL = url,
                      hq_Header = request_header c body ''application/x-ndjson, application/json'',
                      hq_Body = body\<rparr> of
                (Inl e, sent) \<Rightarrow> (Inl (local_error ''chat_stream'' e), sent)
              | (Inr p, sent) \<Rightarrow>
                  if hs_Status p < 200 \<or> 300 \<le> hs_Status p
                  then (Inl (status_error ''chat_stream'' p), sent)
                  else (Inr (newChatStream (hs_Body p)), sent)))"

subsection \<open>The interface of the server package\<close>

text \<open>
  The methods return a Go \<open>error\<close>: a \<open>*bridge.Error\<close>, or anything else an implementation
  chooses. \<open>bridge_ops\<close> is one implementation in its environment.
\<close>

datatype upstream_error = BridgeError Error | ForeignError bytes

record bridge_ops =
  br_Chat :: "ChatRequest \<Rightarrow> upstream_error + ChatResponse"
  br_ChatStream :: "ChatRequest \<Rightarrow> upstream_error + ChatStream"
  br_Models :: "upstream_error + TagModel list"

definition map_left :: "('a \<Rightarrow> 'c) \<Rightarrow> 'a + 'b \<Rightarrow> 'c + 'b" where
  "map_left f x = (case x of Inl a \<Rightarrow> Inl (f a) | Inr b \<Rightarrow> Inr b)"

definition client_ops :: "codec \<Rightarrow> net_env \<Rightarrow> Client \<Rightarrow> bridge_ops" where
  "client_ops cd env c =
     \<lparr>br_Chat = (\<lambda>q. map_left BridgeError (fst (Chat cd env c q))),
      br_ChatStream = (\<lambda>q. map_left BridgeError (fst (BridgeClient.ChatStream env c q))),
      br_Models = map_left BridgeError (fst (Models cd env c))\<rparr>"

text \<open>
  A proper error is a failure with a cause and no status, or a response whose status is not
  a success and whose body is kept only up to the limit.
\<close>

definition proper_error :: "Error \<Rightarrow> bool" where
  "proper_error e \<longleftrightarrow>
     (case er_Err e of
        Some _ \<Rightarrow> er_Status e = 0 \<and> er_Body e = []
      | None \<Rightarrow> \<not> (200 \<le> er_Status e \<and> er_Status e < 300) \<and> length (er_Body e) \<le> maxErrorBodyBytes)"

fun proper_failure :: "upstream_error \<Rightarrow> bool" where
  "proper_failure (BridgeError e) = proper_error e"
| "proper_failure (ForeignError _) = False"

locale bridge =
  fixes ops :: bridge_ops
  assumes chat_error: "br_Chat ops q = Inl e \<Longrightarrow> proper_failure e"
    and stream_open_error: "br_ChatStream ops q = Inl e \<Longrightarrow> proper_failure e"
    and models_error: "br_Models ops = Inl e \<Longrightarrow> proper_failure e"
    and stream_open: "br_ChatStream ops q = Inr s \<Longrightarrow> \<not> cs_closed s"
    and chat_model: "br_Chat ops q = Inr p \<Longrightarrow> valid_utf8 (cp_Model p)"

lemma proper_local_error [simp]: "proper_error (local_error op t)"
  by (simp add: proper_error_def local_error_def)

lemma proper_stream_error [simp]: "proper_error (stream_error t)"
  by (simp add: proper_error_def stream_error_def)

lemma proper_status_error:
  "hs_Status p < 200 \<or> 300 \<le> hs_Status p \<Longrightarrow> proper_error (status_error op p)"
  using length_trim_space [of "take maxErrorBodyBytes (bd_data (hs_Body p))"]
  by (auto simp: proper_error_def status_error_def)

lemma do_request_error:
  "fst (do_request cd env c method path body fs zero op) = Inl e \<Longrightarrow> proper_error e"
  by (auto simp: do_request_def Let_def proper_status_error
      split: option.splits prod.splits sum.splits if_splits)

lemma ChatStream_error: "fst (BridgeClient.ChatStream env c q) = Inl e \<Longrightarrow> proper_error e"
  by (auto simp: BridgeClient.ChatStream_def Let_def proper_status_error
      split: option.splits prod.splits sum.splits if_splits)

lemma ChatStream_open: "fst (BridgeClient.ChatStream env c q) = Inr s \<Longrightarrow> \<not> cs_closed s"
  by (auto simp: BridgeClient.ChatStream_def Let_def newChatStream_def
      split: option.splits prod.splits sum.splits if_splits)

lemma response_field_model:
  "f \<in> snd ` set (ChatResponse_fields cd) \<Longrightarrow> valid_strings v \<Longrightarrow> valid_utf8 (cp_Model p) \<Longrightarrow>
   valid_utf8 (cp_Model (fst (f v p)))"
  by (auto simp: ChatResponse_fields_def store_str_def store_bool_def store_int_def store_in_def
      split_beta split: jval.splits sum.splits)

lemma decode_body_model:
  assumes "decode_body cd (ChatResponse_fields cd) zero_ChatResponse b = Inr p"
  shows "valid_utf8 (cp_Model p)"
proof -
  obtain v rest where v: "decode_next (bd_data b) (bd_end b \<noteq> None) = Inr (v, rest)"
    and p: "p = fst (store_struct False [] (ChatResponse_fields cd) v zero_ChatResponse)"
    using assms by (auto simp: decode_body_def Let_def split: sum.splits prod.splits option.splits)
  show ?thesis
    unfolding p
    by (rule store_struct_keeps [where P = "\<lambda>p. valid_utf8 (cp_Model p)"])
      (use response_field_model decode_next_valid [OF v] in \<open>auto simp: zero_ChatResponse_def\<close>)
qed

lemma do_request_decoded:
  "fst (do_request cd env c method path body fs zero op) = Inr x \<Longrightarrow>
   \<exists>b. decode_body cd fs zero b = Inr x"
  by (auto simp: do_request_def Let_def split: option.splits prod.splits sum.splits if_splits)

lemma map_left_Inl: "map_left f x = Inl y \<longleftrightarrow> (\<exists>a. x = Inl a \<and> y = f a)"
  and map_left_Inr: "map_left f x = Inr z \<longleftrightarrow> x = Inr z"
  by (auto simp: map_left_def split: sum.splits)

interpretation client: bridge "client_ops cd env c" for cd env c
proof unfold_locales
  fix q e
  show "br_Chat (client_ops cd env c) q = Inl e \<Longrightarrow> proper_failure e"
    by (auto simp: client_ops_def map_left_Inl Chat_def dest: do_request_error)
  show "br_ChatStream (client_ops cd env c) q = Inl e \<Longrightarrow> proper_failure e"
    by (auto simp: client_ops_def map_left_Inl dest: ChatStream_error)
  show "br_Models (client_ops cd env c) = Inl e \<Longrightarrow> proper_failure e"
    by (auto simp: client_ops_def map_left_Inl Models_def dest: do_request_error)
  show "br_ChatStream (client_ops cd env c) q = Inr s \<Longrightarrow> \<not> cs_closed s" for s
    by (auto simp: client_ops_def map_left_Inr dest: ChatStream_open)
  show "br_Chat (client_ops cd env c) q = Inr p \<Longrightarrow> valid_utf8 (cp_Model p)" for p
    by (auto simp: client_ops_def map_left_Inr Chat_def dest!: do_request_decoded decode_body_model)
qed

subsection \<open>What goes out\<close>

text \<open>Either there is no \<open>Location\<close> or it parses.\<close>

definition usable_location :: "net_env \<Rightarrow> http_response \<Rightarrow> bool" where
  "usable_location env p \<longleftrightarrow>
     hs_Location p = [] \<or> (\<forall>url. is_Inr (ne_resolve env url (hs_Location p)))"

lemma client_do_one: "snd (client_do env UseLastResponse hops q) = [q]"
  by (simp add: client_do.simps [of env UseLastResponse hops q] split: sum.split)

lemma client_do_last:
  assumes "ne_net env q = Inr p" and "usable_location env p"
  shows "client_do env UseLastResponse hops q = (Inr p, [q])"
proof -
  have "hs_Location p = [] \<or> (\<exists>u. ne_resolve env (hq_URL q) (hs_Location p) = Inr u)"
    using assms(2) by (auto simp: usable_location_def is_Inr_iff)
  then show ?thesis
    using assms(1) by (auto simp: client_do.simps [of env UseLastResponse hops q])
qed

text \<open>A client that \<open>New\<close> has built: it follows no redirect, and its path has no final slash.\<close>

definition client_ok :: "Client \<Rightarrow> bool" where
  "client_ok c \<longleftrightarrow>
     hc_CheckRedirect (cl_hc c) = UseLastResponse \<and>
     hc_CheckRedirect (cl_streamHC c) = UseLastResponse"

lemma fold_options_base: "cl_baseURL (fold apply_option opts c) = cl_baseURL c"
proof (induction opts arbitrary: c)
  case (Cons opt opts)
  have "cl_baseURL (apply_option opt c) = cl_baseURL c"
    by (cases "(opt, c)" rule: apply_option.cases) simp_all
  with Cons show ?case by simp
qed simp

lemma New_cases:
  assumes "New cd env baseURL opts = Inr c"
  obtains u where "ne_parse env baseURL = Inr u" and "u_Scheme u \<in> {''http'', ''https''}"
    and "u_Host u \<noteq> []" and "client_ok c"
    and "cl_baseURL c = u\<lparr>u_Path := trim_right_set ''/'' (u_Path u)\<rparr>"
  using assms
  by (auto simp: New_def Let_def client_ok_def refuseRedirects_def fold_options_base
      split: sum.splits if_splits)

lemma do_request_sent:
  assumes "client_ok c"
  shows "length (snd (do_request cd env c method path body fs zero op)) \<le> 1"
    and "q \<in> set (snd (do_request cd env c method path body fs zero op)) \<Longrightarrow>
      hq_URL q = ne_string env (endpoint_url c path) \<and> hq_Method q = method \<and> hq_Body q = body"
  using assms client_do_one [of env max_redirects]
  by (auto simp: do_request_def Let_def client_ok_def split_beta
      split: option.splits sum.splits if_splits)

lemma ChatStream_sent:
  assumes "client_ok c"
  shows "length (snd (BridgeClient.ChatStream env c req)) \<le> 1"
    and "q \<in> set (snd (BridgeClient.ChatStream env c req)) \<Longrightarrow>
      hq_URL q = ne_string env (endpoint_url c ''/api/chat'') \<and> hq_Method q = ''POST'' \<and>
      hq_Body q = Some (encode (ChatRequest_json (req\<lparr>cq_Stream := True\<rparr>)))"
  using assms client_do_one [of env max_redirects]
  by (auto simp: BridgeClient.ChatStream_def Let_def client_ok_def split_beta endpoint_url_def
      trim_left_set_def split: option.splits sum.splits if_splits)

text \<open>C16: the bridge is a single hop: whatever options built the client and whatever the upstream
  answers, a chat, streaming or not, puts at most one request on the network, a POST to the
  configured scheme and host with the endpoint appended to the configured path, and carries
  the question with the mode that the call stands for. No redirect is ever followed.\<close>

theorem chat_contacts_base_only:
  assumes "New cd env baseURL opts = Inr c"
    and "q \<in> set (snd (Chat cd env c req)) \<union> set (snd (BridgeClient.ChatStream env c req))"
  shows "length (snd (Chat cd env c req)) \<le> 1 \<and>
    length (snd (BridgeClient.ChatStream env c req)) \<le> 1 \<and>
    hq_Method q = ''POST'' \<and>
    (\<exists>u stream. ne_parse env baseURL = Inr u \<and>
      hq_URL q = ne_string env
        (u\<lparr>u_Path := trim_right_set ''/'' (u_Path u) @ ''/api/chat'', u_RawPath := []\<rparr>) \<and>
      hq_Body q = Some (encode (ChatRequest_json (req\<lparr>cq_Stream := stream\<rparr>))))"
proof -
  obtain u where u: "ne_parse env baseURL = Inr u" and ok: "client_ok c"
    and base: "cl_baseURL c = u\<lparr>u_Path := trim_right_set ''/'' (u_Path u)\<rparr>"
    using New_cases [OF assms(1)] by metis
  have url: "endpoint_url c ''/api/chat'' =
      u\<lparr>u_Path := trim_right_set ''/'' (u_Path u) @ ''/api/chat'', u_RawPath := []\<rparr>"
    by (simp add: endpoint_url_def base trim_left_set_def)
  have "length (snd (Chat cd env c req)) \<le> 1"
    using do_request_sent(1) [OF ok] by (simp add: Chat_def)
  moreover have "length (snd (BridgeClient.ChatStream env c req)) \<le> 1"
    by (rule ChatStream_sent(1) [OF ok])
  moreover obtain stream where "hq_URL q = ne_string env (endpoint_url c ''/api/chat'')"
    and "hq_Method q = ''POST''"
    and "hq_Body q = Some (encode (ChatRequest_json (req\<lparr>cq_Stream := stream\<rparr>)))"
  proof (cases "q \<in> set (snd (Chat cd env c req))")
    case True
    then show ?thesis using that do_request_sent(2) [OF ok True [unfolded Chat_def]] by simp
  next
    case False
    then have "q \<in> set (snd (BridgeClient.ChatStream env c req))" using assms(2) by simp
    from that ChatStream_sent(2) [OF ok this] show ?thesis by simp
  qed
  ultimately show ?thesis using u by (auto simp: url)
qed

lemma do_request_status:
  assumes "client_ok c" and "ne_build env method (ne_string env (endpoint_url c path)) = None"
    and "\<And>q. ne_net env q = Inr p" and "usable_location env p"
    and "hs_Status p < 200 \<or> 300 \<le> hs_Status p"
  shows "fst (do_request cd env c method path body fs zero op) = Inl (status_error op p)"
proof -
  have "client_do env (hc_CheckRedirect (cl_hc c)) max_redirects q = (Inr p, [q])" for q
    using client_do_last [OF assms(3,4)] assms(1) by (simp add: client_ok_def)
  then show ?thesis unfolding do_request_def Let_def assms(2) using assms(5) by simp
qed

lemma ChatStream_status:
  assumes "client_ok c" and "\<And>u. ne_build env ''POST'' u = None"
    and "\<And>q. ne_net env q = Inr p" and "usable_location env p"
    and "hs_Status p < 200 \<or> 300 \<le> hs_Status p"
  shows "fst (BridgeClient.ChatStream env c req) = Inl (status_error ''chat_stream'' p)"
proof -
  have "client_do env (hc_CheckRedirect (cl_streamHC c)) max_redirects q = (Inr p, [q])" for q
    using client_do_last [OF assms(3,4)] assms(1) by (simp add: client_ok_def)
  then show ?thesis unfolding BridgeClient.ChatStream_def Let_def assms(2) using assms(5) by simp
qed

text \<open>C37: an upstream that answers with anything but a success, a redirect included, is an error that
  carries the status and at most 4096 bytes of the body, and never a response to a caller.\<close>

theorem unsuccessful_status_is_error:
  assumes "New cd env baseURL opts = Inr c"
    and "\<And>m u. ne_build env m u = None"
    and "\<And>q. ne_net env q = Inr p" and "usable_location env p"
    and "hs_Status p < 200 \<or> 300 \<le> hs_Status p"
  shows "\<exists>body. length body \<le> 4096 \<and>
    fst (Chat cd env c req) =
      Inl \<lparr>er_Status = hs_Status p, er_Op = ''chat'', er_Body = body, er_Err = None\<rparr> \<and>
    fst (BridgeClient.ChatStream env c req) =
      Inl \<lparr>er_Status = hs_Status p, er_Op = ''chat_stream'', er_Body = body, er_Err = None\<rparr> \<and>
    fst (Models cd env c) =
      Inl \<lparr>er_Status = hs_Status p, er_Op = ''models'', er_Body = body, er_Err = None\<rparr>"
proof -
  have ok: "client_ok c" using New_cases [OF assms(1)] by metis
  let ?b = "trim_space (take maxErrorBodyBytes (bd_data (hs_Body p)))"
  have "length ?b \<le> 4096"
    using length_trim_space [of "take maxErrorBodyBytes (bd_data (hs_Body p))"]
    by (simp add: maxErrorBodyBytes_def)
  moreover have "fst (Chat cd env c req) = Inl (status_error ''chat'' p)"
    and "fst (BridgeClient.ChatStream env c req) = Inl (status_error ''chat_stream'' p)"
    and "fst (Models cd env c) = Inl (status_error ''models'' p)"
    unfolding Chat_def Models_def
    by (rule do_request_status ChatStream_status; fact ok assms(2-5))+
  ultimately show ?thesis unfolding status_error_def by blast
qed

subsection \<open>A concrete upstream\<close>

definition text_body :: "bytes \<Rightarrow> Body" where
  "text_body t = \<lparr>bd_data = t, bd_end = None, bd_eager = False, bd_closed = False\<rparr>"

definition redirecting_env :: net_env where
  "redirecting_env =
     \<lparr>ne_parse = (\<lambda>_. Inr \<lparr>u_Scheme = ''http'', u_Host = ''b'', u_Path = ''/x/'', u_RawPath = []\<rparr>),
      ne_string = (\<lambda>u. u_Scheme u @ ''://'' @ u_Host u @ u_Path u),
      ne_build = (\<lambda>_ _. None), ne_resolve = (\<lambda>_ l. Inr l),
      ne_net = (\<lambda>_. Inr \<lparr>hs_Status = 307, hs_Location = ''http://evil/'',
                        hs_Body = text_body ''moved''\<rparr>)\<rparr>"

definition sample_question :: ChatRequest where
  "sample_question = \<lparr>cq_Model = ''m'', cq_Messages = [], cq_Stream = False, cq_Options = None\<rparr>"

definition sample_client :: Client where
  "sample_client =
     (case New plain_codec redirecting_env ''http://b/x/'' [] of Inr c \<Rightarrow> c)"

lemma sample_client_New:
  "New plain_codec redirecting_env ''http://b/x/'' [] = Inr sample_client"
  unfolding sample_client_def by (simp add: New_def redirecting_env_def Let_def)

theorem chat_contacts_base_only_witness:
  "hq_URL ` set (snd (Chat plain_codec redirecting_env sample_client sample_question))
     \<subseteq> {''http://b/x/api/chat''}"
proof (rule image_subsetI)
  fix q assume "q \<in> set (snd (Chat plain_codec redirecting_env sample_client sample_question))"
  then have "q \<in> set (snd (Chat plain_codec redirecting_env sample_client sample_question)) \<union>
      set (snd (BridgeClient.ChatStream redirecting_env sample_client sample_question))" by simp
  from chat_contacts_base_only [OF sample_client_New this] show "hq_URL q \<in> {''http://b/x/api/chat''}"
    by (auto simp: redirecting_env_def trim_right_set_def)
qed

theorem unsuccessful_status_is_error_witness:
  "\<exists>body. fst (Chat plain_codec redirecting_env sample_client sample_question) =
     Inl \<lparr>er_Status = 307, er_Op = ''chat'', er_Body = body, er_Err = None\<rparr>"
  using unsuccessful_status_is_error [OF sample_client_New, where req = sample_question
      and p = "\<lparr>hs_Status = 307, hs_Location = ''http://evil/'', hs_Body = text_body ''moved''\<rparr>"]
  by (auto simp: redirecting_env_def usable_location_def)

end
