(* ===== verification/Handlers.thy ===== *)
theory Handlers
  imports AuthMiddleware BridgeClient
begin

text \<open>
  The helpers of \<open>internal/server/handlers.go\<close>: the checks on a request in the order in which
  \<open>ask\<close> makes them, the translations between the bridge's, the wire's and the audit log's tool
  calls, and the observations in metrics and audit.
\<close>

definition maxQueryBytes :: nat where
  "maxQueryBytes = 4 * 1024"

record ('l, 'b) handlers =
  h_rt :: "('l, 'b) runtime"
  h_cd :: codec
  h_bridge :: bridge_ops
  h_defaultModel :: bytes
  h_maxRequestBytes :: int
  h_requestTimeout :: int

subsection \<open>Checks on a request\<close>

text \<open>The text before the first semicolon.\<close>

definition media_type :: "bytes \<Rightarrow> bytes" where
  "media_type ct = (case cut (CHR '';'') ct of Some (m, _) \<Rightarrow> m | None \<Rightarrow> ct)"

definition requireJSON :: "Request \<Rightarrow> bytes option" where
  "requireJSON r =
     (let ct = header_get r ''Content-Type'' in
      if ct = [] then Some ''Content-Type must be application/json''
      else if trim_space (to_lower (media_type ct)) \<noteq> ''application/json''
      then Some ''Content-Type must be application/json''
      else None)"

definition is_hex_char :: "char \<Rightarrow> bool" where
  "is_hex_char c \<longleftrightarrow>
     char_between (CHR ''0'') (CHR ''9'') c \<or> char_between (CHR ''a'') (CHR ''f'') c \<or>
     char_between (CHR ''A'') (CHR ''F'') c"

text \<open>
  The loop ranges over runes; a rune outside ASCII fails at its first byte as it would byte by
  byte.
\<close>

fun uuid_chars :: "nat \<Rightarrow> bytes \<Rightarrow> bool" where
  "uuid_chars i [] = True"
| "uuid_chars i (c # s) =
     ((if i \<in> {8, 13, 18, 23} then c = CHR ''-'' else is_hex_char c) \<and> uuid_chars (Suc i) s)"

definition isUUIDLike :: "bytes \<Rightarrow> bool" where
  "isUUIDLike s \<longleftrightarrow> length s = 36 \<and> uuid_chars 0 s"

definition validateAskRequest :: "AskRequest \<Rightarrow> bytes option" where
  "validateAskRequest q =
     (if trim_space (ask_Query q) = [] then Some ''query is required''
      else if maxQueryBytes < length (ask_Query q) then Some ''query exceeds maximum length''
      else if \<not> valid_utf8 (ask_Query q) then Some ''query must be valid UTF-8''
      else if ask_ConversationID q \<noteq> [] \<and> \<not> isUUIDLike (ask_ConversationID q)
      then Some ''conversation_id must be a UUID''
      else None)"

definition unknown_field_prefix :: bytes where
  "unknown_field_prefix = ''json: unknown field ''"

text \<open>The text of the error, \<open>err.Error()\<close>, comes with its kind.\<close>

definition decodeErrorDetail :: "bytes \<Rightarrow> dec_error \<Rightarrow> bytes" where
  "decodeErrorDetail msg e =
     (if has_prefix msg unknown_field_prefix then ''request body has '' @ trim_prefix msg ''json: ''
      else case e of
             WrongType f \<Rightarrow>
               if f \<noteq> [] then ''request body field '' @ f @ '' has wrong type''
               else ''request body has a field of the wrong type''
           | _ \<Rightarrow> ''request body is not valid JSON'')"

text \<open>
  Reading the body: \<open>http.MaxBytesReader\<close> lets through the first \<open>limit\<close> bytes and fails
  at the next; below the limit the body ends, or fails with the error \<open>fault\<close> of the connection.
  The first \<open>Decode\<close> fills the request, the second must meet the end.
\<close>

definition decode_request ::
  "codec \<Rightarrow> nat \<Rightarrow> bytes \<Rightarrow> bytes option \<Rightarrow> int \<times> bytes + AskRequest" where
  "decode_request cd limit body fault =
     (let over = limit < length body;
          fails = over \<or> fault \<noteq> None;
          bad = (\<lambda>e. if e = ReadFailed \<and> over
                     then Inl (413, ''request body exceeds configured limit'')
                     else Inl (400, decodeErrorDetail
                       (case (e, fault) of (ReadFailed, Some t) \<Rightarrow> t | _ \<Rightarrow> cd_error_text cd e) e))
      in case decode_next (take limit body) fails of
           Inl e \<Rightarrow> bad e
         | Inr (v, rest) \<Rightarrow>
             (case store_struct True [] AskRequest_fields v zero_AskRequest of
                (_, Some e) \<Rightarrow> bad e
              | (q, None) \<Rightarrow>
                  if decode_next rest fails = Inl EndOfInput then Inr q
                  else Inl (400, ''request body must contain exactly one JSON object'')))"

text \<open>The four checks of \<open>ask\<close> before it does anything: a status and a detail, or the request.\<close>

definition accept_request ::
  "codec \<Rightarrow> nat \<Rightarrow> Request \<Rightarrow> int \<times> bytes + AskRequest" where
  "accept_request cd limit r =
     (case requireJSON r of
        Some e \<Rightarrow> Inl (415, e)
      | None \<Rightarrow>
          (case decode_request cd limit (rq_Body r) (rq_BodyError r) of
             Inl x \<Rightarrow> Inl x
           | Inr q \<Rightarrow> (case validateAskRequest q of Some e \<Rightarrow> Inl (400, e) | None \<Rightarrow> Inr q)))"

definition modelOrDefault :: "bytes \<Rightarrow> bytes \<Rightarrow> bytes" where
  "modelOrDefault requested fallback = (if requested = [] then fallback else requested)"

definition parseBearerToken :: "bytes \<Rightarrow> bytes \<times> bool" where
  "parseBearerToken header =
     (if header = [] then ([], False)
      else case cut (CHR '' '') header of
             None \<Rightarrow> ([], False)
           | Some (scheme, rest) \<Rightarrow>
               if \<not> equal_fold scheme ''bearer'' then ([], False)
               else let token = trim_space rest in
                    if token = [] then ([], False) else (token, True))"

subsection \<open>Tool calls\<close>

definition toAPIToolCalls :: "BridgeToolCall list \<Rightarrow> ToolCall list" where
  "toAPIToolCalls tcs =
     map (\<lambda>tc. \<lparr>tc_Name = tf_Name (bt_Function tc), tc_Args = tf_Arguments (bt_Function tc),
                tc_DurationMS = 0\<rparr>) tcs"

definition toAuditToolCalls :: "ToolCall list \<Rightarrow> AuditToolCall list" where
  "toAuditToolCalls tcs = map (\<lambda>tc. \<lparr>at_Name = tc_Name tc, at_DurationMS = tc_DurationMS tc\<rparr>) tcs"

definition maxToolNameLabelLen :: nat where
  "maxToolNameLabelLen = 64"

text \<open>\<open>^[A-Za-z0-9_.-]+$\<close>; without the \<open>m\<close> flag \<open>$\<close> is the end of the text.\<close>

definition tool_label_char :: "char \<Rightarrow> bool" where
  "tool_label_char c \<longleftrightarrow>
     char_between (CHR ''A'') (CHR ''Z'') c \<or> char_between (CHR ''a'') (CHR ''z'') c \<or>
     char_between (CHR ''0'') (CHR ''9'') c \<or> c = CHR ''_'' \<or> c = CHR ''.'' \<or> c = CHR ''-''"

definition toolNameLabelRe :: "bytes \<Rightarrow> bool" where
  "toolNameLabelRe s \<longleftrightarrow> s \<noteq> [] \<and> list_all tool_label_char s"

definition sanitizeToolNameLabel :: "bytes \<Rightarrow> bytes" where
  "sanitizeToolNameLabel name =
     (if name = [] \<or> maxToolNameLabelLen < length name \<or> \<not> toolNameLabelRe name
      then ''_invalid'' else name)"

subsection \<open>Observations\<close>

definition observeTokens :: "bytes \<Rightarrow> int \<Rightarrow> int \<Rightarrow> Registry \<Rightarrow> Registry" where
  "observeTokens model prompt completion m0 =
     (let m1 = (if 0 < prompt then Counter_Add ModelTokens [model, ''prompt''] prompt m0 else m0)
      in if 0 < completion then Counter_Add ModelTokens [model, ''completion''] completion m1
         else m1)"

definition observeToolCall :: "ToolCall \<Rightarrow> Registry \<Rightarrow> Registry" where
  "observeToolCall tc m0 =
     (let name = sanitizeToolNameLabel (tc_Name tc);
          m1 = Counter_Inc ToolCalls [name] m0
      in if 0 < tc_DurationMS tc then Histogram_Observe ToolDuration [name] (tc_DurationMS tc) 1000 m1
         else m1)"

definition observeToolCalls :: "ToolCall list \<Rightarrow> Registry \<Rightarrow> Registry" where
  "observeToolCalls tcs = fold observeToolCall tcs"

definition upstream_kind :: "upstream_error \<Rightarrow> bytes" where
  "upstream_kind e =
     (case e of
        ForeignError _ \<Rightarrow> ''unknown''
      | BridgeError b \<Rightarrow>
          if er_Status b = 0 then ''transport''
          else if 500 \<le> er_Status b then ''http_5xx''
          else if 400 \<le> er_Status b then ''http_4xx''
          else ''http_other'')"

definition recordUpstreamError :: "bytes \<Rightarrow> upstream_error \<Rightarrow> Registry \<Rightarrow> Registry" where
  "recordUpstreamError op e = Counter_Inc UpstreamErrors [op, upstream_kind e]"

text \<open>\<open>logAudit\<close>: an event without a timestamp reads the clock; a failed write only logs.\<close>

definition logAudit ::
  "('l, 'b) handlers \<Rightarrow> Event \<Rightarrow> ('l, 'b, 'v) server \<Rightarrow> ('l, 'b, 'v) server" where
  "logAudit h e s0 =
     (let (t, s1) = time_now (h_rt h) s0;
          (failed, lg) = Log (rtm_rfc3339 (h_rt h) t) e (sh_audit s1);
          s2 = s1\<lparr>sh_audit := lg\<rparr>
      in case failed of
           None \<Rightarrow> s2
         | Some err \<Rightarrow>
             log_at LError ''audit log write failed''
               [(''request_id'', AText (ev_RequestID e)), (''err'', AText err)] s2)"

text \<open>
  What the handlers pass to \<open>writeJSON\<close> consists of strings, integers, finite floats and the
  times that the codec has written, so \<open>json.Marshal\<close> does not fail and the branch that would
  answer 500 is dead.
\<close>

definition writeJSON ::
  "Request \<Rightarrow> int \<Rightarrow> json \<Rightarrow> ('l, 'b, 'v) server \<Rightarrow> ('l, 'b, 'v) server" where
  "writeJSON r status v =
     on_writer (\<lambda>w. snd (sw_Write (encode v)
       (sw_WriteHeader status (sw_Header_Set ''Content-Type'' ''application/json'' w))))"

definition millis :: "int \<Rightarrow> int" where
  "millis d = d sdiv 1000000"

subsection \<open>Frames\<close>

lemma logAudit_frame [frame_simps]:
  "sv_w (logAudit h e s) = sv_w s"
  "sh_metrics (logAudit h e s) = sh_metrics s"
  "sh_limiter (logAudit h e s) = sh_limiter s"
  "sh_auth (logAudit h e s) = sh_auth s"
  "sh_audit (logAudit h e s) =
     snd (Log (rtm_rfc3339 (h_rt h) (rtm_clock (h_rt h) (sh_ticks s))) e (sh_audit s))"
  by (simp_all add: logAudit_def Let_def split_beta frame_simps time_now_def split: option.split)

lemma writeJSON_frame [frame_simps]:
  "sh_metrics (writeJSON r st v s) = sh_metrics s"
  "sh_logs (writeJSON r st v s) = sh_logs s"
  "sh_audit (writeJSON r st v s) = sh_audit s"
  "sh_limiter (writeJSON r st v s) = sh_limiter s"
  "sh_auth (writeJSON r st v s) = sh_auth s"
  "sh_ticks (writeJSON r st v s) = sh_ticks s"
  "sv_w (writeJSON r st v s) = snd (sw_Write (encode v)
     (sw_WriteHeader st (sw_Header_Set ''Content-Type'' ''application/json'' (sv_w s))))"
  by (simp_all add: writeJSON_def frame_simps)

lemma value_observations [metric_simps]:
  "f \<noteq> ModelTokens \<Longrightarrow>
     metric_value f ls (observeTokens model p c m) = metric_value f ls m"
  "f \<noteq> ToolCalls \<Longrightarrow> metric_value f ls (observeToolCall tc m) = metric_value f ls m"
  "f \<noteq> UpstreamErrors \<Longrightarrow>
     metric_value f ls (recordUpstreamError op e m) = metric_value f ls m"
  by (simp_all add: observeTokens_def observeToolCall_def recordUpstreamError_def Let_def
      metric_simps)

lemma value_observeToolCalls [metric_simps]:
  "f \<noteq> ToolCalls \<Longrightarrow> metric_value f ls (observeToolCalls tcs m) = metric_value f ls m"
  by (induction tcs arbitrary: m) (simp_all add: observeToolCalls_def metric_simps)

subsection \<open>The two readings of the \<open>Authorization\<close> header\<close>

text \<open>The tolerant re-extraction of the bearer token in the handler agrees with the extraction of
  the auth middleware on every header: the caller identity of the audit log and the rate
  limiter is always that of the token that was validated.\<close>

theorem parse_agrees_with_extract:
  "parseBearerToken h = (case extractBearer h of Inr t \<Rightarrow> (t, True) | Inl _ \<Rightarrow> ([], False))"
  by (auto simp: parseBearerToken_def extractBearer_def bearerScheme_def Let_def
      split: option.split)

subsection \<open>Conversation IDs\<close>

lemma uuid_chars_append: "uuid_chars i (s @ t) \<longleftrightarrow> uuid_chars i s \<and> uuid_chars (i + length s) t"
  by (induction s arbitrary: i) auto

lemma uuid_chars_hex:
  "(\<And>k. k < length s \<Longrightarrow> i + k \<notin> {8, 13, 18, 23}) \<Longrightarrow> uuid_chars i s \<longleftrightarrow> list_all is_hex_char s"
proof (induction s arbitrary: i)
  case (Cons c s)
  have "uuid_chars (Suc i) s \<longleftrightarrow> list_all is_hex_char s"
    using Cons.prems [of "Suc k" for k] by (intro Cons.IH) auto
  moreover have "i \<notin> {8, 13, 18, 23}" using Cons.prems [of 0] by simp
  ultimately show ?case by simp
qed simp

definition hex_group :: "nat \<Rightarrow> bytes \<Rightarrow> bool" where
  "hex_group n s \<longleftrightarrow> length s = n \<and> list_all is_hex_char s"

lemma uuid_of_groups:
  assumes "hex_group 8 a" and "hex_group 4 b" and "hex_group 4 c" and "hex_group 4 d"
    and "hex_group 12 e"
  shows "isUUIDLike (a @ ''-'' @ b @ ''-'' @ c @ ''-'' @ d @ ''-'' @ e)"
  using assms
  by (simp add: isUUIDLike_def hex_group_def uuid_chars_append uuid_chars_hex)

lemma split_atE:
  assumes "length s = n + m"
  obtains a t where "s = a @ t" and "length a = n" and "length t = m"
  using that [of "take n s" "drop n s"] assms by simp

lemma split_headE:
  assumes "length s = Suc m"
  obtains x t where "s = x # t" and "length t = m"
  using that [of "hd s" "tl s"] assms by (cases s) simp_all

lemma groups_of_uuid:
  assumes "isUUIDLike s"
  shows "\<exists>a b c d e. s = a @ ''-'' @ b @ ''-'' @ c @ ''-'' @ d @ ''-'' @ e \<and>
    hex_group 8 a \<and> hex_group 4 b \<and> hex_group 4 c \<and> hex_group 4 d \<and> hex_group 12 e"
proof -
  have len: "length s = 36" and u: "uuid_chars 0 s" using assms by (simp_all add: isUUIDLike_def)
  obtain a s1 where s: "s = a @ s1" "length a = 8" "length s1 = 28"
    by (rule split_atE [of s 8 28]) (simp add: len)
  obtain b s2 where s1: "s1 = b @ s2" "length b = 5" "length s2 = 23"
    by (rule split_atE [of s1 5 23]) (simp add: s)
  obtain c s3 where s2: "s2 = c @ s3" "length c = 5" "length s3 = 18"
    by (rule split_atE [of s2 5 18]) (simp add: s1)
  obtain d s4 where s3: "s3 = d @ s4" "length d = 5" "length s4 = 13"
    by (rule split_atE [of s3 5 13]) (simp add: s2)
  obtain b0 b' where b: "b = b0 # b'" "length b' = 4"
    by (rule split_headE [of b 4]) (simp add: s1(2))
  obtain c0 c' where c: "c = c0 # c'" "length c' = 4"
    by (rule split_headE [of c 4]) (simp add: s2(2))
  obtain d0 d' where d: "d = d0 # d'" "length d' = 4"
    by (rule split_headE [of d 4]) (simp add: s3(2))
  obtain e0 e' where e: "s4 = e0 # e'" "length e' = 12"
    by (rule split_headE [of s4 12]) (simp add: s3(3))
  have "s = a @ ''-'' @ b' @ ''-'' @ c' @ ''-'' @ d' @ ''-'' @ e' \<and>
    hex_group 8 a \<and> hex_group 4 b' \<and> hex_group 4 c' \<and> hex_group 4 d' \<and> hex_group 12 e'"
    using u s s1 s2 s3 b c d e
    by (simp add: uuid_chars_append uuid_chars_hex hex_group_def)
  then show ?thesis by blast
qed

text \<open>The conversation-ID check accepts exactly the texts of the form 8-4-4-4-12 in hex digits.\<close>

theorem uuid_shape:
  "isUUIDLike s \<longleftrightarrow> (\<exists>a b c d e. s = a @ ''-'' @ b @ ''-'' @ c @ ''-'' @ d @ ''-'' @ e \<and>
     hex_group 8 a \<and> hex_group 4 b \<and> hex_group 4 c \<and> hex_group 4 d \<and> hex_group 12 e)"
  using groups_of_uuid uuid_of_groups by blast

subsection \<open>Tool names as metric labels\<close>

definition safe_label :: "bytes \<Rightarrow> bool" where
  "safe_label l \<longleftrightarrow> 0 < length l \<and> length l \<le> maxToolNameLabelLen \<and> list_all tool_label_char l"

lemma sanitize_safe: "safe_label (sanitizeToolNameLabel name)"
proof -
  have "list_all tool_label_char ''_invalid''" by code_simp
  then show ?thesis
    by (auto simp: safe_label_def sanitizeToolNameLabel_def toolNameLabelRe_def
        maxToolNameLabelLen_def)
qed

lemma sanitize_keeps: "safe_label name \<Longrightarrow> sanitizeToolNameLabel name = name"
  by (auto simp: safe_label_def sanitizeToolNameLabel_def toolNameLabelRe_def)

lemma safe_label_valid: "safe_label l \<Longrightarrow> valid_utf8 l"
  by (rule valid_utf8_ascii_text)
    (auto simp: safe_label_def tool_label_char_def list_all_iff less_eq_char_def)

lemma tool_labels_fit:
  "labels_fit ToolCalls [sanitizeToolNameLabel name]"
  "labels_fit ToolDuration [sanitizeToolNameLabel name]"
  using safe_label_valid [OF sanitize_safe [of name]] by (simp_all add: labels_fit_def)

lemma panicked_observeToolCalls [metric_simps]:
  "mr_panicked (observeToolCalls tcs m) = mr_panicked m"
proof (induction tcs arbitrary: m)
  case (Cons tc tcs)
  have "mr_panicked (observeToolCall tc m) = mr_panicked m"
    by (simp add: observeToolCall_def Let_def metric_simps tool_labels_fit)
  with Cons show ?case by (simp add: observeToolCalls_def)
qed (simp add: observeToolCalls_def)

text \<open>The bridge reports no durations, and a call without one is not observed.\<close>

lemma tool_duration_unobserved:
  "series ToolDuration (observeToolCalls (toAPIToolCalls tcs) m) = series ToolDuration m"
proof (induction tcs arbitrary: m)
  case (Cons tc tcs)
  have "observeToolCalls (toAPIToolCalls (tc # tcs)) m = observeToolCalls (toAPIToolCalls tcs)
      (Counter_Inc ToolCalls [sanitizeToolNameLabel (tf_Name (bt_Function tc))] m)"
    by (simp add: observeToolCalls_def toAPIToolCalls_def observeToolCall_def Let_def)
  then show ?case using Cons by (simp add: metric_simps)
qed (simp add: observeToolCalls_def toAPIToolCalls_def)

text \<open>C31: whatever tool names a model makes up, the tool metrics only ever get series whose label is
  at most 64 characters of the identifier alphabet; a proper name is its own label, and all
  the others together add a single series. And the histogram of tool durations never gets one:
  the calls that the handlers pass on carry no duration.\<close>

theorem tool_series_bounded:
  "series f (observeToolCalls tcs m) \<subseteq>
     series f m \<union> {[l] | l. safe_label l \<and> (l = ''_invalid'' \<or> l \<in> tc_Name ` set tcs)} \<and>
   series ToolDuration (observeToolCalls (toAPIToolCalls btcs) m) = series ToolDuration m"
proof (intro conjI tool_duration_unobserved, induction tcs arbitrary: m)
  case (Cons tc tcs)
  have label: "sanitizeToolNameLabel (tc_Name tc) = ''_invalid'' \<or>
      sanitizeToolNameLabel (tc_Name tc) = tc_Name tc"
    by (simp add: sanitizeToolNameLabel_def)
  have step: "series f (observeToolCall tc m) \<subseteq>
      series f m \<union> {[l] | l. safe_label l \<and> (l = ''_invalid'' \<or> l = tc_Name tc)}"
    using sanitize_safe [of "tc_Name tc"] label
    by (auto simp: observeToolCall_def Let_def metric_simps tool_labels_fit split: if_splits)
  have "observeToolCalls (tc # tcs) m = observeToolCalls tcs (observeToolCall tc m)"
    by (simp add: observeToolCalls_def)
  then show ?case
    using order_trans [OF Cons.IH [of "observeToolCall tc m"] Un_mono [OF step order_refl]]
    by (simp add: subset_iff) blast
qed (simp add: observeToolCalls_def)

end
