(* ===== verification/Upstream.thy ===== *)
theory Upstream
  imports Handlers
begin

text \<open>
  \<open>bridgeErrorStatus\<close> and \<open>mapBridgeError\<close> of \<open>internal/server/server.go\<close>: what a failed call
  to the bridge becomes for the caller, and what of it only the log sees. The facts about the
  bridge client's errors are proved in the locale \<open>bridge\<close>.
\<close>

definition bridgeErrorStatus :: "upstream_error \<Rightarrow> int" where
  "bridgeErrorStatus e =
     (case e of
        BridgeError b \<Rightarrow> if er_Status b = 503 then 503 else 502
      | ForeignError _ \<Rightarrow> 502)"

definition upstream_error_text :: "upstream_error \<Rightarrow> bytes" where
  "upstream_error_text e =
     (case e of BridgeError b \<Rightarrow> Error_text b | ForeignError t \<Rightarrow> t)"

definition mapBridgeError ::
  "Request \<Rightarrow> bytes \<Rightarrow> upstream_error \<Rightarrow> ('l, 'b, 'v) server \<Rightarrow> ('l, 'b, 'v) server" where
  "mapBridgeError r op e s =
     (let who = [(''op'', AText op), (''request_id'', AText (FromContext r))] in
      case e of
        BridgeError b \<Rightarrow>
          if er_Status b = 0 then
            writeProblem r 502 ''Bad Gateway'' ''upstream bridge is unreachable''
              (log_at LError ''bridge transport failure''
                 (who @ [(''err'', AText (upstream_error_text e))]) s)
          else if er_Status b = 404 then
            writeProblem r 502 ''Bad Gateway'' ''requested upstream resource not found''
              (log_at LWarn ''bridge 404'' (who @ [(''body'', AText (er_Body b))]) s)
          else if er_Status b = 503 then
            writeProblem r 503 ''Service Unavailable'' ''upstream bridge is not ready''
              (log_at LWarn ''bridge 503'' (who @ [(''body'', AText (er_Body b))]) s)
          else
            writeProblem r 502 ''Bad Gateway'' ''upstream bridge returned an error''
              (log_at LError ''bridge non-2xx''
                 [(''op'', AText op), (''status'', ANum (er_Status b)),
                  (''request_id'', AText (FromContext r)), (''body'', AText (er_Body b))] s)
      | ForeignError t \<Rightarrow>
          writeProblem r 502 ''Bad Gateway'' ''upstream bridge returned an error''
            (log_at LError ''bridge unknown failure'' (who @ [(''err'', AText t)]) s))"

text \<open>The response alone: its detail depends on the class of the error only.\<close>

definition bridge_detail :: "upstream_error \<Rightarrow> bytes" where
  "bridge_detail e =
     (case e of
        BridgeError b \<Rightarrow>
          if er_Status b = 0 then ''upstream bridge is unreachable''
          else if er_Status b = 404 then ''requested upstream resource not found''
          else if er_Status b = 503 then ''upstream bridge is not ready''
          else ''upstream bridge returned an error''
      | ForeignError _ \<Rightarrow> ''upstream bridge returned an error'')"

lemma mapBridgeError_frame [frame_simps]:
  "sh_metrics (mapBridgeError r op e s) = sh_metrics s"
  "sh_audit (mapBridgeError r op e s) = sh_audit s"
  "sh_limiter (mapBridgeError r op e s) = sh_limiter s"
  "sh_auth (mapBridgeError r op e s) = sh_auth s"
  "sh_ticks (mapBridgeError r op e s) = sh_ticks s"
  by (cases e; simp add: mapBridgeError_def Let_def frame_simps)+

lemma mapBridgeError_writer [frame_simps]:
  "sv_w (mapBridgeError r op e s) =
     writeProblem_w r (bridgeErrorStatus e) (problemTitleFor (bridgeErrorStatus e))
       (bridge_detail e) (sv_w s)"
  by (cases e)
    (simp_all add: mapBridgeError_def bridgeErrorStatus_def bridge_detail_def Let_def frame_simps)

lemma bridgeErrorStatus_values: "bridgeErrorStatus e = 502 \<or> bridgeErrorStatus e = 503"
  by (simp add: bridgeErrorStatus_def split: upstream_error.split)

text \<open>The status that the audit log records for a failed upstream call is the status the caller
  gets, 502 or 503, under the title of that status.\<close>

theorem audited_status_is_wire_status:
  assumes "sw_ok (sv_w s)" and "sw_sent (sv_w s) = None"
  shows "\<exists>h. sw_sent (sv_w (mapBridgeError r op e s)) = Some (bridgeErrorStatus e, h) \<and>
    bridgeErrorStatus e \<in> {502, 503} \<and>
    (bridgeErrorStatus e = 503 \<longleftrightarrow> (\<exists>b. e = BridgeError b \<and> er_Status b = 503))"
  using writeProblem_w_sent [OF assms, of r "bridgeErrorStatus e"
      "problemTitleFor (bridgeErrorStatus e)" "bridge_detail e"]
    bridgeErrorStatus_values [of e]
  by (auto simp: frame_simps bridgeErrorStatus_def split: upstream_error.splits)

theorem audited_status_is_wire_status_witness:
  "\<exists>h. sw_sent (sv_w (mapBridgeError (plain_request []) ''chat''
     (BridgeError \<lparr>er_Status = 503, er_Op = ''chat'', er_Body = [], er_Err = None\<rparr>) fresh_server)) =
     Some (503, h)"
  using audited_status_is_wire_status [OF fresh_server_writer(1,2),
      where e = "BridgeError \<lparr>er_Status = 503, er_Op = ''chat'', er_Body = [], er_Err = None\<rparr>"]
  by (simp add: bridgeErrorStatus_def)

text \<open>C24: nothing that the upstream says reaches the caller: two failures with the same status give
  the same response, byte by byte, whatever bodies and error texts came with them.\<close>

theorem upstream_text_not_leaked:
  assumes "er_Status a = er_Status b"
  shows "sv_w (mapBridgeError r op (BridgeError a) s) = sv_w (mapBridgeError r op' (BridgeError b) s)"
  using assms by (simp add: frame_simps bridgeErrorStatus_def bridge_detail_def)

theorem upstream_text_not_leaked_witness:
  "sv_w (mapBridgeError (plain_request []) ''chat''
     (BridgeError \<lparr>er_Status = 500, er_Op = ''chat'', er_Body = ''secret'', er_Err = None\<rparr>)
     (fresh_server :: (int, int, Source) server)) =
   sv_w (mapBridgeError (plain_request []) ''models''
     (BridgeError \<lparr>er_Status = 500, er_Op = ''models'', er_Body = [], er_Err = None\<rparr>)
     (fresh_server :: (int, int, Source) server))"
  by (rule upstream_text_not_leaked) simp

subsection \<open>With the bridge client\<close>

definition known_kinds :: "bytes list" where
  "known_kinds = [''transport'', ''http_5xx'', ''http_4xx'', ''http_other'']"

lemma proper_kind: "proper_failure e \<Longrightarrow> upstream_kind e \<in> set known_kinds"
  by (cases e) (simp_all add: upstream_kind_def known_kinds_def)

context bridge
begin

lemma chat_kind: "br_Chat ops q = Inl e \<Longrightarrow> upstream_kind e \<in> set known_kinds"
  using chat_error proper_kind by blast

lemma stream_kind: "br_ChatStream ops q = Inl e \<Longrightarrow> upstream_kind e \<in> set known_kinds"
  using stream_open_error proper_kind by blast

end

end
