(* ===== verification/Sse.thy ===== *)
theory Sse
  imports Handlers
begin

text \<open>
  Server-Sent Events, from \<open>internal/server/stream.go\<close>: the event bodies, the frame writer with
  the sticky error of its JSON encoder, and a reader as a browser has one, against which the
  frames are proved unforgeable.
\<close>

record sseEvent =
  ev_Type :: bytes
  ev_Data :: json

definition eventThinking :: bytes where "eventThinking = ''thinking''"
definition eventToolCall :: bytes where "eventToolCall = ''tool_call''"
definition eventToolResult :: bytes where "eventToolResult = ''tool_result''"
definition eventToken :: bytes where "eventToken = ''token''"
definition eventDone :: bytes where "eventDone = ''done''"
definition eventError :: bytes where "eventError = ''error''"

definition thinkingEvent :: "bytes \<Rightarrow> json" where
  "thinkingEvent text = JObj [(''text'', JStr text)]"

definition toolCallEvent :: "bytes \<Rightarrow> (bytes \<times> json) list option \<Rightarrow> json" where
  "toolCallEvent name args = JObj ([(''name'', JStr name)] @ args_field ''args'' args)"

definition toolResultEvent :: "bytes \<Rightarrow> bytes \<Rightarrow> json" where
  "toolResultEvent name content = JObj (str_field ''name'' name @ [(''content'', JStr content)])"

definition tokenEvent :: "bytes \<Rightarrow> json" where
  "tokenEvent text = JObj [(''text'', JStr text)]"

record doneEvent =
  de_RequestID :: bytes
  de_Model :: bytes
  de_DoneReason :: bytes
  de_Usage :: Usage
  de_ToolCalls :: "ToolCall list"
  de_TotalDurationMS :: int
  de_LatencyMS :: int

definition doneEvent_json :: "doneEvent \<Rightarrow> json" where
  "doneEvent_json d =
     JObj ([(''request_id'', JStr (de_RequestID d)), (''model'', JStr (de_Model d))]
       @ str_field ''done_reason'' (de_DoneReason d)
       @ [(''usage'', Usage_json (de_Usage d))]
       @ list_field ''tool_calls'' (map ToolCall_json (de_ToolCalls d))
       @ int_field ''total_duration_ms'' (de_TotalDurationMS d)
       @ [(''latency_ms'', JInt (de_LatencyMS d))])"

record errorEvent =
  ee_RequestID :: bytes
  ee_Status :: int
  ee_Title :: bytes
  ee_Detail :: bytes

definition errorEvent_json :: "errorEvent \<Rightarrow> json" where
  "errorEvent_json e =
     JObj [(''request_id'', JStr (ee_RequestID e)), (''status'', JInt (ee_Status e)),
           (''title'', JStr (ee_Title e)), (''detail'', JStr (ee_Detail e))]"

text \<open>
  \<open>writeSSE\<close>. The flag is the error that \<open>json.Encoder\<close> keeps after a failed write and returns
  from every later \<open>Encode\<close> without writing.
\<close>

definition frame_head :: "bytes \<Rightarrow> bytes" where
  "frame_head ty = ''event: '' @ ty @ newline # ''data: ''"

definition writeSSE :: "sseEvent \<Rightarrow> bool \<times> statusWriter \<Rightarrow> bool \<times> statusWriter" where
  "writeSSE ev st =
     (case st of
        (failed, w) \<Rightarrow>
          (case sw_Write (frame_head (ev_Type ev)) w of
             (False, w1) \<Rightarrow> (failed, w1)
           | (True, w1) \<Rightarrow>
               if failed then (failed, w1)
               else case sw_Write (encode (ev_Data ev) @ [newline]) w1 of
                      (False, w2) \<Rightarrow> (True, w2)
                    | (True, w2) \<Rightarrow>
                        (case sw_Write [newline] w2 of
                           (False, w3) \<Rightarrow> (failed, w3)
                         | (True, w3) \<Rightarrow> (failed, sw_Flush w3))))"

text \<open>
  What a whole frame looks like, for the statements about the writer; the code never builds one.
\<close>

definition sse_frame :: "sseEvent \<Rightarrow> bytes" where
  "sse_frame ev = frame_head (ev_Type ev) @ encode (ev_Data ev) @ [newline, newline]"

subsection \<open>What the writer does\<close>

text \<open>A connection on which no write fails.\<close>

definition reliable :: "statusWriter \<Rightarrow> bool" where
  "reliable w \<longleftrightarrow> (\<forall>n. c_fault (sw_inner w) n = None)"

lemma fault_Flush [writer_simps]: "c_fault (sw_inner (sw_Flush w)) = c_fault (sw_inner w)"
  by (simp add: writer_simps)

lemma reliable_Write [simp]: "reliable (snd (sw_Write b w)) = reliable w"
  and reliable_Flush [simp]: "reliable (sw_Flush w) = reliable w"
  and reliable_WriteHeader [simp]: "reliable (sw_WriteHeader code w) = reliable w"
  and reliable_Header_Set [simp]: "reliable (sw_Header_Set k v w) = reliable w"
  by (simp_all add: reliable_def writer_simps)

lemma reliable_fst: "reliable w \<Longrightarrow> fst (sw_Write b w)"
  by (simp add: reliable_def writer_simps)

lemma reliable_body: "reliable w \<Longrightarrow> sw_body (snd (sw_Write b w)) = sw_body w @ b"
  by (simp add: reliable_def writer_simps)

lemma writeSSE_reliable:
  assumes "reliable w"
  shows "\<exists>w'. writeSSE ev (False, w) = (False, w') \<and> reliable w' \<and>
    sw_body w' = sw_body w @ sse_frame ev"
proof -
  obtain w1 where w1: "sw_Write (frame_head (ev_Type ev)) w = (True, w1)"
    using reliable_fst [OF assms, of "frame_head (ev_Type ev)"] by (cases "sw_Write (frame_head (ev_Type ev)) w") auto
  have r1: "reliable w1" "sw_body w1 = sw_body w @ frame_head (ev_Type ev)"
    using reliable_Write [of "frame_head (ev_Type ev)" w] reliable_body [OF assms, of "frame_head (ev_Type ev)"] assms
    by (simp_all add: w1)
  obtain w2 where w2: "sw_Write (encode (ev_Data ev) @ [newline]) w1 = (True, w2)"
    using reliable_fst [OF r1(1), of "encode (ev_Data ev) @ [newline]"]
    by (cases "sw_Write (encode (ev_Data ev) @ [newline]) w1") auto
  have r2: "reliable w2" "sw_body w2 = sw_body w1 @ encode (ev_Data ev) @ [newline]"
    using reliable_Write [of "encode (ev_Data ev) @ [newline]" w1]
      reliable_body [OF r1(1), of "encode (ev_Data ev) @ [newline]"] r1(1)
    by (simp_all add: w2)
  obtain w3 where w3: "sw_Write [newline] w2 = (True, w3)"
    using reliable_fst [OF r2(1), of "[newline]"] by (cases "sw_Write [newline] w2") auto
  have r3: "reliable w3" "sw_body w3 = sw_body w2 @ [newline]"
    using reliable_Write [of "[newline]" w2] reliable_body [OF r2(1), of "[newline]"] r2(1)
    by (simp_all add: w3)
  show ?thesis
    using r1 r2 r3 by (simp add: writeSSE_def w1 w2 w3 sse_frame_def writer_simps)
qed

lemma sw_ok_Flush_wrote: "sw_ok w \<Longrightarrow> sw_wroteHeader w \<Longrightarrow> sw_ok (sw_Flush w)"
  by (simp add: sw_ok_Flush sw_ok_wrote)

lemma Write_wrote: "sw_Write b w = (x, w') \<Longrightarrow> sw_ok w \<Longrightarrow> sw_ok w' \<and> sw_wroteHeader w'"
  using sw_ok_Write [of w b] sw_Write_simps(3) [of b w] by simp

lemma writeSSE_ok: "sw_ok (snd st) \<Longrightarrow> sw_ok (snd (writeSSE ev st))"
  by (auto simp: writeSSE_def dest!: Write_wrote intro: sw_ok_Flush_wrote
      split: prod.split bool.split)

text \<open>A response that is under way: the status and headers are out and stay.\<close>

definition committed :: "int \<times> headers \<Rightarrow> statusWriter \<Rightarrow> bool" where
  "committed p w \<longleftrightarrow> sw_ok w \<and> sw_sent w = Some p"

lemma Write_committed: "sw_Write b w = (x, w') \<Longrightarrow> committed p w \<Longrightarrow> committed p w'"
  using sw.write_later [of w p b] Write_wrote [of b w x w'] by (simp add: committed_def)

lemma Flush_committed: "committed p w \<Longrightarrow> committed p (sw_Flush w)"
  by (simp add: committed_def sw_ok_Flush writer_simps)

lemma writeSSE_committed: "committed p (snd st) \<Longrightarrow> committed p (snd (writeSSE ev st))"
  by (auto simp: writeSSE_def intro!: Flush_committed dest!: Write_committed
      split: prod.split bool.split)

text \<open>No frame touches the connection's write deadline.\<close>

abbreviation deadline_of :: "statusWriter \<Rightarrow> int option" where
  "deadline_of w \<equiv> c_deadline (sw_inner w)"

lemma Write_deadline: "sw_Write b w = (x, w') \<Longrightarrow> deadline_of w' = deadline_of w"
  using sw_Write_simps(1) [of b w] by (simp add: writer_simps)

lemma writeSSE_deadline: "deadline_of (snd (writeSSE ev st)) = deadline_of (snd st)"
  by (auto simp: writeSSE_def writer_simps dest!: Write_deadline split: prod.split bool.split)

subsection \<open>A reader\<close>

text \<open>
  Event streams as the HTML standard reads them: lines end in LF, CR or CRLF; a blank line
  dispatches an event that has data; \<open>event\<close> and \<open>data\<close> fields are taken, others ignored; one
  space after the colon is dropped. The reader's state is the event's type and its data lines.
\<close>

fun event_lines :: "bytes \<Rightarrow> bytes list" where
  "event_lines [] = []"
| "event_lines (c # s) =
     (if c = CHR 0x0A then [] # event_lines s
      else if c = CHR 0x0D then
        (case s of d # s' \<Rightarrow> if d = CHR 0x0A then [] # event_lines s' else [] # event_lines s
                 | [] \<Rightarrow> [[]])
      else case event_lines s of [] \<Rightarrow> [[c]] | l # ls \<Rightarrow> (c # l) # ls)"

definition field_of :: "bytes \<Rightarrow> bytes \<times> bytes" where
  "field_of l =
     (case cut (CHR '':'') l of
        None \<Rightarrow> (l, [])
      | Some (f, v) \<Rightarrow> (f, if take 1 v = '' '' then drop 1 v else v))"

fun read_events :: "bytes \<times> bytes list \<Rightarrow> bytes list \<Rightarrow> (bytes \<times> bytes list) list" where
  "read_events (ty, data) [] = []"
| "read_events (ty, data) (l # ls) =
     (if l = [] then (if data = [] then read_events ([], []) ls
                      else (ty, data) # read_events ([], []) ls)
      else case field_of l of
             (f, v) \<Rightarrow>
               if f = ''event'' then read_events (v, data) ls
               else if f = ''data'' then read_events (ty, data @ [v]) ls
               else read_events (ty, data) ls)"

definition read_stream :: "bytes \<Rightarrow> (bytes \<times> bytes list) list" where
  "read_stream s = read_events ([], []) (event_lines s)"

lemma event_lines_line: "no_ctl l \<Longrightarrow> event_lines (l @ newline # s) = l # event_lines s"
proof (induction l)
  case (Cons c l)
  then have "c \<noteq> CHR 0x0A" "c \<noteq> CHR 0x0D" by auto
  with Cons show ?case by simp
qed (simp add: newline_def)

lemma event_lines_frame:
  assumes "no_ctl k" and "no_ctl l"
  shows "event_lines (k @ newline # l @ newline # newline # s) = k # l # [] # event_lines s"
  using event_lines_line [OF no_ctl_Nil, of s] by (simp add: event_lines_line assms)

lemma read_one_frame:
  assumes "no_ctl (ev_Type ev)"
  shows "read_events ([], []) (event_lines (sse_frame ev @ s)) =
    (ev_Type ev, [encode (ev_Data ev)]) # read_events ([], []) (event_lines s)"
proof -
  have "event_lines (sse_frame ev @ s) =
      (''event: '' @ ev_Type ev) # (''data: '' @ encode (ev_Data ev)) # [] # event_lines s"
    using event_lines_frame [of "''event: '' @ ev_Type ev" "''data: '' @ encode (ev_Data ev)" s] assms
    by (simp add: sse_frame_def frame_head_def)
  then show ?thesis by (simp add: field_of_def)
qed

lemma read_frames:
  assumes "\<forall>ev \<in> set evs. no_ctl (ev_Type ev)"
  shows "read_stream (concat (map sse_frame evs)) =
    map (\<lambda>ev. (ev_Type ev, [encode (ev_Data ev)])) evs"
  using assms
  by (induction evs) (simp_all add: read_stream_def read_one_frame)

subsection \<open>A connection that breaks\<close>

text \<open>
  After a failed write the connection takes nothing more: the writers below \<open>http.ResponseWriter\<close>
  keep their first error. \<open>breaking\<close> says so of what is to come, \<open>broken\<close> of a connection on
  which a write has failed.
\<close>

definition breaking :: "statusWriter \<Rightarrow> bool" where
  "breaking w \<longleftrightarrow> (\<forall>n m. c_fault (sw_inner w) n \<noteq> None \<longrightarrow> n < m \<longrightarrow> c_fault (sw_inner w) m = Some 0)"

definition broken :: "statusWriter \<Rightarrow> bool" where
  "broken w \<longleftrightarrow> (\<forall>n \<ge> c_writes (sw_inner w). c_fault (sw_inner w) n = Some 0)"

lemma reliable_breaking: "reliable w \<Longrightarrow> breaking w"
  by (simp add: reliable_def breaking_def)

lemma Write_fault: "sw_Write b w = (x, w') \<Longrightarrow> c_fault (sw_inner w') = c_fault (sw_inner w)"
  and Write_count: "sw_Write b w = (x, w') \<Longrightarrow> c_writes (sw_inner w') = Suc (c_writes (sw_inner w))"
  and Write_body: "sw_Write b w = (x, w') \<Longrightarrow> sw_body w' = sw_body w @
    (case c_fault (sw_inner w) (c_writes (sw_inner w)) of None \<Rightarrow> b | Some k \<Rightarrow> take k b)"
  and Write_result: "sw_Write b w = (x, w') \<Longrightarrow> x \<longleftrightarrow> c_fault (sw_inner w) (c_writes (sw_inner w)) = None"
  using sw_Write_simps [of b w] by (simp_all add: conn_write_simps)

lemma Write_breaking: "sw_Write b w = (x, w') \<Longrightarrow> breaking w' = breaking w"
  by (simp add: breaking_def Write_fault)

lemma Write_broken:
  assumes "sw_Write b w = (x, w')" and "broken w"
  shows "\<not> x \<and> broken w' \<and> sw_body w' = sw_body w"
  using assms(2) unfolding broken_def
  by (simp add: Write_result [OF assms(1)] Write_body [OF assms(1)] Write_fault [OF assms(1)]
      Write_count [OF assms(1)])

lemma Write_ok: "sw_Write b w = (True, w') \<Longrightarrow> sw_body w' = sw_body w @ b"
  using Write_result [of b w True w'] Write_body [of b w True w'] by simp

lemma Write_fails:
  assumes "sw_Write b w = (False, w')" and "breaking w"
  shows "broken w' \<and> (\<exists>k. sw_body w' = sw_body w @ take k b)"
proof -
  obtain k where k: "c_fault (sw_inner w) (c_writes (sw_inner w)) = Some k"
    using Write_result [OF assms(1)] by auto
  then show ?thesis
    using assms(2)
    by (auto simp: broken_def breaking_def Write_body [OF assms(1)] Write_fault [OF assms(1)]
        Write_count [OF assms(1)])
qed

lemma Flush_broken: "broken (sw_Flush w) = broken w" "breaking (sw_Flush w) = breaking w"
  by (simp_all add: broken_def breaking_def writer_simps)

lemma take_append_cut: "\<exists>k. xs @ take m ys = take k (xs @ ys @ zs)"
  by (rule exI [of _ "length xs + min m (length ys)"]) (simp add: min_def)

lemma writeSSE_broken:
  assumes "broken w"
  shows "\<exists>w'. writeSSE ev (failed, w) = (failed, w') \<and> broken w' \<and> sw_body w' = sw_body w"
proof -
  obtain x w' where w': "sw_Write (frame_head (ev_Type ev)) w = (x, w')" by force
  from Write_broken [OF this assms] w' show ?thesis by (simp add: writeSSE_def)
qed

text \<open>A frame goes out whole, or its front does and the connection is broken.\<close>

lemma writeSSE_breaking:
  assumes "breaking w"
  shows "(\<exists>w'. writeSSE ev (False, w) = (False, w') \<and> breaking w' \<and>
      sw_body w' = sw_body w @ sse_frame ev) \<or>
    (\<exists>failed w' k. writeSSE ev (False, w) = (failed, w') \<and> broken w' \<and>
      sw_body w' = sw_body w @ take k (sse_frame ev))"
proof -
  let ?h = "frame_head (ev_Type ev)" and ?d = "encode (ev_Data ev) @ [newline]"
  have frame: "sse_frame ev = ?h @ ?d @ [newline]" by (simp add: sse_frame_def)
  obtain x1 w1 where w1: "sw_Write ?h w = (x1, w1)" by force
  obtain x2 w2 where w2: "sw_Write ?d w1 = (x2, w2)" by force
  obtain x3 w3 where w3: "sw_Write [newline] w2 = (x3, w3)" by force
  note b = Write_breaking [OF w1] Write_breaking [OF w2] Write_breaking [OF w3]
  consider "\<not> x1" | "x1" "\<not> x2" | "x1" "x2" "\<not> x3" | "x1" "x2" "x3" by blast
  then show ?thesis
  proof cases
    case 1
    then obtain k where "broken w1" "sw_body w1 = sw_body w @ take k ?h"
      using Write_fails [of ?h w w1] w1 assms by auto
    then show ?thesis
      using 1 take_append_cut [of "[]" k ?h "?d @ [newline]"] by (auto simp: writeSSE_def w1 frame)
  next
    case 2
    then obtain k where "broken w2" "sw_body w2 = sw_body w @ ?h @ take k ?d"
      using Write_fails [of ?d w1 w2] Write_ok [of ?h w w1] w1 w2 assms b by auto
    then show ?thesis
      using 2 take_append_cut [of ?h k ?d "[newline]"] by (auto simp: writeSSE_def w1 w2 frame)
  next
    case 3
    then obtain k where "broken w3" "sw_body w3 = sw_body w @ ?h @ ?d @ take k [newline]"
      using Write_fails [of "[newline]" w2 w3] Write_ok [of ?d w1 w2] Write_ok [of ?h w w1] w1 w2 w3
        assms b by auto
    then show ?thesis
      using 3 take_append_cut [of "?h @ ?d" k "[newline]" "[]"]
      by (auto simp: writeSSE_def w1 w2 w3 frame)
  next
    case 4
    then have "sw_body w3 = sw_body w @ sse_frame ev"
      using Write_ok [of "[newline]" w2 w3] Write_ok [of ?d w1 w2] Write_ok [of ?h w w1] w1 w2 w3
      by (simp add: frame)
    then show ?thesis
      using 4 assms b by (auto simp: writeSSE_def w1 w2 w3 Flush_broken writer_simps)
  qed
qed

lemma fold_writeSSE_broken:
  "broken w \<Longrightarrow> sw_body (snd (fold writeSSE evs (failed, w))) = sw_body w"
proof (induction evs arbitrary: w)
  case (Cons ev evs)
  obtain w' where "writeSSE ev (failed, w) = (failed, w')" "broken w'" "sw_body w' = sw_body w"
    using writeSSE_broken [OF Cons.prems] by blast
  then show ?case using Cons.IH by simp
qed simp

lemma fold_writeSSE_breaking:
  "breaking w \<Longrightarrow> \<exists>k. sw_body (snd (fold writeSSE evs (False, w))) =
     sw_body w @ take k (concat (map sse_frame evs))"
proof (induction evs arbitrary: w)
  case (Cons ev evs)
  from writeSSE_breaking [OF Cons.prems, of ev] show ?case
  proof (elim disjE exE conjE)
    fix w' assume w': "writeSSE ev (False, w) = (False, w')" "breaking w'"
      "sw_body w' = sw_body w @ sse_frame ev"
    obtain k where "sw_body (snd (fold writeSSE evs (False, w'))) =
        sw_body w' @ take k (concat (map sse_frame evs))"
      using Cons.IH [OF w'(2)] by blast
    then show ?case
      using w' take_append_cut [of "sse_frame ev" k "concat (map sse_frame evs)" "[]"] by auto
  next
    fix failed w' k assume w': "writeSSE ev (False, w) = (failed, w')" "broken w'"
      "sw_body w' = sw_body w @ take k (sse_frame ev)"
    then show ?case
      using take_append_cut [of "[]" k "sse_frame ev" "concat (map sse_frame evs)"]
      by (auto simp: fold_writeSSE_broken)
  qed
qed simp

lemma fold_writeSSE:
  "reliable w \<Longrightarrow> \<exists>w'. fold writeSSE evs (False, w) = (False, w') \<and> reliable w' \<and>
     sw_body w' = sw_body w @ concat (map sse_frame evs)"
proof (induction evs arbitrary: w)
  case (Cons ev evs)
  obtain w1 where "writeSSE ev (False, w) = (False, w1)" "reliable w1"
    "sw_body w1 = sw_body w @ sse_frame ev"
    using writeSSE_reliable [OF Cons.prems] by blast
  then show ?case using Cons.IH [of w1] by auto
qed simp

text \<open>The front of a frame dispatches nothing: its blank line is its last byte.\<close>

lemma event_lines_plain: "no_ctl l \<Longrightarrow> event_lines l = (if l = [] then [] else [l])"
proof (induction l)
  case (Cons c l)
  then have "c \<noteq> CHR 0x0A" "c \<noteq> CHR 0x0D" by auto
  with Cons show ?case by simp
qed simp

lemma read_no_blank: "[] \<notin> set ls \<Longrightarrow> read_events st ls = []"
  by (induction st ls rule: read_events.induct) (auto split: prod.split)

lemma front_of_lines:
  assumes "no_ctl k" and "k \<noteq> []" and "no_ctl l" and "l \<noteq> []" and "n \<le> length k + length l + 2"
  shows "[] \<notin> set (event_lines (take n (k @ newline # l @ newline # newline # s)))"
proof (cases "n \<le> length k")
  case True
  then show ?thesis by (simp add: event_lines_plain no_ctl_take [OF assms(1)])
next
  case False
  then obtain m where n: "n = length k + Suc m" by (metis add_Suc_right less_imp_Suc_add not_le_imp_less)
  show ?thesis
  proof (cases "m \<le> length l")
    case True
    then show ?thesis
      using assms(2) by (simp add: n event_lines_line [OF assms(1)] event_lines_plain no_ctl_take [OF assms(3)])
  next
    case False
    then have "m = length l + 1" using assms(5) n by simp
    then show ?thesis
      using assms(2,4) by (simp add: n event_lines_line [OF assms(1)] event_lines_line [OF assms(3)])
  qed
qed

lemma read_cut_frames:
  assumes "\<forall>ev \<in> set evs. no_ctl (ev_Type ev)"
  shows "\<exists>j. read_stream (take k (concat (map sse_frame evs))) =
    take j (map (\<lambda>ev. (ev_Type ev, [encode (ev_Data ev)])) evs)"
  using assms
proof (induction evs arbitrary: k)
  case (Cons ev evs)
  let ?out = "\<lambda>ev. (ev_Type ev, [encode (ev_Data ev)])"
  have plain: "no_ctl (ev_Type ev)" using Cons.prems by simp
  show ?case
  proof (cases "length (sse_frame ev) \<le> k")
    case True
    obtain j where "read_stream (take (k - length (sse_frame ev)) (concat (map sse_frame evs))) =
        take j (map ?out evs)"
      using Cons by auto
    then have "read_stream (take k (concat (map sse_frame (ev # evs)))) =
        take (Suc j) (map ?out (ev # evs))"
      using True by (simp add: read_stream_def read_one_frame [OF plain])
    then show ?thesis ..
  next
    case False
    let ?k = "''event: '' @ ev_Type ev" and ?l = "''data: '' @ encode (ev_Data ev)"
    have frame: "sse_frame ev = ?k @ newline # ?l @ newline # newline # []"
      by (simp add: sse_frame_def frame_head_def)
    have "take k (concat (map sse_frame (ev # evs))) =
        take k (?k @ newline # ?l @ newline # newline # [])"
      unfolding frame [symmetric] using False by simp
    moreover have "[] \<notin> set (event_lines (take k (?k @ newline # ?l @ newline # newline # [])))"
      using False plain by (intro front_of_lines) (auto simp: sse_frame_def frame_head_def)
    ultimately show ?thesis by (intro exI [of _ 0]) (simp add: read_stream_def read_no_blank)
  qed
qed (simp add: read_stream_def)

text \<open>C15: frames cannot be forged, and a broken connection does not garble them: a client that reads
  what \<open>writeSSE\<close> has written for a sequence of events, by the rules for event streams, gets
  exactly these events, one data line each, whatever text a model, a tool or an upstream put
  into them; and when the connection breaks at any byte on the way, it gets the first of them
  and nothing else.\<close>

theorem frames_read_back:
  assumes "\<forall>ev \<in> set evs. no_ctl (ev_Type ev)" and "sw_body w = []"
    and "\<forall>n m. c_fault (sw_inner w) n \<noteq> None \<longrightarrow> n < m \<longrightarrow> c_fault (sw_inner w) m = Some 0"
  shows "(\<exists>j. read_stream (sw_body (snd (fold writeSSE evs (False, w)))) =
      take j (map (\<lambda>ev. (ev_Type ev, [encode (ev_Data ev)])) evs)) \<and>
    ((\<forall>n. c_fault (sw_inner w) n = None) \<longrightarrow>
      read_stream (sw_body (snd (fold writeSSE evs (False, w)))) =
        map (\<lambda>ev. (ev_Type ev, [encode (ev_Data ev)])) evs)"
proof (intro conjI impI)
  have "breaking w" using assms(3) unfolding breaking_def by blast
  then obtain k where "sw_body (snd (fold writeSSE evs (False, w))) = take k (concat (map sse_frame evs))"
    using fold_writeSSE_breaking [of w evs] assms(2) by auto
  then show "\<exists>j. read_stream (sw_body (snd (fold writeSSE evs (False, w)))) =
      take j (map (\<lambda>ev. (ev_Type ev, [encode (ev_Data ev)])) evs)"
    using read_cut_frames [OF assms(1)] by simp
next
  assume "\<forall>n. c_fault (sw_inner w) n = None"
  then have "reliable w" by (simp add: reliable_def)
  from fold_writeSSE [OF this, of evs] show
    "read_stream (sw_body (snd (fold writeSSE evs (False, w)))) =
      map (\<lambda>ev. (ev_Type ev, [encode (ev_Data ev)])) evs"
    using read_frames [OF assms(1)] assms(2) by auto
qed

definition hostile_event :: sseEvent where
  "hostile_event =
     \<lparr>ev_Type = eventToken,
      ev_Data = tokenEvent (''x'' @ [newline, newline] @ ''event: done'' @ [newline] @ ''data: {}'' @ [newline])\<rparr>"

text \<open>The connection takes the first frame and breaks within the second.\<close>

theorem frames_read_back_witness:
  "\<exists>j. read_stream (sw_body (snd (fold writeSSE [hostile_event, hostile_event]
       (False, new_statusWriter (new_conn True (\<lambda>n. if n < 4 then None else if n = 4 then Some 3 else Some 0)))))) =
     take j (map (\<lambda>ev. (ev_Type ev, [encode (ev_Data ev)])) [hostile_event, hostile_event])"
proof (rule frames_read_back [THEN conjunct1])
  show "\<forall>ev \<in> set [hostile_event, hostile_event]. no_ctl (ev_Type ev)"
    by (simp add: hostile_event_def eventToken_def)
qed (simp_all add: new_statusWriter_def new_conn_def)

end
