(* ===== verification/AskStream.thy ===== *)
theory AskStream
  imports Upstream Sse
begin

text \<open>
  \<open>askStream\<close> of \<open>internal/server/stream.go\<close>: the streaming variant of \<open>POST /v1/ask\<close>. The loop
  over the upstream's chunks is a function that terminates because every chunk consumes a
  part of the upstream's body.
\<close>

text \<open>The variables of the loop, and its writer side: the encoder's error and the server.\<close>

record stream_vars =
  sx_finalModel :: bytes
  sx_finalReason :: bytes
  sx_promptTokens :: int
  sx_completionTokens :: int
  sx_totalDuration :: int
  sx_tools :: "ToolCall list"
  sx_answer :: bytes

definition init_vars :: "bytes \<Rightarrow> stream_vars" where
  "init_vars model =
     \<lparr>sx_finalModel = model, sx_finalReason = [], sx_promptTokens = 0, sx_completionTokens = 0,
      sx_totalDuration = 0, sx_tools = [], sx_answer = []\<rparr>"

definition send ::
  "bytes \<Rightarrow> json \<Rightarrow> bool \<times> ('l, 'b, 'v) server \<Rightarrow> bool \<times> ('l, 'b, 'v) server" where
  "send ty data fs =
     (case writeSSE \<lparr>ev_Type = ty, ev_Data = data\<rparr> (fst fs, sv_w (snd fs)) of
        (f, w) \<Rightarrow> (f, on_writer (\<lambda>_. w) (snd fs)))"

definition refreshWriteDeadline ::
  "('l, 'b) handlers \<Rightarrow> ('l, 'b, 'v) server \<Rightarrow> ('l, 'b, 'v) server" where
  "refreshWriteDeadline h s0 =
     (let (now, s1) = time_now (h_rt h) s0
      in on_writer (\<lambda>w. snd (sw_SetWriteDeadline (now + h_requestTimeout h) w)) s1)"

text \<open>The body of the loop for one chunk, statement by statement.\<close>

definition handle_tool_call ::
  "BridgeToolCall \<Rightarrow> stream_vars \<times> bool \<times> ('l, 'b, 'v) server
   \<Rightarrow> stream_vars \<times> bool \<times> ('l, 'b, 'v) server" where
  "handle_tool_call tc st =
     (let f = bt_Function tc in
      ((fst st)\<lparr>sx_tools := sx_tools (fst st) @
          [\<lparr>tc_Name = tf_Name f, tc_Args = tf_Arguments f, tc_DurationMS = 0\<rparr>]\<rparr>,
       send eventToolCall (toolCallEvent (tf_Name f) (tf_Arguments f)) (snd st)))"

definition handle_chunk ::
  "bool \<Rightarrow> ChatStreamChunk \<Rightarrow> stream_vars \<times> bool \<times> ('l, 'b, 'v) server
   \<Rightarrow> stream_vars \<times> bool \<times> ('l, 'b, 'v) server" where
  "handle_chunk captureAnswer c st0 =
     (let x0 = fst st0; o0 = snd st0; m = ck_Message c;
          x1 = (if ck_Model c \<noteq> [] then x0\<lparr>sx_finalModel := ck_Model c\<rparr> else x0);
          o1 = (if ck_Thinking c \<noteq> [] then send eventThinking (thinkingEvent (ck_Thinking c)) o0
                else o0);
          st2 = fold handle_tool_call (mg_ToolCalls m) (x1, o1);
          x2 = fst st2; o2 = snd st2;
          o3 = (if mg_Role m = ''tool'' \<and> mg_Content m \<noteq> []
                then send eventToolResult (toolResultEvent [] (mg_Content m)) o2 else o2);
          o4 = (if mg_Role m \<noteq> ''tool'' \<and> mg_Content m \<noteq> []
                then send eventToken (tokenEvent (mg_Content m)) o3 else o3);
          x4 = (if mg_Role m \<noteq> ''tool'' \<and> mg_Content m \<noteq> [] \<and> captureAnswer
                then x2\<lparr>sx_answer := sx_answer x2 @ mg_Content m\<rparr> else x2);
          x5 = (if ck_Done c
                then x4\<lparr>sx_finalReason := ck_DoneReason c,
                        sx_promptTokens := ck_PromptEvalCount c,
                        sx_completionTokens := ck_EvalCount c,
                        sx_totalDuration := ck_TotalDuration c\<rparr>
                else x4)
      in (x5, o4))"

text \<open>How the loop ended: by the end of the stream, or by an error of \<open>Next\<close>.\<close>

datatype loop_end = Drained | Failed Error

function stream_loop ::
  "('l, 'b) handlers \<Rightarrow> bool \<Rightarrow> ChatStream
   \<Rightarrow> stream_vars \<times> bool \<times> ('l, 'b, 'v) server
   \<Rightarrow> loop_end \<times> ChatStream \<times> stream_vars \<times> bool \<times> ('l, 'b, 'v) server" where
  "stream_loop h captureAnswer stream st =
     (case Next (h_cd h) stream of
        (StreamEOF, stream') \<Rightarrow> (Drained, stream', st)
      | (StreamError e, stream') \<Rightarrow> (Failed e, stream', st)
      | (StreamChunk c, stream') \<Rightarrow>
          stream_loop h captureAnswer stream'
            (handle_chunk captureAnswer c
               (fst st, fst (snd st), refreshWriteDeadline h (snd (snd st)))))"
  by pat_completeness auto
termination
  by (relation "measure (\<lambda>(h, capture, stream, st). remaining stream)")
    (auto dest: Next_shrinks [OF sym])

declare stream_loop.simps [simp del]

definition set_stream_headers :: "statusWriter \<Rightarrow> statusWriter" where
  "set_stream_headers w =
     sw_Header_Set ''X-Accel-Buffering'' ''no''
       (sw_Header_Set ''Connection'' ''keep-alive''
         (sw_Header_Set ''Cache-Control'' ''no-cache''
           (sw_Header_Set ''Content-Type'' ''text/event-stream'' w)))"

definition stream_failed ::
  "('l, 'b) handlers \<Rightarrow> AskRequest \<Rightarrow> bytes \<Rightarrow> bytes \<Rightarrow> int \<Rightarrow> stream_vars \<Rightarrow> Error
   \<Rightarrow> bool \<times> ('l, 'b, 'v) server \<Rightarrow> ('l, 'b, 'v) server" where
  "stream_failed h q caller reqID start x e fs =
     (let err = BridgeError e;
          s1 = on_metrics (recordUpstreamError ''chat_stream'' err) (snd fs);
          status = bridgeErrorStatus err;
          s2 = snd (send eventError (errorEvent_json
                 \<lparr>ee_RequestID = reqID, ee_Status = status, ee_Title = problemTitleFor status,
                  ee_Detail = ''upstream bridge stream failed''\<rparr>) (fst fs, s1));
          (now, s3) = time_now (h_rt h) s2
      in logAudit h
           \<lparr>ev_Timestamp = None, ev_RequestID = reqID, ev_CallerIdentity = caller,
            ev_Model = sx_finalModel x, ev_PromptTokens = 0, ev_CompletionTokens = 0,
            ev_ToolCalls = [], ev_LatencyMS = millis (now - start), ev_Status = status,
            ev_Outcome = ''error'', ev_Query = ask_Query q, ev_Answer = []\<rparr> s3)"

definition done_event :: "bytes \<Rightarrow> int \<Rightarrow> stream_vars \<Rightarrow> doneEvent" where
  "done_event reqID latency x =
     \<lparr>de_RequestID = reqID, de_Model = sx_finalModel x, de_DoneReason = sx_finalReason x,
      de_Usage = \<lparr>us_PromptTokens = sx_promptTokens x, us_CompletionTokens = sx_completionTokens x\<rparr>,
      de_ToolCalls = sx_tools x, de_TotalDurationMS = millis (sx_totalDuration x),
      de_LatencyMS = millis latency\<rparr>"

definition stream_done ::
  "('l, 'b) handlers \<Rightarrow> AskRequest \<Rightarrow> bytes \<Rightarrow> bytes \<Rightarrow> int \<Rightarrow> stream_vars
   \<Rightarrow> bool \<times> ('l, 'b, 'v) server \<Rightarrow> ('l, 'b, 'v) server" where
  "stream_done h q caller reqID start x fs =
     (let (now, s0) = time_now (h_rt h) (snd fs);
          latency = now - start;
          s1 = snd (send eventDone (doneEvent_json (done_event reqID latency x)) (fst fs, s0));
          s2 = on_metrics (observeTokens (sx_finalModel x) (sx_promptTokens x) (sx_completionTokens x)) s1;
          s3 = on_metrics (observeToolCalls (sx_tools x)) s2
      in logAudit h
           \<lparr>ev_Timestamp = None, ev_RequestID = reqID, ev_CallerIdentity = caller,
            ev_Model = sx_finalModel x, ev_PromptTokens = sx_promptTokens x,
            ev_CompletionTokens = sx_completionTokens x,
            ev_ToolCalls = toAuditToolCalls (sx_tools x), ev_LatencyMS = millis latency,
            ev_Status = 200, ev_Outcome = ''ok'', ev_Query = ask_Query q,
            ev_Answer = sx_answer x\<rparr> s3)"

text \<open>From the open stream on: commit to SSE, loop, and the deferred \<open>Close\<close>.\<close>

definition run_stream ::
  "('l, 'b) handlers \<Rightarrow> AskRequest \<Rightarrow> ChatRequest \<Rightarrow> bytes \<Rightarrow> bytes \<Rightarrow> int \<Rightarrow> ChatStream
   \<Rightarrow> ('l, 'b, 'v) server \<Rightarrow> ('l, 'b, 'v) server \<times> ChatStream" where
  "run_stream h q bridgeReq caller reqID start stream s0 =
     (let s1 = on_writer (\<lambda>w. sw_Flush (sw_WriteHeader 200 (set_stream_headers w))) s0;
          s2 = refreshWriteDeadline h s1
      in case stream_loop h (LogQueryEnabled (sh_audit s2)) stream
                (init_vars (cq_Model bridgeReq), False, s2) of
           (Drained, stream', x, fs) \<Rightarrow> (stream_done h q caller reqID start x fs, Close stream')
         | (Failed e, stream', x, fs) \<Rightarrow>
             (stream_failed h q caller reqID start x e fs, Close stream'))"

definition askStream ::
  "('l, 'b) handlers \<Rightarrow> Request \<Rightarrow> AskRequest \<Rightarrow> ChatRequest \<Rightarrow> bytes \<Rightarrow> bytes
   \<Rightarrow> ('l, 'b, 'v) server \<Rightarrow> ('l, 'b, 'v) server \<times> ChatStream option" where
  "askStream h r q bridgeReq caller reqID s0 =
     (if MFlush \<notin> set statusWriter_methods then
        (writeProblem r 500 (problemTitleFor 500)
           ''streaming is not supported by the response writer'' s0, None)
      else
        let (start, s1) = time_now (h_rt h) s0 in
        case br_ChatStream (h_bridge h) bridgeReq of
          Inl e \<Rightarrow>
            (let s2 = on_metrics (recordUpstreamError ''chat_stream'' e) s1;
                 status = bridgeErrorStatus e;
                 s3 = mapBridgeError r ''chat_stream'' e s2;
                 (now, s4) = time_now (h_rt h) s3
             in (logAudit h
                   \<lparr>ev_Timestamp = None, ev_RequestID = reqID, ev_CallerIdentity = caller,
                    ev_Model = cq_Model bridgeReq, ev_PromptTokens = 0, ev_CompletionTokens = 0,
                    ev_ToolCalls = [], ev_LatencyMS = millis (now - start), ev_Status = status,
                    ev_Outcome = ''error'', ev_Query = ask_Query q, ev_Answer = []\<rparr> s4, None))
        | Inr stream \<Rightarrow>
            (case run_stream h q bridgeReq caller reqID start stream s1 of
               (s', stream') \<Rightarrow> (s', Some stream')))"

subsection \<open>Frames\<close>

lemma send_frame [frame_simps]:
  "sh_metrics (snd (send ty d fs)) = sh_metrics (snd fs)"
  "sh_logs (snd (send ty d fs)) = sh_logs (snd fs)"
  "sh_audit (snd (send ty d fs)) = sh_audit (snd fs)"
  "sh_limiter (snd (send ty d fs)) = sh_limiter (snd fs)"
  "sh_auth (snd (send ty d fs)) = sh_auth (snd fs)"
  "sh_ticks (snd (send ty d fs)) = sh_ticks (snd fs)"
  by (simp_all add: send_def split_beta frame_simps)

lemma refresh_frame [frame_simps]:
  "sv_w (refreshWriteDeadline h s) = sv_w s"
  "sh_metrics (refreshWriteDeadline h s) = sh_metrics s"
  "sh_logs (refreshWriteDeadline h s) = sh_logs s"
  "sh_audit (refreshWriteDeadline h s) = sh_audit s"
  "sh_limiter (refreshWriteDeadline h s) = sh_limiter s"
  "sh_auth (refreshWriteDeadline h s) = sh_auth s"
  by (simp_all add: refreshWriteDeadline_def Let_def split_beta frame_simps writer_simps)

text \<open>Two servers that differ at most in their writer and clock.\<close>

definition same_books :: "('l, 'b, 'v) server \<Rightarrow> ('l, 'b, 'v) server \<Rightarrow> bool" where
  "same_books s s' \<longleftrightarrow>
     sh_metrics s' = sh_metrics s \<and> sh_audit s' = sh_audit s \<and> sh_limiter s' = sh_limiter s \<and>
     sh_auth s' = sh_auth s \<and> sh_logs s' = sh_logs s"

lemma same_books_refl: "same_books s s"
  and same_books_trans: "same_books s t \<Longrightarrow> same_books t u \<Longrightarrow> same_books s u"
  and same_books_send: "same_books (snd fs) (snd (send ty d fs))"
  and same_books_refresh: "same_books s (refreshWriteDeadline h s)"
  by (simp_all add: same_books_def frame_simps)

subsection \<open>What the loop emits\<close>

text \<open>
  \<open>emits evs a b\<close>: from writer side \<open>a\<close> to \<open>b\<close>, only the writer has changed; a response under
  way stays so; and on a reliable connection exactly the frames of \<open>evs\<close> have been added.
\<close>

definition emits ::
  "sseEvent list \<Rightarrow> bool \<times> ('l, 'b, 'v) server \<Rightarrow> bool \<times> ('l, 'b, 'v) server \<Rightarrow> bool" where
  "emits evs a b \<longleftrightarrow>
     same_books (snd a) (snd b) \<and> deadline_of (sv_w (snd b)) = deadline_of (sv_w (snd a)) \<and>
     (\<forall>p. committed p (sv_w (snd a)) \<longrightarrow> committed p (sv_w (snd b))) \<and>
     (\<not> fst a \<and> reliable (sv_w (snd a)) \<longrightarrow>
        \<not> fst b \<and> reliable (sv_w (snd b)) \<and>
        sw_body (sv_w (snd b)) = sw_body (sv_w (snd a)) @ concat (map sse_frame evs))"

lemma emits_none: "emits [] a a"
  by (simp add: emits_def same_books_refl)

lemma emits_trans: "emits xs a b \<Longrightarrow> emits ys b c \<Longrightarrow> emits (xs @ ys) a c"
  unfolding emits_def by (auto intro: same_books_trans)

lemma emits_send: "emits [\<lparr>ev_Type = ty, ev_Data = d\<rparr>] fs (send ty d fs)"
proof -
  let ?ev = "\<lparr>ev_Type = ty, ev_Data = d\<rparr>"
  have w: "fst (send ty d fs) = fst (writeSSE ?ev (fst fs, sv_w (snd fs)))"
    "sv_w (snd (send ty d fs)) = snd (writeSSE ?ev (fst fs, sv_w (snd fs)))"
    by (simp_all add: send_def split_beta frame_simps)
  have "committed p (sv_w (snd fs)) \<Longrightarrow> committed p (sv_w (snd (send ty d fs)))" for p
    using writeSSE_committed [of p "(fst fs, sv_w (snd fs))" ?ev] by (simp add: w)
  moreover have "\<not> fst fs \<Longrightarrow> reliable (sv_w (snd fs)) \<Longrightarrow>
      \<not> fst (send ty d fs) \<and> reliable (sv_w (snd (send ty d fs))) \<and>
      sw_body (sv_w (snd (send ty d fs))) = sw_body (sv_w (snd fs)) @ sse_frame ?ev"
    using writeSSE_reliable [of "sv_w (snd fs)" ?ev] by (auto simp: w)
  moreover have "deadline_of (sv_w (snd (send ty d fs))) = deadline_of (sv_w (snd fs))"
    by (simp add: w writeSSE_deadline)
  ultimately show ?thesis by (simp add: emits_def same_books_send)
qed

lemma emits_refresh: "emits [] (f, s) (f, refreshWriteDeadline h s)"
  by (simp add: emits_def same_books_refresh frame_simps)

definition tool_call_event :: "BridgeToolCall \<Rightarrow> sseEvent" where
  "tool_call_event tc =
     \<lparr>ev_Type = eventToolCall,
      ev_Data = toolCallEvent (tf_Name (bt_Function tc)) (tf_Arguments (bt_Function tc))\<rparr>"

text \<open>The events of a chunk, and the variables after it.\<close>

definition chunk_events :: "ChatStreamChunk \<Rightarrow> sseEvent list" where
  "chunk_events c =
     (let m = ck_Message c in
      (if ck_Thinking c \<noteq> []
       then [\<lparr>ev_Type = eventThinking, ev_Data = thinkingEvent (ck_Thinking c)\<rparr>] else [])
      @ map tool_call_event (mg_ToolCalls m)
      @ (if mg_Content m = [] then []
         else if mg_Role m = ''tool''
         then [\<lparr>ev_Type = eventToolResult, ev_Data = toolResultEvent [] (mg_Content m)\<rparr>]
         else [\<lparr>ev_Type = eventToken, ev_Data = tokenEvent (mg_Content m)\<rparr>]))"

definition vars_step :: "bool \<Rightarrow> ChatStreamChunk \<Rightarrow> stream_vars \<Rightarrow> stream_vars" where
  "vars_step capture c x =
     (let m = ck_Message c in
      \<lparr>sx_finalModel = (if ck_Model c \<noteq> [] then ck_Model c else sx_finalModel x),
       sx_finalReason = (if ck_Done c then ck_DoneReason c else sx_finalReason x),
       sx_promptTokens = (if ck_Done c then ck_PromptEvalCount c else sx_promptTokens x),
       sx_completionTokens = (if ck_Done c then ck_EvalCount c else sx_completionTokens x),
       sx_totalDuration = (if ck_Done c then ck_TotalDuration c else sx_totalDuration x),
       sx_tools = sx_tools x @ toAPIToolCalls (mg_ToolCalls m),
       sx_answer = (if mg_Role m \<noteq> ''tool'' \<and> capture then sx_answer x @ mg_Content m
                    else sx_answer x)\<rparr>)"

lemma handle_tool_call_vars:
  "fst (handle_tool_call tc st) = (fst st)\<lparr>sx_tools := sx_tools (fst st) @ toAPIToolCalls [tc]\<rparr>"
  by (simp add: handle_tool_call_def toAPIToolCalls_def Let_def)

lemma toAPIToolCalls_Cons: "toAPIToolCalls (tc # tcs) = toAPIToolCalls [tc] @ toAPIToolCalls tcs"
  by (simp add: toAPIToolCalls_def)

lemma fold_tool_calls:
  "fst (fold handle_tool_call tcs st) = (fst st)\<lparr>sx_tools := sx_tools (fst st) @ toAPIToolCalls tcs\<rparr>
   \<and> emits (map tool_call_event tcs) (snd st) (snd (fold handle_tool_call tcs st))"
proof (induction tcs arbitrary: st)
  case (Cons tc tcs)
  have "emits [tool_call_event tc] (snd st) (snd (handle_tool_call tc st))"
    by (simp add: handle_tool_call_def tool_call_event_def Let_def emits_send)
  moreover have "emits (map tool_call_event tcs) (snd (handle_tool_call tc st))
      (snd (fold handle_tool_call tcs (handle_tool_call tc st)))"
    using Cons by blast
  ultimately have "emits ([tool_call_event tc] @ map tool_call_event tcs) (snd st)
      (snd (fold handle_tool_call (tc # tcs) st))"
    unfolding fold.simps o_apply by (rule emits_trans)
  moreover have "fst (fold handle_tool_call (tc # tcs) st) =
      (fst st)\<lparr>sx_tools := sx_tools (fst st) @ toAPIToolCalls (tc # tcs)\<rparr>"
    using Cons [of "handle_tool_call tc st"]
    by (simp add: handle_tool_call_vars toAPIToolCalls_Cons [of tc tcs])
  ultimately show ?case by simp
qed (simp add: emits_none toAPIToolCalls_def)

lemma emits_if: "(b \<Longrightarrow> emits es o1 o2) \<Longrightarrow> emits (if b then es else []) o1 (if b then o2 else o1)"
  by (simp add: emits_none)

lemma handle_chunk_emits: "emits (chunk_events c) (snd st) (snd (handle_chunk capture c st))"
proof -
  let ?m = "ck_Message c"
  let ?x1 = "if ck_Model c \<noteq> [] then (fst st)\<lparr>sx_finalModel := ck_Model c\<rparr> else fst st"
  let ?o1 = "if ck_Thinking c \<noteq> [] then send eventThinking (thinkingEvent (ck_Thinking c)) (snd st)
    else snd st"
  let ?o2 = "snd (fold handle_tool_call (mg_ToolCalls ?m) (?x1, ?o1))"
  let ?o3 = "if mg_Role ?m = ''tool'' \<and> mg_Content ?m \<noteq> []
    then send eventToolResult (toolResultEvent [] (mg_Content ?m)) ?o2 else ?o2"
  let ?o4 = "if mg_Role ?m \<noteq> ''tool'' \<and> mg_Content ?m \<noteq> []
    then send eventToken (tokenEvent (mg_Content ?m)) ?o3 else ?o3"
  have e: "snd (handle_chunk capture c st) = ?o4" by (simp add: handle_chunk_def Let_def)
  have 1: "emits (if ck_Thinking c \<noteq> []
      then [\<lparr>ev_Type = eventThinking, ev_Data = thinkingEvent (ck_Thinking c)\<rparr>] else []) (snd st) ?o1"
    by (rule emits_if) (rule emits_send)
  have 2: "emits (map tool_call_event (mg_ToolCalls ?m)) ?o1 ?o2"
    using fold_tool_calls [of "mg_ToolCalls ?m" "(?x1, ?o1)"] by simp
  have 3: "emits (if mg_Role ?m = ''tool'' \<and> mg_Content ?m \<noteq> []
      then [\<lparr>ev_Type = eventToolResult, ev_Data = toolResultEvent [] (mg_Content ?m)\<rparr>] else []) ?o2 ?o3"
    by (rule emits_if) (rule emits_send)
  have 4: "emits (if mg_Role ?m \<noteq> ''tool'' \<and> mg_Content ?m \<noteq> []
      then [\<lparr>ev_Type = eventToken, ev_Data = tokenEvent (mg_Content ?m)\<rparr>] else []) ?o3 ?o4"
    by (rule emits_if) (rule emits_send)
  have ev: "chunk_events c =
      (((if ck_Thinking c \<noteq> []
         then [\<lparr>ev_Type = eventThinking, ev_Data = thinkingEvent (ck_Thinking c)\<rparr>] else [])
      @ map tool_call_event (mg_ToolCalls ?m))
      @ (if mg_Role ?m = ''tool'' \<and> mg_Content ?m \<noteq> []
         then [\<lparr>ev_Type = eventToolResult, ev_Data = toolResultEvent [] (mg_Content ?m)\<rparr>] else []))
      @ (if mg_Role ?m \<noteq> ''tool'' \<and> mg_Content ?m \<noteq> []
         then [\<lparr>ev_Type = eventToken, ev_Data = tokenEvent (mg_Content ?m)\<rparr>] else [])"
    by (simp add: chunk_events_def Let_def)
  show ?thesis
    unfolding e ev by (rule emits_trans [OF emits_trans [OF emits_trans [OF 1 2] 3] 4])
qed

lemma handle_chunk_vars: "fst (handle_chunk capture c st) = vars_step capture c (fst st)"
  by (cases "fst st")
    (simp add: handle_chunk_def vars_step_def Let_def fold_tool_calls [THEN conjunct1])

subsection \<open>The whole loop\<close>

text \<open>Every stream is a sequence of chunks followed by its end or an error.\<close>

lemma stream_results_form:
  "\<exists>cs res. stream_results cd s = map StreamChunk cs @ [res] \<and> (\<forall>c. res \<noteq> StreamChunk c)"
proof (induction cd s rule: stream_results.induct)
  case (1 cd s)
  obtain r s' where rs: "Next cd s = (r, s')" by force
  show ?case
  proof (cases r)
    case (StreamChunk c)
    from 1 [OF rs [symmetric] StreamChunk] obtain cs res where
      "stream_results cd s' = map StreamChunk cs @ [res]" "\<forall>c. res \<noteq> StreamChunk c" by blast
    then have "stream_results cd s = map StreamChunk (c # cs) @ [res]"
      using rs StreamChunk by (subst stream_results.simps) simp
    then show ?thesis using \<open>\<forall>c. res \<noteq> StreamChunk c\<close> by blast
  next
    case StreamEOF
    then have "stream_results cd s = map StreamChunk [] @ [StreamEOF]"
      using rs by (subst stream_results.simps) simp
    then show ?thesis by blast
  next
    case (StreamError e)
    then have "stream_results cd s = map StreamChunk [] @ [StreamError e]"
      using rs by (subst stream_results.simps) simp
    then show ?thesis by blast
  qed
qed

definition loop_end_of :: "next_result \<Rightarrow> loop_end" where
  "loop_end_of res = (case res of StreamError e \<Rightarrow> Failed e | _ \<Rightarrow> Drained)"

lemma stream_results_next:
  "Next cd s = (r, s') \<Longrightarrow>
   stream_results cd s = (case r of StreamChunk c \<Rightarrow> StreamChunk c # stream_results cd s' | _ \<Rightarrow> [r])"
  by (subst stream_results.simps) (simp split: next_result.split)

lemma stream_loop_run:
  assumes "stream_results (h_cd h) stream = map StreamChunk cs @ [res]"
    and "\<forall>c. res \<noteq> StreamChunk c"
  shows "\<exists>stream' fs'. stream_loop h capture stream (x, fs) =
      (loop_end_of res, stream', fold (vars_step capture) cs x, fs') \<and>
    emits (concat (map chunk_events cs)) fs fs'"
  using assms
proof (induction cs arbitrary: stream x fs)
  case Nil
  obtain r s' where rs: "Next (h_cd h) stream = (r, s')" by force
  from stream_results_next [OF rs] have "r = res" using Nil by (cases r) simp_all
  with rs Nil(2) have "stream_loop h capture stream (x, fs) = (loop_end_of res, s', x, fs)"
    by (subst stream_loop.simps) (cases res; simp add: loop_end_of_def)
  then show ?case using emits_none [of fs] by auto
next
  case (Cons c cs)
  obtain r s' where rs: "Next (h_cd h) stream = (r, s')" by force
  from stream_results_next [OF rs] Cons.prems(1)
  have r: "r = StreamChunk c" and rest: "stream_results (h_cd h) s' = map StreamChunk cs @ [res]"
    by (cases r; simp)+
  let ?st = "handle_chunk capture c (x, fst fs, refreshWriteDeadline h (snd fs))"
  have loop: "stream_loop h capture stream (x, fs) = stream_loop h capture s' (fst ?st, snd ?st)"
    using rs r by (subst stream_loop.simps) simp
  have "emits (chunk_events c) fs (snd ?st)"
    using emits_trans [OF emits_refresh [of "fst fs" "snd fs" h]
        handle_chunk_emits [of c "(x, fst fs, refreshWriteDeadline h (snd fs))" capture, simplified]]
    by simp
  then show ?case
    using Cons.IH [OF rest Cons.prems(2), of "fst ?st" "snd ?st"] emits_trans
    by (fastforce simp: loop handle_chunk_vars)
qed

subsection \<open>The response\<close>

text \<open>The last frame: \<open>done\<close> after a normal end, \<open>error\<close> after a failure.\<close>

definition final_event :: "bytes \<Rightarrow> int \<Rightarrow> stream_vars \<Rightarrow> next_result \<Rightarrow> sseEvent" where
  "final_event reqID latency x res =
     (case res of
        StreamError e \<Rightarrow>
          \<lparr>ev_Type = eventError,
           ev_Data = errorEvent_json
             \<lparr>ee_RequestID = reqID, ee_Status = bridgeErrorStatus (BridgeError e),
              ee_Title = problemTitleFor (bridgeErrorStatus (BridgeError e)),
              ee_Detail = ''upstream bridge stream failed''\<rparr>\<rparr>
      | _ \<Rightarrow> \<lparr>ev_Type = eventDone, ev_Data = doneEvent_json (done_event reqID latency x)\<rparr>)"

lemma commit_stream:
  assumes "sw_ok w" and "sw_sent w = None"
  shows "\<exists>h. committed (200, h) (sw_Flush (sw_WriteHeader 200 (set_stream_headers w))) \<and>
    h ''Content-Type'' = Some ''text/event-stream''"
proof -
  have "sw_ok (sw_WriteHeader 200 (set_stream_headers w))"
    using assms by (simp add: set_stream_headers_def sw_ok_intros)
  moreover have "\<exists>h. sw_sent (sw_WriteHeader 200 (set_stream_headers w)) = Some (200, h) \<and>
      h ''Content-Type'' = Some ''text/event-stream''"
    using sw_ok_fresh [OF assms] assms(2) by (simp add: set_stream_headers_def writer_simps)
  ultimately show ?thesis unfolding committed_def by (metis Flush_committed committed_def)
qed

lemma set_stream_headers_simps [writer_simps]:
  "reliable (set_stream_headers w) = reliable w"
  "sw_body (set_stream_headers w) = sw_body w"
  "sw_wroteHeader (set_stream_headers w) = sw_wroteHeader w"
  by (simp_all add: set_stream_headers_def writer_simps)

lemma body_WriteHeader: "sw_body (sw_WriteHeader code w) = sw_body w"
  by (simp add: writer_simps)

lemma stream_done_writer:
  "\<exists>latency. sv_w (stream_done h q caller reqID start x fs) =
     sv_w (snd (send eventDone (doneEvent_json (done_event reqID latency x))
       (fst fs, snd (time_now (h_rt h) (snd fs)))))"
  by (auto simp: stream_done_def Let_def split_beta frame_simps)

lemma emits_time: "emits [] fs (fst fs, snd (time_now rt (snd fs)))"
  by (simp add: emits_def same_books_def frame_simps)

lemma stream_done_emits:
  "\<exists>latency fs'. sv_w (stream_done h q caller reqID start x fs) = sv_w (snd fs') \<and>
     emits [final_event reqID latency x StreamEOF] fs fs'"
proof -
  obtain latency where w: "sv_w (stream_done h q caller reqID start x fs) =
     sv_w (snd (send eventDone (doneEvent_json (done_event reqID latency x))
       (fst fs, snd (time_now (h_rt h) (snd fs)))))"
    using stream_done_writer by blast
  have "emits ([] @ [final_event reqID latency x StreamEOF]) fs
      (send eventDone (doneEvent_json (done_event reqID latency x))
        (fst fs, snd (time_now (h_rt h) (snd fs))))"
    unfolding final_event_def
    by (rule emits_trans [OF emits_time [where rt = "h_rt h"]]) (simp add: emits_send)
  with w show ?thesis
    by (intro exI [of _ latency] exI [of _ "send eventDone
      (doneEvent_json (done_event reqID latency x)) (fst fs, snd (time_now (h_rt h) (snd fs)))"]) simp
qed

lemma stream_failed_writer:
  "deadline_of (sv_w (stream_failed h q caller reqID start x e fs)) = deadline_of (sv_w (snd fs)) \<and>
   (committed p (sv_w (snd fs)) \<longrightarrow>
      committed p (sv_w (stream_failed h q caller reqID start x e fs))) \<and>
   (\<not> fst fs \<and> reliable (sv_w (snd fs)) \<longrightarrow>
      sw_body (sv_w (stream_failed h q caller reqID start x e fs)) = sw_body (sv_w (snd fs)) @
        sse_frame (final_event reqID latency x (StreamError e)))"
proof -
  let ?m = "(fst fs, on_metrics (recordUpstreamError ''chat_stream'' (BridgeError e)) (snd fs))"
  let ?ev = "final_event reqID latency x (StreamError e)"
  let ?fs' = "send (ev_Type ?ev) (ev_Data ?ev) ?m"
  have w: "sv_w (stream_failed h q caller reqID start x e fs) = sv_w (snd ?fs')"
    by (simp add: stream_failed_def final_event_def Let_def split_beta frame_simps)
  have "\<lparr>ev_Type = ev_Type ?ev, ev_Data = ev_Data ?ev\<rparr> = ?ev" by (cases ?ev) simp
  with emits_send [of "ev_Type ?ev" "ev_Data ?ev" ?m] have "emits [?ev] ?m ?fs'" by simp
  then show ?thesis unfolding w emits_def by (cases p) (auto simp: frame_simps)
qed

lemma final_type_plain: "no_ctl (ev_Type (final_event reqID latency x res))"
  by (simp add: final_event_def eventDone_def eventError_def split: next_result.split)

lemma chunk_types_plain: "ev \<in> set (chunk_events c) \<Longrightarrow> no_ctl (ev_Type ev)"
  by (auto simp: chunk_events_def Let_def eventThinking_def eventToolCall_def eventToolResult_def
      eventToken_def tool_call_event_def split: if_splits)

lemma run_stream_body:
  assumes "sw_ok (sv_w s)" and "sw_sent (sv_w s) = None" and "reliable (sv_w s)"
    and "stream_results (h_cd h) stream = map StreamChunk cs @ [res]"
    and "\<forall>c. res \<noteq> StreamChunk c"
  shows "\<exists>hd latency. sw_sent (sv_w (fst (run_stream h q bq caller reqID start stream s))) =
      Some (200, hd) \<and> hd ''Content-Type'' = Some ''text/event-stream'' \<and>
    sw_body (sv_w (fst (run_stream h q bq caller reqID start stream s))) =
      sw_body (sv_w s) @ concat (map sse_frame (concat (map chunk_events cs) @
        [final_event reqID latency
          (fold (vars_step (LogQueryEnabled (sh_audit s))) cs (init_vars (cq_Model bq))) res]))"
proof -
  let ?w1 = "sw_Flush (sw_WriteHeader 200 (set_stream_headers (sv_w s)))"
  let ?s2 = "refreshWriteDeadline h (on_writer (\<lambda>w. sw_Flush (sw_WriteHeader 200 (set_stream_headers w))) s)"
  let ?x = "fold (vars_step (LogQueryEnabled (sh_audit s))) cs (init_vars (cq_Model bq))"
  have s2: "sv_w ?s2 = ?w1" "sh_audit ?s2 = sh_audit s" by (simp_all add: frame_simps)
  obtain hd where hd: "committed (200, hd) ?w1" "hd ''Content-Type'' = Some ''text/event-stream''"
    using commit_stream [OF assms(1,2)] by blast
  have w1: "reliable ?w1" "sw_body ?w1 = sw_body (sv_w s)"
    using assms(3) by (simp_all add: writer_simps)
  obtain stream' fs where loop: "stream_loop h (LogQueryEnabled (sh_audit s)) stream
      (init_vars (cq_Model bq), False, ?s2) = (loop_end_of res, stream', ?x, fs)"
    and em: "emits (concat (map chunk_events cs)) (False, ?s2) fs"
    using stream_loop_run [OF assms(4,5)] by blast
  have fs: "committed (200, hd) (sv_w (snd fs))" "\<not> fst fs" "reliable (sv_w (snd fs))"
    "sw_body (sv_w (snd fs)) = sw_body (sv_w s) @ concat (map sse_frame (concat (map chunk_events cs)))"
    using em hd(1) w1 unfolding emits_def by (simp_all add: s2)
  show ?thesis
  proof (cases "loop_end_of res")
    case (Failed e)
    then have res: "res = StreamError e" by (auto simp: loop_end_of_def split: next_result.splits)
    have run: "fst (run_stream h q bq caller reqID start stream s) =
        stream_failed h q caller reqID start ?x e fs"
      using loop Failed by (simp add: run_stream_def Let_def s2)
    let ?r = "stream_failed h q caller reqID start ?x e fs"
    have "committed (200, hd) (sv_w ?r)" "sw_body (sv_w ?r) =
        sw_body (sv_w (snd fs)) @ sse_frame (final_event reqID 0 ?x (StreamError e))"
      using stream_failed_writer [where p = "(200, hd)" and fs = fs and latency = 0 and h = h and q = q
          and caller = caller and reqID = reqID and start = start and x = ?x and e = e] fs(1-3) by simp_all
    then show ?thesis
      unfolding run res using fs(4) hd(2)
      by (intro exI [of _ hd] exI [of _ 0]) (simp add: committed_def)
  next
    case Drained
    then have res: "res = StreamEOF"
      using assms(5) by (cases res) (auto simp: loop_end_of_def)
    have run: "fst (run_stream h q bq caller reqID start stream s) =
        stream_done h q caller reqID start ?x fs"
      using loop Drained by (simp add: run_stream_def Let_def s2)
    obtain latency fs' where w: "sv_w (stream_done h q caller reqID start ?x fs) = sv_w (snd fs')"
      and "emits [final_event reqID latency ?x StreamEOF] fs fs'"
      using stream_done_emits by blast
    then have fs': "committed (200, hd) (sv_w (snd fs'))" "sw_body (sv_w (snd fs')) =
        sw_body (sv_w (snd fs)) @ sse_frame (final_event reqID latency ?x StreamEOF)"
      using fs(1-3) by (simp_all add: emits_def)
    show ?thesis
      unfolding run res w using fs' fs(4) hd(2)
      by (intro exI [of _ hd] exI [of _ latency]) (simp add: committed_def)
  qed
qed

lemma stream_types_plain:
  "\<forall>ev \<in> set (concat (map chunk_events cs) @ [final_event reqID latency x res]). no_ctl (ev_Type ev)"
  using chunk_types_plain final_type_plain by auto

lemma askStream_opened:
  assumes "br_ChatStream (h_bridge h) bq = Inr stream"
  shows "fst (askStream h r q bq caller reqID s) =
    fst (run_stream h q bq caller reqID (fst (time_now (h_rt h) s)) stream (snd (time_now (h_rt h) s)))"
proof -
  have "MFlush \<in> set statusWriter_methods" by (simp add: statusWriter_methods_def)
  then show ?thesis using assms by (simp add: askStream_def Let_def split_beta)
qed

text \<open>The response to a stream that has been opened, on a fresh writer.\<close>

lemma askStream_body:
  assumes "sw_ok (sv_w s)" and "sw_sent (sv_w s) = None" and "reliable (sv_w s)"
    and "sw_body (sv_w s) = []" and "br_ChatStream (h_bridge h) bq = Inr stream"
  shows "\<exists>cs res hd latency.
    stream_results (h_cd h) stream = map StreamChunk cs @ [res] \<and> (\<forall>c. res \<noteq> StreamChunk c) \<and>
    sw_sent (sv_w (fst (askStream h r q bq caller reqID s))) = Some (200, hd) \<and>
    hd ''Content-Type'' = Some ''text/event-stream'' \<and>
    sw_body (sv_w (fst (askStream h r q bq caller reqID s))) =
      concat (map sse_frame (concat (map chunk_events cs) @
        [final_event reqID latency
          (fold (vars_step (LogQueryEnabled (sh_audit s))) cs (init_vars (cq_Model bq))) res]))"
proof -
  obtain cs res where res: "stream_results (h_cd h) stream = map StreamChunk cs @ [res]"
    "\<forall>c. res \<noteq> StreamChunk c"
    using stream_results_form by blast
  let ?s1 = "snd (time_now (h_rt h) s)"
  have s1: "sv_w ?s1 = sv_w s" "sh_audit ?s1 = sh_audit s" by (simp_all add: frame_simps)
  show ?thesis
    using run_stream_body [of ?s1 h stream cs res q bq caller reqID "fst (time_now (h_rt h) s)"]
      assms(1-4) res
    unfolding s1 askStream_opened [OF assms(5)]
    by (intro exI [of _ cs] exI [of _ res]) auto
qed

text \<open>C12: the streaming answer is the upstream's stream, event by event: whenever the bridge has opened
  a stream, the response has status 200 and the event-stream content type, and a client reads
  from it, in order, the events of every chunk that the upstream sent and then exactly one
  last event: \<open>done\<close> with the usage of the final chunk, or \<open>error\<close> with the status that the
  non-streaming path would have used.\<close>

theorem stream_relays_upstream:
  assumes "sw_ok (sv_w s)" and "sw_sent (sv_w s) = None" and "reliable (sv_w s)"
    and "sw_body (sv_w s) = []" and "br_ChatStream (h_bridge h) bq = Inr stream"
  shows "\<exists>cs res hd latency.
    stream_results (h_cd h) stream = map StreamChunk cs @ [res] \<and> (\<forall>c. res \<noteq> StreamChunk c) \<and>
    sw_sent (sv_w (fst (askStream h r q bq caller reqID s))) = Some (200, hd) \<and>
    hd ''Content-Type'' = Some ''text/event-stream'' \<and>
    read_stream (sw_body (sv_w (fst (askStream h r q bq caller reqID s)))) =
      map (\<lambda>ev. (ev_Type ev, [encode (ev_Data ev)]))
        (concat (map chunk_events cs) @
          [final_event reqID latency
            (fold (vars_step (LogQueryEnabled (sh_audit s))) cs (init_vars (cq_Model bq))) res])"
proof -
  obtain cs res hd latency where
    "stream_results (h_cd h) stream = map StreamChunk cs @ [res]" "\<forall>c. res \<noteq> StreamChunk c"
    "sw_sent (sv_w (fst (askStream h r q bq caller reqID s))) = Some (200, hd)"
    "hd ''Content-Type'' = Some ''text/event-stream''"
    and body: "sw_body (sv_w (fst (askStream h r q bq caller reqID s))) =
      concat (map sse_frame (concat (map chunk_events cs) @
        [final_event reqID latency
          (fold (vars_step (LogQueryEnabled (sh_audit s))) cs (init_vars (cq_Model bq))) res]))"
    using askStream_body [OF assms] by blast
  then show ?thesis
    unfolding body read_frames [OF stream_types_plain] by blast
qed

subsection \<open>What the books say\<close>

lemma emits_audit: "emits evs a b \<Longrightarrow> sh_audit (snd b) = sh_audit (snd a)"
  by (simp add: emits_def same_books_def)

lemma stream_loop_books:
  assumes "stream_loop h capture stream (x, fs) = (r, stream', x', fs')"
  shows "same_books (snd fs) (snd fs') \<and> deadline_of (sv_w (snd fs')) = deadline_of (sv_w (snd fs))"
proof -
  obtain cs res where "stream_results (h_cd h) stream = map StreamChunk cs @ [res]"
    "\<forall>c. res \<noteq> StreamChunk c"
    using stream_results_form by blast
  from stream_loop_run [OF this, of capture x fs] assms show ?thesis
    by (auto simp: emits_def)
qed

text \<open>The audit record that one run leaves: one event, about this request.\<close>

definition audited ::
  "Logger \<Rightarrow> Logger \<Rightarrow> bytes \<Rightarrow> bytes \<Rightarrow> bytes \<Rightarrow> (Event \<Rightarrow> bool) \<Rightarrow> bool" where
  "audited l l' reqID caller query ok \<longleftrightarrow>
     (\<exists>now e. l' = snd (Log now e l) \<and> ev_RequestID e = reqID \<and> ev_CallerIdentity e = caller \<and>
        ev_Query e = query \<and> ok e)"

definition stream_outcome :: "Event \<Rightarrow> bool" where
  "stream_outcome e \<longleftrightarrow>
     ev_Outcome e = ''ok'' \<and> ev_Status e = 200 \<or>
     ev_Outcome e = ''error'' \<and> ev_Status e \<in> {502, 503} \<and> ev_Answer e = []"

lemma audited_logAudit:
  "ev_RequestID e = reqID \<Longrightarrow> ev_CallerIdentity e = caller \<Longrightarrow> ev_Query e = query \<Longrightarrow> ok e \<Longrightarrow>
   sh_audit s = l \<Longrightarrow> audited l (sh_audit (logAudit h e s)) reqID caller query ok"
  by (auto simp: audited_def frame_simps)

lemma stream_done_audit:
  "audited (sh_audit (snd fs)) (sh_audit (stream_done h q caller reqID start x fs)) reqID caller
     (ask_Query q) stream_outcome"
  unfolding stream_done_def Let_def split_beta
  by (rule audited_logAudit) (simp_all add: stream_outcome_def frame_simps)

lemma stream_failed_audit:
  "audited (sh_audit (snd fs)) (sh_audit (stream_failed h q caller reqID start x e fs)) reqID caller
     (ask_Query q) stream_outcome"
  unfolding stream_failed_def Let_def split_beta
  by (rule audited_logAudit)
    (use bridgeErrorStatus_values in \<open>simp_all add: stream_outcome_def frame_simps\<close>)

lemma run_stream_audit:
  "audited (sh_audit s) (sh_audit (fst (run_stream h q bq caller reqID start stream s))) reqID caller
     (ask_Query q) stream_outcome"
proof -
  define s2 where "s2 = refreshWriteDeadline h
    (on_writer (\<lambda>w. sw_Flush (sw_WriteHeader 200 (set_stream_headers w))) s)"
  obtain r stream' x fs where l: "stream_loop h (LogQueryEnabled (sh_audit s2)) stream
      (init_vars (cq_Model bq), False, s2) = (r, stream', x, fs)"
    using prod_cases4 by blast
  have "sh_audit (snd fs) = sh_audit s"
    using stream_loop_books [OF l] by (simp add: same_books_def s2_def frame_simps)
  then show ?thesis
    using l stream_done_audit [of fs h q caller reqID start x]
      stream_failed_audit [of fs h q caller reqID start x]
    by (cases r) (simp_all add: run_stream_def Let_def s2_def)
qed

lemma askStream_audit:
  "audited (sh_audit s) (sh_audit (fst (askStream h r q bq caller reqID s))) reqID caller
     (ask_Query q) stream_outcome"
proof -
  have flush: "MFlush \<in> set statusWriter_methods" by (simp add: statusWriter_methods_def)
  show ?thesis
  proof (cases "br_ChatStream (h_bridge h) bq")
    case (Inl e)
    show ?thesis
      unfolding askStream_def Let_def split_beta using flush Inl
      by (simp, intro audited_logAudit)
        (use bridgeErrorStatus_values in \<open>simp_all add: stream_outcome_def frame_simps\<close>)
  next
    case (Inr stream)
    then show ?thesis
      using flush run_stream_audit [of "snd (time_now (h_rt h) s)"]
      by (simp add: askStream_def Let_def split_beta frame_simps)
  qed
qed

subsection \<open>The write deadline\<close>

lemma deadline_conn [writer_simps]:
  "deadline_of (sw_Header_Set k v w) = deadline_of w"
  "deadline_of (sw_WriteHeader code w) = deadline_of w"
  "deadline_of (snd (sw_Write b w)) = deadline_of w"
  "deadline_of (sw_Flush w) = deadline_of w"
  by (simp_all add: writer_simps)

lemma writeProblem_deadline: "deadline_of (writeProblem_w r code title detail w) = deadline_of w"
  by (simp add: writeProblem_w_def Let_def deadline_conn)

lemma run_stream_deadline:
  "deadline_of (sv_w (fst (run_stream h q bq caller reqID start stream s))) = deadline_of (sv_w s)"
proof -
  define s2 where "s2 = refreshWriteDeadline h
    (on_writer (\<lambda>w. sw_Flush (sw_WriteHeader 200 (set_stream_headers w))) s)"
  obtain r stream' x fs where l: "stream_loop h (LogQueryEnabled (sh_audit s2)) stream
      (init_vars (cq_Model bq), False, s2) = (r, stream', x, fs)"
    using prod_cases4 by blast
  have "deadline_of (sv_w (snd fs)) = deadline_of (sv_w s)"
    using stream_loop_books [OF l] by (simp add: s2_def frame_simps set_stream_headers_def deadline_conn)
  moreover have "deadline_of (sv_w (stream_done h q caller reqID start x fs)) = deadline_of (sv_w (snd fs))"
  proof -
    obtain latency fs' where "sv_w (stream_done h q caller reqID start x fs) = sv_w (snd fs')"
      "emits [final_event reqID latency x StreamEOF] fs fs'"
      using stream_done_emits by blast
    then show ?thesis by (simp add: emits_def)
  qed
  ultimately show ?thesis
    using l stream_failed_writer [where fs = fs and x = x]
    by (cases r) (simp_all add: run_stream_def Let_def s2_def)
qed

text \<open>C35: no deadline protects a stream: the deadline of the connection is the same after a streamed
  answer as before it, because the wrapper that the metrics middleware puts around the
  connection neither has \<open>SetWriteDeadline\<close> nor unwraps, and the error is dropped; a client
  that stops reading is not cut off.\<close>

theorem stream_sets_no_deadline:
  "deadline_of (sv_w (fst (askStream h r q bq caller reqID s))) = deadline_of (sv_w s) \<and>
   fst (sw_SetWriteDeadline t (sv_w s)) = False"
proof (cases "br_ChatStream (h_bridge h) bq")
  case (Inl e)
  then show ?thesis
    by (simp add: askStream_def Let_def split_beta frame_simps writeProblem_deadline writer_simps)
next
  case (Inr stream)
  then show ?thesis
    by (simp add: askStream_def Let_def split_beta frame_simps writeProblem_deadline
        run_stream_deadline writer_simps)
qed

subsection \<open>A concrete gateway\<close>

definition sample_runtime :: "(int, int) runtime" where
  "sample_runtime =
     \<lparr>rtm_clock = int, rtm_rfc3339 = (\<lambda>_. ''2026-01-01T00:00:00Z''),
      rtm_sha256 = (\<lambda>t. take 32 (t @ replicate 32 CHR ''x'')), rtm_lib = drain_lib\<rparr>"

text \<open>Its upstream is unreachable for chats and lists, and streams an empty body.\<close>

definition sample_bridge :: bridge_ops where
  "sample_bridge =
     \<lparr>br_Chat = (\<lambda>_. Inl (BridgeError (local_error ''chat'' ''connection refused''))),
      br_ChatStream = (\<lambda>_. Inr (newChatStream (text_body []))),
      br_Models = Inl (BridgeError (local_error ''models'' ''connection refused''))\<rparr>"

definition sample_handlers :: "(int, int) handlers" where
  "sample_handlers =
     \<lparr>h_rt = sample_runtime, h_cd = plain_codec, h_bridge = sample_bridge,
      h_defaultModel = ''granite'', h_maxRequestBytes = 100, h_requestTimeout = 1000\<rparr>"

lemma fresh_server_reliable:
  "reliable (sv_w fresh_server)" "sw_body (sv_w fresh_server) = []"
  by (simp_all add: fresh_server_def frame_simps new_statusWriter_def new_conn_def reliable_def)

theorem stream_relays_upstream_witness:
  "\<exists>hd. sw_sent (sv_w (fst (askStream sample_handlers (plain_request [])
     \<lparr>ask_Query = ''q'', ask_Model = [], ask_Stream = True, ask_ConversationID = []\<rparr> sample_question
     ''c'' ''r1'' (fresh_server :: (int, int, Source) server)))) = Some (200, hd)"
  using stream_relays_upstream [OF fresh_server_writer(1,2) fresh_server_reliable, of sample_handlers
      sample_question "newChatStream (text_body [])" "plain_request []"
      "\<lparr>ask_Query = ''q'', ask_Model = [], ask_Stream = True, ask_ConversationID = []\<rparr>" "''c''" "''r1''"]
  unfolding sample_handlers_def sample_bridge_def by simp blast

end
