(* ===== verification/AskDecode.thy ===== *)
theory AskDecode
  imports Handlers JsonRoundTrip
begin

text \<open>
  What the checks of \<open>POST /v1/ask\<close> let through: the decoded request is within the documented
  limits, every request that the wire type describes and that respects them is accepted as it
  was written, and the limits on the body act as the status codes say.
\<close>

subsection \<open>Decoded strings\<close>

definition ask_valid :: "AskRequest \<Rightarrow> bool" where
  "ask_valid q \<longleftrightarrow>
     valid_utf8 (ask_Query q) \<and> valid_utf8 (ask_Model q) \<and> valid_utf8 (ask_ConversationID q)"

lemma ask_field_valid:
  "f \<in> snd ` set AskRequest_fields \<Longrightarrow> valid_strings v \<Longrightarrow> ask_valid q \<Longrightarrow> ask_valid (fst (f v q))"
  by (auto simp: AskRequest_fields_def store_str_def store_bool_def ask_valid_def
      split: jval.splits)

lemma store_request_valid:
  assumes "valid_strings v" and "store_struct True [] AskRequest_fields v zero_AskRequest = (q, e)"
  shows "ask_valid q"
proof -
  have "ask_valid (fst (store_struct True [] AskRequest_fields v zero_AskRequest))"
    by (rule store_struct_keeps [where P = ask_valid])
      (use ask_field_valid assms(1) in \<open>auto simp: ask_valid_def zero_AskRequest_def\<close>)
  then show ?thesis by (simp add: assms(2))
qed

lemma decode_request_cases:
  assumes "decode_request cd limit body fault = Inr q"
  obtains v rest where
      "decode_next (take limit body) (limit < length body \<or> fault \<noteq> None) = Inr (v, rest)"
    and "store_struct True [] AskRequest_fields v zero_AskRequest = (q, None)"
    and "decode_next rest (limit < length body \<or> fault \<noteq> None) = Inl EndOfInput"
  using assms
  by (auto simp: decode_request_def Let_def split: sum.splits prod.splits option.splits if_splits)

lemma end_not_over: "decode_next s over = Inl EndOfInput \<Longrightarrow> \<not> over"
  by (auto simp: decode_next_def split: scan.splits if_splits)

lemma decode_request_valid: "decode_request cd limit body fault = Inr q \<Longrightarrow> ask_valid q"
  by (erule decode_request_cases) (rule store_request_valid [OF decode_next_valid])

lemma accept_request_cases:
  assumes "accept_request cd limit r = Inr q"
  shows "requireJSON r = None" and "decode_request cd limit (rq_Body r) (rq_BodyError r) = Inr q"
    and "validateAskRequest q = None"
  using assms by (auto simp: accept_request_def split: option.splits sum.splits)

text \<open>C19: what \<open>ask\<close> goes on with: a body that has arrived in full and within the limit, a query that is not blank, at most 4096
  bytes long and valid UTF-8, and a conversation ID that is absent or has the form of a UUID.\<close>

theorem accepted_request_within_limits:
  assumes "accept_request cd limit r = Inr q"
  shows "length (rq_Body r) \<le> limit \<and> rq_BodyError r = None \<and> trim_space (ask_Query q) \<noteq> [] \<and>
    length (ask_Query q) \<le> 4096 \<and> ask_valid q \<and>
    (ask_ConversationID q = [] \<or> isUUIDLike (ask_ConversationID q))"
proof -
  note c = accept_request_cases [OF assms]
  from c(2) have "\<not> (limit < length (rq_Body r) \<or> rq_BodyError r \<noteq> None)"
    by (rule decode_request_cases) (rule end_not_over)
  moreover have "ask_valid q" by (rule decode_request_valid [OF c(2)])
  ultimately show ?thesis
    using c(3) by (auto simp: validateAskRequest_def maxQueryBytes_def split: if_splits)
qed

text \<open>The check for valid UTF-8 never fires on a decoded request: the decoder has already put
  replacement characters in place of what was invalid, so such a query is answered, not
  refused with the documented error.\<close>

theorem utf8_check_never_fires:
  assumes "decode_request cd limit body fault = Inr q"
  shows "valid_utf8 (ask_Query q) \<and>
    validateAskRequest q \<noteq> Some ''query must be valid UTF-8''"
  using decode_request_valid [OF assms] by (simp add: validateAskRequest_def ask_valid_def)

subsection \<open>Bodies over the limit\<close>

lemma ask_field_error:
  assumes "find_field k AskRequest_fields = Some f"
  shows "snd (f v q) \<noteq> Some ReadFailed"
  using find_field_in [OF assms]
  by (auto simp: AskRequest_fields_def store_str_def store_bool_def split: jval.splits)

lemma store_members_not_failed:
  "e \<noteq> Some ReadFailed \<Longrightarrow>
   snd (store_members strict AskRequest_fields kvs q e) \<noteq> Some ReadFailed"
proof (induction strict "AskRequest_fields" kvs q e rule: store_members.induct)
  case (2 strict k v kvs s e)
  then show ?case
    using ask_field_error [of k _ v s]
    by (cases e) (auto split: option.split prod.split)
qed simp

lemma store_request_not_failed:
  "store_struct True [] AskRequest_fields v q = (q', Some e) \<Longrightarrow> e \<noteq> ReadFailed"
  using store_members_not_failed [of None True _ q]
  by (cases v) (auto simp: store_struct_def dest: arg_cong [where f = snd])

text \<open>C38: a body over the limit is never accepted, and its status depends on where the first JSON
  value ends: 413 when the value has not ended within the limit, but 400 when an object or
  array (or a syntax error) ends before the limit and only what follows is too long.\<close>

theorem oversized_body_status:
  assumes "limit < length body"
  shows "\<exists>detail. decode_request cd limit body fault = Inl
    (case scan (take limit body) of
       Truncated \<Rightarrow> 413
     | Complete v rest \<Rightarrow> if rest = [] \<and> \<not> is_container v then 413 else 400
     | _ \<Rightarrow> 400, detail)"
proof (cases "scan (take limit body)")
  case (Complete v rest)
  show ?thesis
  proof (cases "rest = [] \<and> \<not> is_container v")
    case True
    then show ?thesis using assms Complete by (simp add: decode_request_def decode_next_def)
  next
    case False
    then have dn: "decode_next (take limit body) True = Inr (v, rest)"
      using Complete by (auto simp: decode_next_def)
    have rest: "decode_next rest True \<noteq> Inl EndOfInput" using end_not_over by blast
    obtain q e where st: "store_struct True [] AskRequest_fields v zero_AskRequest = (q, e)" by force
    show ?thesis
    proof (cases e)
      case None
      then show ?thesis using assms dn rest st False Complete by (auto simp: decode_request_def)
    next
      case (Some x)
      then have "x \<noteq> ReadFailed" using st store_request_not_failed by blast
      then show ?thesis
        using assms dn st False Complete Some by (auto simp: decode_request_def Let_def)
    qed
  qed
qed (use assms scan_total in \<open>auto simp: decode_request_def decode_next_def Let_def\<close>)

text \<open>A body whose reading fails within the limit is not accepted either, with 400.\<close>

lemma broken_body_status:
  assumes "length body \<le> limit" and "fault \<noteq> None"
  shows "\<exists>detail. decode_request cd limit body fault = Inl (400, detail)"
proof -
  have "decode_next rest True \<noteq> Inl EndOfInput" for rest using end_not_over by blast
  then show ?thesis
    using assms by (auto simp: decode_request_def Let_def split: sum.split prod.split option.split)
qed

subsection \<open>Requests as the wire type describes them\<close>

lemma plain_AskRequest: "ask_valid q \<Longrightarrow> plain max_depth (AskRequest_json q)"
proof -
  have "valid_utf8 ''query''" "valid_utf8 ''model''" "valid_utf8 ''stream''"
    "valid_utf8 ''conversation_id''"
    by (simp_all add: valid_utf8_ascii)
  then show "ask_valid q \<Longrightarrow> plain max_depth (AskRequest_json q)"
    by (auto simp: AskRequest_json_def str_field_def bool_field_def max_depth_def ask_valid_def)
qed

lemma find_AskRequest_fields:
  "find_field ''query'' AskRequest_fields = Some (store_str ''query'' (\<lambda>x r. r\<lparr>ask_Query := x\<rparr>))"
  "find_field ''model'' AskRequest_fields = Some (store_str ''model'' (\<lambda>x r. r\<lparr>ask_Model := x\<rparr>))"
  "find_field ''stream'' AskRequest_fields = Some (store_bool ''stream'' (\<lambda>x r. r\<lparr>ask_Stream := x\<rparr>))"
  "find_field ''conversation_id'' AskRequest_fields =
     Some (store_str ''conversation_id'' (\<lambda>x r. r\<lparr>ask_ConversationID := x\<rparr>))"
  by (simp_all add: find_field_def AskRequest_fields_def)

lemma store_AskRequest:
  "store_struct True [] AskRequest_fields (jval_of (AskRequest_json q)) zero_AskRequest = (q, None)"
  by (cases q)
    (simp add: AskRequest_json_def store_struct_def str_field_def bool_field_def
      find_AskRequest_fields store_str_def store_bool_def zero_AskRequest_def)

lemma decode_encoded_request:
  assumes "ask_valid q" and "length (encode (AskRequest_json q)) \<le> limit"
  shows "decode_request cd limit (encode (AskRequest_json q)) None = Inr q"
proof -
  have "scan (encode (AskRequest_json q) @ []) = Complete (jval_of (AskRequest_json q)) []"
    by (rule scan_encode [OF plain_AskRequest [OF assms(1)]]) simp
  moreover have "decode_next [] False = Inl EndOfInput"
    by (simp add: decode_next_def scan_def skip_ws_def)
  ultimately show ?thesis
    using assms(2) store_AskRequest by (simp add: decode_request_def decode_next_def Let_def)
qed

text \<open>C18: every request within the limits is accepted exactly as it was meant: decoding the JSON of a
  request of the wire type gives back that request, whatever characters its query holds.\<close>

theorem wire_request_accepted:
  assumes "requireJSON r = None" and "rq_Body r = encode (AskRequest_json q)"
    and "rq_BodyError r = None" and "length (rq_Body r) \<le> limit" and "ask_valid q" and "trim_space (ask_Query q) \<noteq> []"
    and "length (ask_Query q) \<le> 4096"
    and "ask_ConversationID q = [] \<or> isUUIDLike (ask_ConversationID q)"
  shows "accept_request cd limit r = Inr q"
proof -
  have "validateAskRequest q = None"
    using assms(5-8) by (auto simp: validateAskRequest_def maxQueryBytes_def ask_valid_def)
  then show ?thesis
    using assms(1-4) decode_encoded_request [OF assms(5), of limit cd]
    by (simp add: accept_request_def)
qed

subsection \<open>A concrete request\<close>

definition sample_ask :: AskRequest where
  "sample_ask = \<lparr>ask_Query = ''cost?'', ask_Model = [], ask_Stream = True, ask_ConversationID = []\<rparr>"

definition ask_request :: "bytes \<Rightarrow> Request" where
  "ask_request body =
     \<lparr>rq_Method = ''POST'', rq_Path = ''/v1/ask'',
      rq_Header = (\<lambda>k. if k = ''Content-Type'' then [''application/json; charset=utf-8'']
                       else if k = ''Authorization'' then [''Bearer old''] else []),
      rq_Body = body, rq_BodyError = None, rq_RemoteAddr = ''10.0.0.7:1'', rq_ctx_id = Some ''r1''\<rparr>"

lemma ask_request_is_json: "requireJSON (ask_request body) = None"
proof -
  have h: "header_get (ask_request body) ''Content-Type'' = ''application/json; charset=utf-8''"
    by (simp add: header_get_def ask_request_def)
  have "trim_space (to_lower (media_type ''application/json; charset=utf-8'')) = ''application/json''"
    by code_simp
  then show ?thesis by (simp add: requireJSON_def h)
qed

lemma sample_ask_valid: "ask_valid sample_ask"
  by (simp add: ask_valid_def sample_ask_def valid_utf8_ascii)

lemma sample_ask_query: "trim_space (ask_Query sample_ask) \<noteq> []"
  by code_simp

theorem wire_request_accepted_witness:
  "accept_request plain_codec 100 (ask_request (encode (AskRequest_json sample_ask))) = Inr sample_ask"
proof (rule wire_request_accepted [OF ask_request_is_json _ _ _ sample_ask_valid sample_ask_query])
  have "length (encode (AskRequest_json sample_ask)) \<le> 100" by code_simp
  then show "length (rq_Body (ask_request (encode (AskRequest_json sample_ask)))) \<le> 100"
    by (simp add: ask_request_def)
qed (simp_all add: ask_request_def sample_ask_def)

text \<open>The same question, with or without a stream, below any limit that it fits.\<close>

lemma sample_accepted_within:
  assumes "100 \<le> limit"
  shows "accept_request cd limit (ask_request (encode (AskRequest_json (sample_ask\<lparr>ask_Stream := b\<rparr>)))) =
    Inr (sample_ask\<lparr>ask_Stream := b\<rparr>)"
proof -
  let ?q = "sample_ask\<lparr>ask_Stream := b\<rparr>"
  have "length (encode (AskRequest_json (sample_ask\<lparr>ask_Stream := True\<rparr>))) \<le> 100"
    "length (encode (AskRequest_json (sample_ask\<lparr>ask_Stream := False\<rparr>))) \<le> 100" by code_simp+
  then have "length (encode (AskRequest_json ?q)) \<le> limit"
    using assms by (cases b) (simp_all only: order_trans)
  moreover have "ask_valid ?q" by (simp add: ask_valid_def sample_ask_def valid_utf8_ascii)
  ultimately have "decode_request cd limit (encode (AskRequest_json ?q)) None = Inr ?q"
    by (rule decode_encoded_request [rotated])
  moreover have "validateAskRequest (sample_ask\<lparr>ask_Stream := True\<rparr>) = None"
    "validateAskRequest (sample_ask\<lparr>ask_Stream := False\<rparr>) = None" by code_simp+
  then have "validateAskRequest ?q = None" by (cases b) simp_all
  ultimately show ?thesis
    using ask_request_is_json by (simp add: accept_request_def) (simp add: ask_request_def)
qed

lemma sample_accepted:
  "accept_request cd 100 (ask_request (encode (AskRequest_json sample_ask))) = Inr sample_ask"
proof -
  have "sample_ask\<lparr>ask_Stream := True\<rparr> = sample_ask" by (simp add: sample_ask_def)
  with sample_accepted_within [of 100 cd True] show ?thesis by simp
qed

theorem accepted_request_within_limits_witness:
  "length (ask_Query sample_ask) \<le> 4096"
  using accepted_request_within_limits [OF sample_accepted [of plain_codec]] by blast

theorem utf8_check_never_fires_witness: "valid_utf8 (ask_Query sample_ask)"
  using utf8_check_never_fires [OF accept_request_cases(2) [OF sample_accepted [of plain_codec]]]
  by blast

theorem oversized_body_status_witness:
  "\<exists>d. decode_request plain_codec 2 ''{} '' None = Inl (400, d)"
proof -
  have "scan (take 2 ''{} '') = Complete (VObj []) []" by code_simp
  then show ?thesis using oversized_body_status [of 2 "''{} ''" plain_codec None] by simp
qed

end
