(* ===== verification/Ask.thy ===== *)
theory Ask
  imports AskStream AskDecode
begin

text \<open>
  The handlers of \<open>internal/server/handlers.go\<close>: \<open>ask\<close>, \<open>tools\<close> and \<open>models\<close>, composed from the
  checks, the limiter, the bridge, the observations and the audit log in the order of the
  code.
\<close>

definition user_message :: "bytes \<Rightarrow> Message" where
  "user_message query = \<lparr>mg_Role = ''user'', mg_Content = query, mg_ToolCalls = []\<rparr>"

definition bridge_request :: "bytes \<Rightarrow> AskRequest \<Rightarrow> ChatRequest" where
  "bridge_request model q =
     \<lparr>cq_Model = model, cq_Messages = [user_message (ask_Query q)], cq_Stream = False,
      cq_Options = None\<rparr>"

definition ask_response :: "bytes \<Rightarrow> AskRequest \<Rightarrow> ChatResponse \<Rightarrow> int \<Rightarrow> AskResponse" where
  "ask_response reqID q resp latency =
     \<lparr>rsp_RequestID = reqID, rsp_Model = cp_Model resp, rsp_Query = ask_Query q,
      rsp_Answer = mg_Content (cp_Message resp),
      rsp_ToolCalls = toAPIToolCalls (mg_ToolCalls (cp_Message resp)),
      rsp_Usage = \<lparr>us_PromptTokens = cp_PromptEvalCount resp,
                   us_CompletionTokens = cp_EvalCount resp\<rparr>,
      rsp_LatencyMS = millis latency\<rparr>"

text \<open>The non-streaming tail of \<open>ask\<close>.\<close>

definition askPlain ::
  "('l, 'b) handlers \<Rightarrow> Request \<Rightarrow> AskRequest \<Rightarrow> ChatRequest \<Rightarrow> bytes \<Rightarrow> bytes
   \<Rightarrow> ('l, 'b, 'v) server \<Rightarrow> ('l, 'b, 'v) server" where
  "askPlain h r q bridgeReq caller reqID s0 =
     (let (start, s1) = time_now (h_rt h) s0 in
      case br_Chat (h_bridge h) bridgeReq of
        Inl e \<Rightarrow> mapBridgeError r ''chat'' e (on_metrics (recordUpstreamError ''chat'' e) s1)
      | Inr resp \<Rightarrow>
          (let (now, s2) = time_now (h_rt h) s1;
               latency = now - start;
               tools = toAPIToolCalls (mg_ToolCalls (cp_Message resp));
               s3 = on_metrics (observeTokens (cp_Model resp) (cp_PromptEvalCount resp)
                      (cp_EvalCount resp)) s2;
               s4 = on_metrics (observeToolCalls tools) s3;
               s5 = logAudit h
                 \<lparr>ev_Timestamp = None, ev_RequestID = reqID, ev_CallerIdentity = caller,
                  ev_Model = cp_Model resp, ev_PromptTokens = cp_PromptEvalCount resp,
                  ev_CompletionTokens = cp_EvalCount resp,
                  ev_ToolCalls = toAuditToolCalls tools, ev_LatencyMS = millis latency,
                  ev_Status = 200, ev_Outcome = ''ok'', ev_Query = ask_Query q,
                  ev_Answer = mg_Content (cp_Message resp)\<rparr> s4
           in writeJSON r 200 (AskResponse_json (ask_response reqID q resp latency)) s5))"

definition rate_limited ::
  "('l, 'b) handlers \<Rightarrow> Request \<Rightarrow> AskRequest \<Rightarrow> bytes
   \<Rightarrow> ('l, 'b, 'v) server \<Rightarrow> ('l, 'b, 'v) server" where
  "rate_limited h r q caller s0 =
     (let s1 = on_metrics (Counter_Inc RateLimited []) s0;
          reqID = FromContext r;
          detail = ''rate limit of '' @ dec_int (PerMinute (sh_limiter s1)) @
                   '' requests per minute exceeded'';
          s2 = logAudit h
            \<lparr>ev_Timestamp = None, ev_RequestID = reqID, ev_CallerIdentity = caller,
             ev_Model = modelOrDefault (ask_Model q) (h_defaultModel h), ev_PromptTokens = 0,
             ev_CompletionTokens = 0, ev_ToolCalls = [], ev_LatencyMS = 0, ev_Status = 429,
             ev_Outcome = ''rate_limited'', ev_Query = ask_Query q, ev_Answer = []\<rparr> s1
      in writeProblem r 429 (problemTitleFor 429) detail s2)"

definition caller_of :: "('l, 'b) handlers \<Rightarrow> Request \<Rightarrow> bytes" where
  "caller_of h r =
     CallerIdentity (rtm_sha256 (h_rt h)) (fst (parseBearerToken (header_get r ''Authorization'')))"

text \<open>\<open>h.limiter.Allow(caller)\<close>, at the time the library reads.\<close>

definition limiter_allow ::
  "('l, 'b) handlers \<Rightarrow> bytes \<Rightarrow> ('l, 'b, 'v) server \<Rightarrow> bool \<times> ('l, 'b, 'v) server" where
  "limiter_allow h caller s0 =
     (let (now, s1) = time_now (h_rt h) s0;
          (ok, l) = Allow (rtm_lib (h_rt h)) now caller (sh_limiter s1)
      in (ok, s1\<lparr>sh_limiter := l\<rparr>))"

definition ask ::
  "('l, 'b) handlers \<Rightarrow> Request \<Rightarrow> ('l, 'b, 'v) server \<Rightarrow> ('l, 'b, 'v) server" where
  "ask h r s0 =
     (case accept_request (h_cd h) (nat (h_maxRequestBytes h)) r of
        Inl (status, detail) \<Rightarrow> writeProblem r status (problemTitleFor status) detail s0
      | Inr q \<Rightarrow>
          (case limiter_allow h (caller_of h r) s0 of
             (False, s1) \<Rightarrow> rate_limited h r q (caller_of h r) s1
           | (True, s1) \<Rightarrow>
               let reqID = FromContext r;
                   bridgeReq = bridge_request (modelOrDefault (ask_Model q) (h_defaultModel h)) q
               in if ask_Stream q then fst (askStream h r q bridgeReq (caller_of h r) reqID s1)
                  else askPlain h r q bridgeReq (caller_of h r) reqID s1))"

definition tools ::
  "('l, 'b) handlers \<Rightarrow> Request \<Rightarrow> ('l, 'b, 'v) server \<Rightarrow> ('l, 'b, 'v) server" where
  "tools h r = writeJSON r 200 (ToolsResponse_json \<lparr>ts_Tools = [], ts_DiscoveryDeferred = True\<rparr>)"

definition api_model :: "TagModel \<Rightarrow> Model" where
  "api_model m =
     \<lparr>md_Name = tm_Name m, md_Digest = tm_Digest m, md_Size = tm_Size m,
      md_ModifiedAt = tm_ModifiedAt m, md_Family = mt_Family (tm_Details m),
      md_ParameterSize = mt_ParameterSize (tm_Details m),
      md_Quantization = mt_QuantizationLevel (tm_Details m)\<rparr>"

definition models ::
  "('l, 'b) handlers \<Rightarrow> Request \<Rightarrow> ('l, 'b, 'v) server \<Rightarrow> ('l, 'b, 'v) server" where
  "models h r s =
     (case br_Models (h_bridge h) of
        Inl e \<Rightarrow> mapBridgeError r ''models'' e s
      | Inr tags \<Rightarrow>
          writeJSON r 200 (ModelsResponse_json
            \<lparr>ms_Models = map api_model tags, ms_Default = h_defaultModel h\<rparr>) s)"

subsection \<open>The audit trail\<close>

lemma limiter_allow_frame [frame_simps]:
  "sv_w (snd (limiter_allow h c s)) = sv_w s"
  "sh_metrics (snd (limiter_allow h c s)) = sh_metrics s"
  "sh_audit (snd (limiter_allow h c s)) = sh_audit s"
  "sh_auth (snd (limiter_allow h c s)) = sh_auth s"
  "sh_logs (snd (limiter_allow h c s)) = sh_logs s"
  by (simp_all add: limiter_allow_def Let_def split_beta frame_simps)

lemma limiter_allow_eq:
  "fst (limiter_allow h c s) =
     fst (Allow (rtm_lib (h_rt h)) (rtm_clock (h_rt h) (sh_ticks s)) c (sh_limiter s))"
  "sh_limiter (snd (limiter_allow h c s)) =
     snd (Allow (rtm_lib (h_rt h)) (rtm_clock (h_rt h) (sh_ticks s)) c (sh_limiter s))"
  by (simp_all add: limiter_allow_def Let_def split_beta frame_simps)

lemma askPlain_audit:
  "case br_Chat (h_bridge h) bq of
     Inl e \<Rightarrow> sh_audit (askPlain h r q bq caller reqID s) = sh_audit s
   | Inr resp \<Rightarrow> audited (sh_audit s) (sh_audit (askPlain h r q bq caller reqID s)) reqID caller
       (ask_Query q) (\<lambda>e. ev_Outcome e = ''ok'' \<and> ev_Status e = 200 \<and> ev_Model e = cp_Model resp \<and>
          ev_Answer e = mg_Content (cp_Message resp))"
proof (cases "br_Chat (h_bridge h) bq")
  case (Inr resp)
  show ?thesis
    unfolding Inr sum.case askPlain_def Let_def split_beta writeJSON_frame
    by (rule audited_logAudit) (simp_all add: frame_simps)
qed (simp add: askPlain_def Let_def split_beta frame_simps)

lemma rate_limited_audit:
  "audited (sh_audit s) (sh_audit (rate_limited h r q caller s)) (FromContext r) caller (ask_Query q)
     (\<lambda>e. ev_Outcome e = ''rate_limited'' \<and> ev_Status e = 429)"
  unfolding rate_limited_def Let_def writeProblem_frame
  by (rule audited_logAudit) (simp_all add: frame_simps)

text \<open>C11: the audit trail of \<open>POST /v1/ask\<close>: a request that fails its checks leaves no event; an
  accepted one leaves exactly one event, with its request ID, the caller's identity and its
  query, for being rate limited, for a streamed answer however it ended, and for a complete
  answer; but an accepted, non-streaming request whose bridge call fails leaves none. Neither
  gap is in \<open>docs/security.md\<close>, which says that every authenticated request is audited.\<close>

theorem ask_audit_trail:
  "case accept_request (h_cd h) (nat (h_maxRequestBytes h)) r of
     Inl _ \<Rightarrow> sh_audit (ask h r s) = sh_audit s
   | Inr q \<Rightarrow>
       if \<not> fst (limiter_allow h (caller_of h r) s)
       then audited (sh_audit s) (sh_audit (ask h r s)) (FromContext r) (caller_of h r) (ask_Query q)
              (\<lambda>e. ev_Outcome e = ''rate_limited'' \<and> ev_Status e = 429)
       else if ask_Stream q
       then audited (sh_audit s) (sh_audit (ask h r s)) (FromContext r) (caller_of h r) (ask_Query q)
              stream_outcome
       else case br_Chat (h_bridge h)
                   (bridge_request (modelOrDefault (ask_Model q) (h_defaultModel h)) q) of
              Inl _ \<Rightarrow> sh_audit (ask h r s) = sh_audit s
            | Inr resp \<Rightarrow>
                audited (sh_audit s) (sh_audit (ask h r s)) (FromContext r) (caller_of h r)
                  (ask_Query q)
                  (\<lambda>e. ev_Outcome e = ''ok'' \<and> ev_Status e = 200 \<and> ev_Model e = cp_Model resp \<and>
                     ev_Answer e = mg_Content (cp_Message resp))"
proof (cases "accept_request (h_cd h) (nat (h_maxRequestBytes h)) r")
  case (Inl x)
  then show ?thesis by (cases x) (simp add: ask_def frame_simps)
next
  case (Inr q)
  let ?bq = "bridge_request (modelOrDefault (ask_Model q) (h_defaultModel h)) q"
  obtain ok s1 where lim: "limiter_allow h (caller_of h r) s = (ok, s1)" by force
  have s1: "sh_audit s1 = sh_audit s"
    using limiter_allow_frame(3) [of h "caller_of h r" s] by (simp add: lim)
  show ?thesis
    using rate_limited_audit [where s = s1 and h = h and r = r and q = q and caller = "caller_of h r"]
      askStream_audit [where s = s1 and h = h and r = r and q = q and bq = ?bq and
        caller = "caller_of h r" and reqID = "FromContext r"]
      askPlain_audit [where s = s1 and h = h and r = r and q = q and bq = ?bq and
        caller = "caller_of h r" and reqID = "FromContext r"]
    by (cases ok; cases "ask_Stream q") (simp_all add: Inr ask_def lim s1 Let_def split: sum.splits)
qed

text \<open>C40: A caller over its rate never reaches the bridge: when the limiter refuses the caller's
  identity, the whole outcome is the same whatever the bridge would do, and the only
  decision is that of the caller's own bucket.\<close>

theorem limited_request_never_reaches_bridge:
  assumes "accept_request (h_cd h) (nat (h_maxRequestBytes h)) r = Inr q"
    and "\<not> fst (Allow (rtm_lib (h_rt h)) (rtm_clock (h_rt h) (sh_ticks s)) (caller_of h r)
      (sh_limiter s))"
  shows "ask (h\<lparr>h_bridge := other\<rparr>) r s = ask h r s \<and>
    sh_limiter (ask h r s) = snd (Allow (rtm_lib (h_rt h)) (rtm_clock (h_rt h) (sh_ticks s))
      (caller_of h r) (sh_limiter s)) \<and>
    metric_value RateLimited [] (sh_metrics (ask h r s)) =
      metric_value RateLimited [] (sh_metrics s) + 1"
proof -
  obtain s1 where lim: "limiter_allow h (caller_of h r) s = (False, s1)"
    using assms(2) limiter_allow_eq(1) [of h "caller_of h r" s]
    by (cases "limiter_allow h (caller_of h r) s") auto
  have other: "caller_of (h\<lparr>h_bridge := other\<rparr>) r = caller_of h r"
    "limiter_allow (h\<lparr>h_bridge := other\<rparr>) = limiter_allow h"
    "rate_limited (h\<lparr>h_bridge := other\<rparr>) r q c s1 = rate_limited h r q c s1" for c
    by (simp_all add: caller_of_def limiter_allow_def [abs_def] rate_limited_def logAudit_def)
  have s1: "sh_limiter s1 = snd (Allow (rtm_lib (h_rt h)) (rtm_clock (h_rt h) (sh_ticks s))
      (caller_of h r) (sh_limiter s))" "sh_metrics s1 = sh_metrics s"
    using limiter_allow_eq(2) [of h "caller_of h r" s] limiter_allow_frame(2) [of h "caller_of h r" s]
    by (simp_all add: lim)
  have eq: "ask h r s = rate_limited h r q (caller_of h r) s1"
    using assms(1) by (simp add: ask_def lim)
  have "ask (h\<lparr>h_bridge := other\<rparr>) r s = rate_limited h r q (caller_of h r) s1"
    using assms(1) by (simp add: ask_def other lim)
  moreover have "sh_limiter (rate_limited h r q (caller_of h r) s1) = sh_limiter s1"
    and "metric_value RateLimited [] (sh_metrics (rate_limited h r q (caller_of h r) s1)) =
      metric_value RateLimited [] (sh_metrics s1) + 1"
    by (simp_all add: rate_limited_def Let_def frame_simps metric_simps labels_fit_def)
  ultimately show ?thesis using s1 eq by simp
qed

text \<open>A caller whose bucket is empty.\<close>

definition drained_server :: "(int, int, Source) server" where
  "drained_server =
     fresh_server\<lparr>sh_limiter :=
       \<lparr>rl_perMinute = 1, rl_limit = Some 0, rl_burst = 0, rl_limiters = Map.empty\<rparr>\<rparr>"

theorem limited_request_never_reaches_bridge_witness:
  "ask (sample_handlers\<lparr>h_bridge := sample_bridge
       \<lparr>br_Chat := \<lambda>_. Inl (BridgeError (local_error ''chat'' ''timeout''))\<rparr>\<rparr>)
     (ask_request (encode (AskRequest_json sample_ask)))
     drained_server =
   ask sample_handlers (ask_request (encode (AskRequest_json sample_ask))) drained_server"
proof -
  have accepted: "accept_request (h_cd sample_handlers) (nat (h_maxRequestBytes sample_handlers))
      (ask_request (encode (AskRequest_json sample_ask))) = Inr sample_ask"
    using sample_accepted by (simp add: sample_handlers_def)
  have "\<not> fst (Allow (rtm_lib (h_rt sample_handlers)) now c (sh_limiter drained_server))" for now c
    by (simp add: sample_handlers_def sample_runtime_def drained_server_def Allow_def
        lookup_or_create_def fresh_bucket_def drain_lib_def)
  from limited_request_never_reaches_bridge [OF accepted this] show ?thesis by blast
qed

end
