(* ===== verification/Answers.thy ===== *)
theory Answers
  imports Ask
begin

text \<open>
  Every handler of \<open>internal/server\<close> answers: it commits exactly one status line, with a status
  of the documented set, the caller's request ID and the content type that goes with the
  status. The two predicates here are the pre- and postcondition that every handler and
  middleware is shown to connect.
\<close>

text \<open>Nothing sent yet, and the request ID is in the response header.\<close>

definition pending :: "bytes \<Rightarrow> ('l, 'b, 'v) server \<Rightarrow> bool" where
  "pending i s \<longleftrightarrow>
     sw_ok (sv_w s) \<and> sw_sent (sv_w s) = None \<and> sw_header (sv_w s) HeaderName = Some i"

text \<open>A response under way: status, content type, request ID.\<close>

definition good_head :: "bytes \<Rightarrow> int set \<Rightarrow> int \<times> headers \<Rightarrow> bool" where
  "good_head i codes p \<longleftrightarrow>
     fst p \<in> codes \<and> snd p HeaderName = Some i \<and>
     (fst p \<noteq> 200 \<longrightarrow> snd p ''Content-Type'' = Some ProblemContentType) \<and>
     (fst p = 200 \<longrightarrow>
        snd p ''Content-Type'' \<in> {Some ''application/json'', Some ''text/event-stream''})"

definition answered :: "bytes \<Rightarrow> int set \<Rightarrow> ('l, 'b, 'v) server \<Rightarrow> bool" where
  "answered i codes s \<longleftrightarrow> (\<exists>p. committed p (sv_w s) \<and> good_head i codes p)"

lemma answered_mono: "answered i codes s \<Longrightarrow> codes \<subseteq> codes' \<Longrightarrow> answered i codes' s"
  by (auto simp: answered_def good_head_def)

lemma answered_cong: "sv_w s = sv_w t \<Longrightarrow> answered i codes s = answered i codes t"
  by (simp add: answered_def)

lemma pending_cong: "sv_w s = sv_w t \<Longrightarrow> pending i s = pending i t"
  by (simp add: pending_def)

lemma pending_frame [frame_simps]:
  "pending i (log_at lv m a s) = pending i s"
  "pending i (on_metrics f s) = pending i s"
  "pending i (snd (time_now rt s)) = pending i s"
  "pending i (snd (limiter_allow h c s)) = pending i s"
  "pending i (logAudit h e s) = pending i s"
  "pending i (s\<lparr>sh_auth := v\<rparr>) = pending i s"
  by (simp_all add: pending_def frame_simps)

lemma answered_frame [frame_simps]:
  "answered i codes (log_at lv m a s) = answered i codes s"
  "answered i codes (on_metrics f s) = answered i codes s"
  "answered i codes (snd (time_now rt s)) = answered i codes s"
  "answered i codes (logAudit h e s) = answered i codes s"
  by (simp_all add: answered_def frame_simps)

subsection \<open>The ways to answer\<close>

lemma problem_head:
  assumes "pending i s" and "code \<in> codes" and "code \<noteq> 200" and "FromContext r = i"
  shows "answered i codes (on_writer (writeProblem_w r code title detail) s)"
  using assms sw_ok_fresh [of "sv_w s"] writeProblem_w_ok [of "sv_w s" r code title detail]
  by (auto simp: pending_def answered_def committed_def good_head_def frame_simps writeProblem_w_def
      Let_def writer_simps HeaderName_def)

lemma answered_writeProblem:
  "pending i s \<Longrightarrow> code \<in> codes \<Longrightarrow> code \<noteq> 200 \<Longrightarrow> FromContext r = i \<Longrightarrow>
   answered i codes (writeProblem r code title detail s)"
  unfolding writeProblem_def by (rule problem_head)

lemma pending_challenge:
  "pending i s \<Longrightarrow> pending i (on_writer (sw_Header_Set ''WWW-Authenticate'' challenge) s)"
  by (simp add: pending_def frame_simps writer_simps sw_ok_intros HeaderName_def)

lemma answered_auth_writeProblem:
  assumes "pending i s" and "code \<in> codes" and "code \<noteq> 200" and "FromContext r = i"
  shows "answered i codes (auth_writeProblem r code title detail s)"
proof -
  let ?s = "if code = 401 then on_writer (sw_Header_Set ''WWW-Authenticate'' challenge) s else s"
  have "sv_w (auth_writeProblem r code title detail s) =
      sv_w (on_writer (writeProblem_w r code title detail) ?s)"
    by (simp add: frame_simps auth_problem_is_problem)
  moreover have "answered i codes (on_writer (writeProblem_w r code title detail) ?s)"
    using assms pending_challenge by (intro problem_head) auto
  ultimately show ?thesis using answered_cong by blast
qed

lemma answered_writeJSON:
  assumes "pending i s" and "200 \<in> codes"
  shows "answered i codes (writeJSON r 200 v s)"
proof -
  let ?w = "snd (sw_Write (encode v)
     (sw_WriteHeader 200 (sw_Header_Set ''Content-Type'' ''application/json'' (sv_w s))))"
  have w: "sw_ok (sv_w s)" "sw_sent (sv_w s) = None" "sw_header (sv_w s) HeaderName = Some i"
    using assms(1) by (simp_all add: pending_def)
  have "sw_sent ?w = Some (200, (sw_header (sv_w s))(''Content-Type'' \<mapsto> ''application/json''))"
    by (rule sw.answer_sent [OF w(1,2)])
  moreover have "sw_ok ?w" using w(1) by (intro sw_ok_intros)
  ultimately show ?thesis
    using w(3) assms(2)
    by (auto simp: answered_def committed_def good_head_def frame_simps HeaderName_def)
qed

lemma answered_mapBridgeError:
  assumes "pending i s" and "{502, 503} \<subseteq> codes" and "FromContext r = i"
  shows "answered i codes (mapBridgeError r op e s)"
proof -
  have "sv_w (mapBridgeError r op e s) = sv_w (writeProblem r (bridgeErrorStatus e)
      (problemTitleFor (bridgeErrorStatus e)) (bridge_detail e) s)"
    by (simp add: frame_simps)
  moreover have "answered i codes (writeProblem r (bridgeErrorStatus e)
      (problemTitleFor (bridgeErrorStatus e)) (bridge_detail e) s)"
    using assms bridgeErrorStatus_values [of e] by (intro answered_writeProblem) auto
  ultimately show ?thesis using answered_cong by blast
qed

subsection \<open>The handlers\<close>

lemma stream_head:
  assumes "pending i s"
  shows "\<exists>p. committed p (sw_Flush (sw_WriteHeader 200 (set_stream_headers (sv_w s)))) \<and>
    good_head i {200} p"
proof -
  let ?w = "sw_WriteHeader 200 (set_stream_headers (sv_w s))"
  have "\<not> sw_wroteHeader (sv_w s)" using assms sw_ok_fresh by (auto simp: pending_def)
  then have "sw_sent ?w = Some (200, sw_header (set_stream_headers (sv_w s)))"
    and "sw_header (set_stream_headers (sv_w s)) HeaderName = Some i"
    and "sw_header (set_stream_headers (sv_w s)) ''Content-Type'' = Some ''text/event-stream''"
    using assms by (simp_all add: pending_def set_stream_headers_def writer_simps HeaderName_def)
  moreover have "sw_ok ?w"
    using assms by (simp add: pending_def set_stream_headers_def sw_ok_intros)
  ultimately show ?thesis
    using Flush_committed [of "(200, sw_header (set_stream_headers (sv_w s)))" ?w]
    by (auto simp: committed_def good_head_def)
qed

lemma run_stream_committed:
  assumes "committed p (sw_Flush (sw_WriteHeader 200 (set_stream_headers (sv_w s))))"
  shows "committed p (sv_w (fst (run_stream h q bq caller reqID start stream s)))"
proof -
  define s2 where "s2 = refreshWriteDeadline h
    (on_writer (\<lambda>w. sw_Flush (sw_WriteHeader 200 (set_stream_headers w))) s)"
  obtain cs res where "stream_results (h_cd h) stream = map StreamChunk cs @ [res]"
    "\<forall>c. res \<noteq> StreamChunk c"
    using stream_results_form by blast
  from stream_loop_run [OF this] obtain stream' fs where
    l: "stream_loop h (LogQueryEnabled (sh_audit s2)) stream (init_vars (cq_Model bq), False, s2) =
      (loop_end_of res, stream', fold (vars_step (LogQueryEnabled (sh_audit s2))) cs
        (init_vars (cq_Model bq)), fs)"
    and "emits (concat (map chunk_events cs)) (False, s2) fs" by blast
  then have fs: "committed p (sv_w (snd fs))"
    using assms by (cases p) (simp add: emits_def s2_def frame_simps)
  show ?thesis
  proof (cases "loop_end_of res")
    case Drained
    then have run: "fst (run_stream h q bq caller reqID start stream s) = stream_done h q caller reqID
        start (fold (vars_step (LogQueryEnabled (sh_audit s2))) cs (init_vars (cq_Model bq))) fs"
      using l by (simp add: run_stream_def Let_def s2_def)
    obtain latency fs' x where "sv_w (fst (run_stream h q bq caller reqID start stream s)) = sv_w (snd fs')"
      "emits [final_event reqID latency x StreamEOF] fs fs'"
      unfolding run using stream_done_emits by blast
    then show ?thesis using fs by (cases p) (simp add: emits_def)
  next
    case (Failed e)
    then show ?thesis
      using l fs stream_failed_writer [where fs = fs and p = p]
      by (simp add: run_stream_def Let_def s2_def)
  qed
qed

lemma answered_askStream:
  assumes "pending i s" and "{200, 502, 503} \<subseteq> codes" and "FromContext r = i"
  shows "answered i codes (fst (askStream h r q bq caller reqID s))"
proof -
  have flush: "MFlush \<in> set statusWriter_methods" by (simp add: statusWriter_methods_def)
  show ?thesis
  proof (cases "br_ChatStream (h_bridge h) bq")
    case (Inl e)
    have "answered i codes (mapBridgeError r ''chat_stream'' e
        (on_metrics (recordUpstreamError ''chat_stream'' e) (snd (time_now (h_rt h) s))))"
      using assms by (intro answered_mapBridgeError) (simp_all add: frame_simps)
    then show ?thesis using flush Inl by (simp add: askStream_def Let_def split_beta frame_simps)
  next
    case (Inr stream)
    have "pending i (snd (time_now (h_rt h) s))" using assms(1) by (simp add: frame_simps)
    from stream_head [OF this] obtain p where
      "committed p (sw_Flush (sw_WriteHeader 200 (set_stream_headers
        (sv_w (snd (time_now (h_rt h) s))))))" "good_head i {200} p" by blast
    then have "answered i {200} (fst (run_stream h q bq caller reqID (fst (time_now (h_rt h) s))
        stream (snd (time_now (h_rt h) s))))"
      using run_stream_committed unfolding answered_def by blast
    then show ?thesis
      using flush Inr answered_mono assms(2)
      by (simp add: askStream_def Let_def split_beta) blast
  qed
qed

lemma answered_askPlain:
  assumes "pending i s" and "{200, 502, 503} \<subseteq> codes" and "FromContext r = i"
  shows "answered i codes (askPlain h r q bq caller reqID s)"
  using assms
  by (auto simp: askPlain_def Let_def split_beta frame_simps split: sum.split
      intro!: answered_mapBridgeError answered_writeJSON)

lemma decode_request_codes: "decode_request cd limit body fault = Inl (st, d) \<Longrightarrow> st = 400 \<or> st = 413"
  by (auto simp: decode_request_def Let_def split: sum.splits prod.splits option.splits if_splits)

lemma accept_request_codes:
  "accept_request cd limit r = Inl (st, d) \<Longrightarrow> st = 400 \<or> st = 413 \<or> st = 415"
  by (auto simp: accept_request_def split: sum.splits option.splits dest: decode_request_codes)

definition ask_codes :: "int set" where
  "ask_codes = {200, 400, 413, 415, 429, 502, 503}"

lemma answered_ask:
  assumes "pending i s" and "FromContext r = i"
  shows "answered i ask_codes (ask h r s)"
proof (cases "accept_request (h_cd h) (nat (h_maxRequestBytes h)) r")
  case (Inl x)
  obtain st d where x: "x = (st, d)" by force
  then have "st \<in> ask_codes" "st \<noteq> 200"
    using accept_request_codes [of "h_cd h" "nat (h_maxRequestBytes h)" r st d] Inl
    by (auto simp: ask_codes_def)
  then show ?thesis using assms Inl x by (simp add: ask_def answered_writeProblem)
next
  case (Inr q)
  obtain ok s1 where lim: "limiter_allow h (caller_of h r) s = (ok, s1)" by force
  then have s1: "pending i s1" using assms(1) pending_frame(4) [of i h "caller_of h r" s] by simp
  have "answered i ask_codes (rate_limited h r q c s1)" for c
    using s1 assms(2)
    by (auto simp: rate_limited_def Let_def frame_simps ask_codes_def intro!: answered_writeProblem)
  then show ?thesis
    using s1 assms(2) Inr lim
    by (cases ok)
      (auto simp: ask_def Let_def ask_codes_def intro!: answered_askStream answered_askPlain)
qed

lemma answered_tools: "pending i s \<Longrightarrow> answered i {200} (tools h r s)"
  by (simp add: tools_def answered_writeJSON)

lemma answered_models:
  assumes "pending i s" and "FromContext r = i"
  shows "answered i {200, 502, 503} (models h r s)"
  using assms
  by (auto simp: models_def split: sum.split intro!: answered_mapBridgeError answered_writeJSON)

subsection \<open>The auth middleware in front of a handler\<close>

lemma answered_auth:
  assumes "\<And>s'. pending i s' \<Longrightarrow> answered i codes (nxt r s')"
    and "pending i s" and "FromContext r = i" and "{401, 503} \<subseteq> codes"
  shows "answered i codes (auth_Middleware Validate ob nxt r s)"
proof (cases "extractBearer (header_get r ''Authorization'')")
  case (Inl e)
  then show ?thesis
    using assms by (auto simp: auth_Middleware_def frame_simps intro!: answered_auth_writeProblem)
next
  case (Inr token)
  obtain verdict v' where v: "Validate ob token (sh_auth s) = (verdict, v')" by force
  have "verdict \<noteq> Some (OtherError t)" for t
    using v Validate_no_other_error [of ob token "sh_auth s" t] by simp
  moreover have "pending i (s\<lparr>sh_auth := v'\<rparr>)" using assms(2) by (simp add: frame_simps)
  ultimately show ?thesis
    using assms Inr v
    by (auto simp: auth_Middleware_def Let_def frame_simps split: option.split auth_error.split
        intro!: answered_auth_writeProblem)
qed

end
