(* ===== verification/ServeMux.thy ===== *)
theory ServeMux
  imports GoHttp
begin

text \<open>
  What the gateway uses of \<open>http.ServeMux\<close>: patterns with an optional method and a path that
  names one page or, when it ends in a slash, a subtree. The model's requests have the path as
  the router compares it, cleaned and without escapes. A handler takes a request and a
  connection; its type is a parameter.
\<close>

type_synonym pattern = "bytes option \<times> bytes"

text \<open>A pattern with GET also matches HEAD.\<close>

definition method_matches :: "bytes option \<Rightarrow> bytes \<Rightarrow> bool" where
  "method_matches pm m \<longleftrightarrow>
     (case pm of None \<Rightarrow> True | Some p \<Rightarrow> m = p \<or> p = ''GET'' \<and> m = ''HEAD'')"

definition path_matches :: "bytes \<Rightarrow> bytes \<Rightarrow> bool" where
  "path_matches p path \<longleftrightarrow>
     (if p \<noteq> [] \<and> last p = CHR ''/'' then has_prefix path p else path = p)"

definition pattern_matches :: "pattern \<Rightarrow> bytes \<Rightarrow> bytes \<Rightarrow> bool" where
  "pattern_matches pat m path \<longleftrightarrow> method_matches (fst pat) m \<and> path_matches (snd pat) path"

text \<open>The table lists the more specific of two overlapping patterns first.\<close>

fun mux_match :: "(pattern \<times> 'h) list \<Rightarrow> bytes \<Rightarrow> bytes \<Rightarrow> (pattern \<times> 'h) option" where
  "mux_match [] m path = None"
| "mux_match ((pat, hdl) # rs) m path =
     (if pattern_matches pat m path then Some (pat, hdl) else mux_match rs m path)"

definition pattern_methods :: "pattern \<Rightarrow> bytes list" where
  "pattern_methods pat =
     (case fst pat of
        None \<Rightarrow> []
      | Some p \<Rightarrow> if p = ''GET'' then [''GET'', ''HEAD''] else [p])"

definition allowed_methods :: "(pattern \<times> 'h) list \<Rightarrow> bytes \<Rightarrow> bytes list" where
  "allowed_methods rs path =
     concat (map (pattern_methods \<circ> fst) (filter (\<lambda>x. path_matches (snd (fst x)) path) rs))"

text \<open>\<open>strings.Join(ms, ", ")\<close>.\<close>

fun join_comma :: "bytes list \<Rightarrow> bytes" where
  "join_comma [] = []"
| "join_comma [m] = m"
| "join_comma (m # n # ms) = m @ '', '' @ join_comma (n # ms)"

definition http_Error :: "bytes \<Rightarrow> int \<Rightarrow> Conn \<Rightarrow> Conn" where
  "http_Error msg code c =
     snd (conn_write (msg @ [CHR 0x0A])
       (conn_write_header code
         (conn_set_header ''X-Content-Type-Options'' ''nosniff''
           (conn_set_header ''Content-Type'' ''text/plain; charset=utf-8'' c))))"

definition http_NotFound :: "Conn \<Rightarrow> Conn" where
  "http_NotFound = http_Error ''404 page not found'' 404"

text \<open>
  A page whose subtree is registered redirects there, with 307 as of Go 1.26, the version of
  \<open>go.mod\<close>.
\<close>

definition mux_redirect :: "bytes \<Rightarrow> bytes \<Rightarrow> Conn \<Rightarrow> Conn" where
  "mux_redirect m url c0 =
     (let c1 = conn_set_header ''Location'' url c0;
          c2 = (if m = ''GET'' \<or> m = ''HEAD''
                then conn_set_header ''Content-Type'' ''text/html; charset=utf-8'' c1 else c1);
          c3 = conn_write_header 307 c2
      in if m = ''GET''
         then snd (conn_write (''<a href='' @ [CHR 0x22] @ url @ [CHR 0x22] @
                ''>Temporary Redirect</a>.'' @ [CHR 0x0A, CHR 0x0A]) c3)
         else c3)"

text \<open>
  \<open>ServeHTTP\<close>: \<open>run\<close> applies the handler that was found, \<open>direct\<close> answers on the connection
  alone.
\<close>

definition mux_serve ::
  "('h \<Rightarrow> 'a) \<Rightarrow> ((Conn \<Rightarrow> Conn) \<Rightarrow> 'a) \<Rightarrow> (pattern \<times> 'h) list \<Rightarrow> Request \<Rightarrow> 'a" where
  "mux_serve run direct rs r =
     (let m = rq_Method r; path = rq_Path r; slash = path @ ''/'' in
      case mux_match rs m path of
        Some (pat, hdl) \<Rightarrow> run hdl
      | None \<Rightarrow>
          (case mux_match rs m slash of
             Some (pat, hdl) \<Rightarrow>
               if snd pat = slash \<and> (path = [] \<or> last path \<noteq> CHR ''/'')
               then direct (mux_redirect m slash) else direct http_NotFound
           | None \<Rightarrow>
               (case allowed_methods rs path of
                  [] \<Rightarrow> direct http_NotFound
                | ms \<Rightarrow> direct (\<lambda>c. http_Error (StatusText 405) 405
                          (conn_set_header ''Allow'' (join_comma ms) c)))))"

subsection \<open>Lemmas\<close>

lemma mux_match_Some:
  "mux_match rs m path = Some (pat, hdl) \<Longrightarrow> (pat, hdl) \<in> set rs \<and> pattern_matches pat m path"
  by (induction rs) (auto split: if_splits)

lemma mux_match_None:
  "mux_match rs m path = None \<longleftrightarrow> (\<forall>(pat, hdl) \<in> set rs. \<not> pattern_matches pat m path)"
  by (induction rs) (auto split: if_splits)

lemma allowed_methods_match:
  "m \<in> set (allowed_methods rs path) \<Longrightarrow> \<exists>pat hdl. mux_match rs m path = Some (pat, hdl)"
proof -
  assume "m \<in> set (allowed_methods rs path)"
  then obtain pat hdl where "(pat, hdl) \<in> set rs" "pattern_matches pat m path"
    by (auto simp: allowed_methods_def pattern_matches_def method_matches_def pattern_methods_def
        split: option.splits if_split_asm)
  then have "mux_match rs m path \<noteq> None" by (auto simp: mux_match_None)
  then show ?thesis by auto
qed

lemma http_Error_sent:
  "c_sent c = None \<Longrightarrow> \<exists>h. c_sent (http_Error msg code c) = Some (code, h) \<and>
     h ''Content-Type'' = Some ''text/plain; charset=utf-8''"
  by (simp add: http_Error_def writer_simps)

lemma http_Error_body:
  "c_fault c (c_writes c) = None \<Longrightarrow> c_body (http_Error msg code c) = c_body c @ msg @ [CHR 0x0A]"
  by (simp add: http_Error_def writer_simps)

end
