(* ===== verification/Server.thy ===== *)
theory Server
  imports Answers ServeMux
begin

text \<open>
  \<open>metricsMiddleware\<close> of \<open>internal/server/middleware.go\<close> and \<open>New\<close> of
  \<open>internal/server/server.go\<close>: the pipeline that every API request goes through, from the
  request ID over the metrics and the token check to the handler.
\<close>

subsection \<open>The metrics middleware\<close>

text \<open>
  The deferred function runs after the handler, with the status that the wrapper recorded.
\<close>

definition metricsMiddleware ::
  "('l, 'b) runtime \<Rightarrow> bytes \<Rightarrow> (Request \<Rightarrow> ('l, 'b, 'v) server \<Rightarrow> ('l, 'b, 'v) server)
   \<Rightarrow> Request \<Rightarrow> Conn \<Rightarrow> ('l, 'b, 'v) shared \<Rightarrow> Conn \<times> ('l, 'b, 'v) shared" where
  "metricsMiddleware rt endpoint next_handler r c sh0 =
     (let (start, sh1) = time_now rt sh0;
          sh2 = on_metrics (Gauge_Inc InFlight) sh1;
          s3 = next_handler r (enter c sh2);
          s4 = on_metrics (Gauge_Dec InFlight) s3;
          (now, s5) = time_now rt s4;
          s6 = on_metrics (Histogram_Observe RequestDuration [endpoint, rq_Method r]
                 (now - start) (10 ^ 9)) s5;
          s7 = on_metrics (Counter_Inc Requests
                 [endpoint, rq_Method r, dec_int (sw_status (sv_w s6))]) s6
      in leave s7)"

subsection \<open>The API handler\<close>

text \<open>What one request meets outside the gateway: randomness, the clock, the token file.\<close>

record request_env =
  re_rand :: "bytes option"
  re_now :: int
  re_auth :: observation

type_synonym ('l, 'b) api_handler =
  "request_env \<Rightarrow> Request \<Rightarrow> Conn \<Rightarrow> ('l, 'b, Source) shared \<Rightarrow> Conn \<times> ('l, 'b, Source) shared"

definition route ::
  "('l, 'b) handlers \<Rightarrow> bytes
   \<Rightarrow> (Request \<Rightarrow> ('l, 'b, Source) server \<Rightarrow> ('l, 'b, Source) server) \<Rightarrow> ('l, 'b) api_handler" where
  "route h endpoint hdl env =
     RequestId.Middleware (re_rand env) (re_now env)
       (metricsMiddleware (h_rt h) endpoint (auth_Middleware Validate (re_auth env) hdl))"

definition api_routes :: "('l, 'b) handlers \<Rightarrow> (pattern \<times> ('l, 'b) api_handler) list" where
  "api_routes h =
     [((Some ''POST'', ''/v1/ask''), route h ''/v1/ask'' (ask h)),
      ((Some ''GET'', ''/v1/tools''), route h ''/v1/tools'' (tools h)),
      ((Some ''GET'', ''/v1/models''), route h ''/v1/models'' (models h))]"

definition api_serve :: "('l, 'b) handlers \<Rightarrow> ('l, 'b) api_handler" where
  "api_serve h env r c sh =
     mux_serve (\<lambda>hdl. hdl env r c sh) (\<lambda>f. (f c, sh)) (api_routes h) r"

text \<open>
  \<open>Options\<close> and \<open>New\<close>; a nil pointer or interface is \<open>None\<close>. The log is the sink's lines so
  far; \<open>slog.Default\<close>'s are an argument.
\<close>

record ('l, 'b) Options =
  op_Bridge :: "bridge_ops option"
  op_AuthValidator :: "Source option"
  op_DefaultModel :: bytes
  op_MaxRequestBytes :: int
  op_Logger :: "log_entry list option"
  op_Audit :: "Logger option"
  op_RateLimiter :: "('l, 'b) Limiter option"
  op_Metrics :: "Registry option"
  op_RequestTimeout :: int

definition New ::
  "('l, 'b) runtime \<Rightarrow> codec \<Rightarrow> log_entry list \<Rightarrow> ('l, 'b) Options
   \<Rightarrow> bytes + ('l, 'b) handlers \<times> ('l, 'b, Source) shared" where
  "New rt cd default_log opts =
     (case op_Bridge opts of None \<Rightarrow> Inl ''server: Bridge is required'' | Some br \<Rightarrow>
      case op_AuthValidator opts of None \<Rightarrow> Inl ''server: AuthValidator is required'' | Some v \<Rightarrow>
      if op_DefaultModel opts = [] then Inl ''server: DefaultModel is required''
      else if op_MaxRequestBytes opts \<le> 0 then Inl ''server: MaxRequestBytes must be positive''
      else case op_Audit opts of None \<Rightarrow> Inl ''server: Audit is required'' | Some a \<Rightarrow>
      case op_RateLimiter opts of None \<Rightarrow> Inl ''server: RateLimiter is required'' | Some l \<Rightarrow>
      case op_Metrics opts of None \<Rightarrow> Inl ''server: Metrics is required'' | Some m \<Rightarrow>
      if op_RequestTimeout opts \<le> 0 then Inl ''server: RequestTimeout must be positive''
      else
        let logger = (case op_Logger opts of None \<Rightarrow> default_log | Some lg \<Rightarrow> lg) in
        Inr (\<lparr>h_rt = rt, h_cd = cd, h_bridge = br, h_defaultModel = op_DefaultModel opts,
              h_maxRequestBytes = op_MaxRequestBytes opts,
              h_requestTimeout = op_RequestTimeout opts\<rparr>,
             \<lparr>sh_logs = logger, sh_metrics = m, sh_audit = a, sh_limiter = l, sh_auth = v,
              sh_ticks = 0\<rparr>))"

lemma New_Inr_iff:
  "(\<exists>x. New rt cd lg opts = Inr x) \<longleftrightarrow>
     op_Bridge opts \<noteq> None \<and> op_AuthValidator opts \<noteq> None \<and> op_DefaultModel opts \<noteq> [] \<and>
     0 < op_MaxRequestBytes opts \<and> op_Audit opts \<noteq> None \<and> op_RateLimiter opts \<noteq> None \<and>
     op_Metrics opts \<noteq> None \<and> 0 < op_RequestTimeout opts"
  by (auto simp: New_def Let_def split: option.split)

subsection \<open>What the handlers observe\<close>

text \<open>Only some families of metrics move.\<close>

definition observes_only :: "family set \<Rightarrow> Registry \<Rightarrow> Registry \<Rightarrow> bool" where
  "observes_only fs m m' \<longleftrightarrow>
     (\<forall>f. f \<notin> fs \<longrightarrow> series f m' = series f m \<and> (\<forall>ls. metric_value f ls m' = metric_value f ls m))"

lemma observes_refl [simp]: "observes_only fs m m"
  by (simp add: observes_only_def)

lemma observes_trans: "observes_only fs a b \<Longrightarrow> observes_only fs b c \<Longrightarrow> observes_only fs a c"
  by (simp add: observes_only_def)

definition model_families :: "family set" where
  "model_families = {ToolCalls, ToolDuration, ModelTokens, UpstreamErrors, RateLimited}"

lemma observes_tokens: "observes_only model_families m (observeTokens model p c m)"
  by (auto simp: observes_only_def model_families_def observeTokens_def Let_def metric_simps)

lemma observes_tool_call: "observes_only model_families m (observeToolCall tc m)"
  by (auto simp: observes_only_def model_families_def observeToolCall_def Let_def metric_simps)

lemma observes_tool_calls: "observes_only model_families m (observeToolCalls tcs m)"
proof (induction tcs arbitrary: m)
  case (Cons tc tcs)
  then show ?case
    using observes_trans [OF observes_tool_call Cons] by (simp add: observeToolCalls_def)
qed (simp add: observeToolCalls_def)

lemma observes_upstream: "observes_only model_families m (recordUpstreamError op e m)"
  by (auto simp: observes_only_def model_families_def recordUpstreamError_def metric_simps)

lemma observes_limited: "observes_only model_families m (Counter_Inc RateLimited [] m)"
  by (auto simp: observes_only_def model_families_def metric_simps)

lemmas observes_intros = observes_tokens observes_tool_calls observes_upstream observes_limited
  observes_trans [OF observes_tokens observes_tool_calls]

lemma askStream_metrics:
  "observes_only model_families (sh_metrics s)
     (sh_metrics (fst (askStream h r q bq caller reqID s)))"
proof (cases "br_ChatStream (h_bridge h) bq")
  case (Inl e)
  then show ?thesis
    by (simp add: askStream_def Let_def split_beta frame_simps observes_intros)
next
  case (Inr stream)
  define s1 where "s1 = snd (time_now (h_rt h) s)"
  define s2 where "s2 = refreshWriteDeadline h
    (on_writer (\<lambda>w. sw_Flush (sw_WriteHeader 200 (set_stream_headers w))) s1)"
  obtain res stream' x fs where l: "stream_loop h (LogQueryEnabled (sh_audit s2)) stream
      (init_vars (cq_Model bq), False, s2) = (res, stream', x, fs)"
    using prod_cases4 by blast
  have m: "sh_metrics (snd fs) = sh_metrics s"
    using stream_loop_books [OF l] by (simp add: same_books_def s2_def s1_def frame_simps)
  have "observes_only model_families (sh_metrics s)
      (sh_metrics (fst (run_stream h q bq caller reqID st stream s1)))" for st
    using l
    by (cases res) (simp_all add: run_stream_def Let_def s2_def stream_done_def stream_failed_def
        split_beta frame_simps m observes_intros)
  then show ?thesis
    using Inr by (simp add: askStream_def Let_def split_beta s1_def frame_simps)
qed

lemma ask_metrics:
  "observes_only model_families (sh_metrics s) (sh_metrics (ask h r s))"
proof (cases "accept_request (h_cd h) (nat (h_maxRequestBytes h)) r")
  case (Inl x)
  then show ?thesis by (cases x) (simp add: ask_def frame_simps)
next
  case (Inr q)
  obtain ok s1 where lim: "limiter_allow h (caller_of h r) s = (ok, s1)" by force
  then have s1: "sh_metrics s1 = sh_metrics s"
    using limiter_allow_frame(2) [of h "caller_of h r" s] by simp
  have plain: "observes_only model_families (sh_metrics s1)
      (sh_metrics (askPlain h r q bq c reqID s1))" for bq c reqID
    by (simp add: askPlain_def Let_def split_beta frame_simps observes_intros split: sum.split)
  show ?thesis
    using askStream_metrics [of s1 h r q] plain
    by (cases ok; cases "ask_Stream q")
      (simp_all add: ask_def Inr lim s1 Let_def rate_limited_def frame_simps observes_intros)
qed

lemma tools_metrics: "sh_metrics (tools h r s) = sh_metrics s"
  by (simp add: tools_def frame_simps)

lemma models_metrics: "sh_metrics (models h r s) = sh_metrics s"
  by (simp add: models_def frame_simps split: sum.split)

lemma auth_metrics:
  assumes "\<And>s'. observes_only fs (sh_metrics s') (sh_metrics (nxt r s'))"
  shows "observes_only fs (sh_metrics s) (sh_metrics (auth_Middleware Validate ob nxt r s))"
  using assms [of "s\<lparr>sh_auth := v\<rparr>" for v]
  by (auto simp: auth_Middleware_def Let_def frame_simps
      split: sum.split prod.split option.split auth_error.split)

subsection \<open>One request through the pipeline\<close>

text \<open>
  What a served request leaves: a response with the status that is also the label of the one
  counter that moved, and a gauge that is back where it was.
\<close>

definition served ::
  "bytes \<Rightarrow> bytes \<Rightarrow> int set \<Rightarrow> Request \<Rightarrow> ('l, 'b, 'v) shared \<Rightarrow> Conn \<times> ('l, 'b, 'v) shared \<Rightarrow> bool" where
  "served endpoint i codes r sh res \<longleftrightarrow>
     (\<exists>code hdr. c_sent (fst res) = Some (code, hdr) \<and> good_head i codes (code, hdr) \<and>
        metric_value InFlight [] (sh_metrics (snd res)) = metric_value InFlight [] (sh_metrics sh) \<and>
        (\<forall>ls. metric_value Requests ls (sh_metrics (snd res)) =
           metric_value Requests ls (sh_metrics sh) +
             (if ls = [endpoint, rq_Method r, dec_int code] then 1 else 0)) \<and>
        series Requests (sh_metrics (snd res)) =
          insert [endpoint, rq_Method r, dec_int code] (series Requests (sh_metrics sh)) \<and>
        series RequestDuration (sh_metrics (snd res)) =
          insert [endpoint, rq_Method r] (series RequestDuration (sh_metrics sh)))"

lemma served_mono: "served endpoint i codes r sh res \<Longrightarrow> codes \<subseteq> codes' \<Longrightarrow>
    served endpoint i codes' r sh res"
  unfolding served_def good_head_def by (elim exE conjE) (intro exI conjI; auto)

lemma metricsMiddleware_answered:
  assumes "\<And>s. pending i s \<Longrightarrow> answered i codes (nxt r s)"
    and "c_sent c = None" and "c_header c HeaderName = Some i"
  shows "\<exists>code hdr. c_sent (fst (metricsMiddleware rt endpoint nxt r c sh)) = Some (code, hdr) \<and>
    good_head i codes (code, hdr)"
proof -
  define s2 where "s2 = enter c (on_metrics (Gauge_Inc InFlight) (snd (time_now rt sh)))"
  have "pending i s2"
    using assms(2,3) by (simp add: pending_def s2_def frame_simps sw_ok_new)
      (simp add: new_statusWriter_def)
  moreover have "fst (metricsMiddleware rt endpoint nxt r c sh) = sw_inner (sv_w (nxt r s2))"
    by (simp add: metricsMiddleware_def Let_def split_beta frame_simps s2_def)
  ultimately show ?thesis
    using assms(1) by (fastforce simp: answered_def committed_def)
qed

lemma metricsMiddleware_served:
  assumes "\<And>s. pending i s \<Longrightarrow> answered i codes (nxt r s)"
    and "\<And>s. observes_only model_families (sh_metrics s) (sh_metrics (nxt r s))"
    and "c_sent c = None" and "c_header c HeaderName = Some i"
    and "valid_utf8 endpoint" and "valid_utf8 (rq_Method r)"
  shows "served endpoint i codes r sh (metricsMiddleware rt endpoint nxt r c sh)"
proof -
  define s2 where "s2 = enter c (on_metrics (Gauge_Inc InFlight) (snd (time_now rt sh)))"
  have "pending i s2"
    using assms(3,4) by (simp add: pending_def s2_def frame_simps sw_ok_new)
      (simp add: new_statusWriter_def)
  from assms(1) [OF this] obtain code hdr where
    p: "committed (code, hdr) (sv_w (nxt r s2))" "good_head i codes (code, hdr)"
    by (auto simp: answered_def)
  then have st: "sw_status (sv_w (nxt r s2)) = code" "c_sent (sw_inner (sv_w (nxt r s2))) = Some (code, hdr)"
    using sw_ok_status by (auto simp: committed_def)
  have m: "\<And>f. f \<in> {InFlight, Requests, RequestDuration} \<Longrightarrow>
       series f (sh_metrics (nxt r s2)) = series f (sh_metrics s2) \<and>
       (\<forall>ls. metric_value f ls (sh_metrics (nxt r s2)) = metric_value f ls (sh_metrics s2))"
    using assms(2) [of s2] by (auto simp: observes_only_def model_families_def)
  have fit: "labels_fit Requests [endpoint, rq_Method r, dec_int code]"
    "labels_fit RequestDuration [endpoint, rq_Method r]"
    using assms(5,6) by (simp_all add: labels_fit_def)
  have s2: "sh_metrics s2 = Gauge_Inc InFlight (sh_metrics sh)" by (simp add: s2_def frame_simps)
  define res where "res = metricsMiddleware rt endpoint nxt r c sh"
  have c: "fst res = sw_inner (sv_w (nxt r s2))"
    and mm: "sh_metrics (snd res) = Counter_Inc Requests [endpoint, rq_Method r, dec_int code]
      (Histogram_Observe RequestDuration [endpoint, rq_Method r]
        (rtm_clock rt (sh_ticks (on_metrics (Gauge_Dec InFlight) (nxt r s2))) - rtm_clock rt (sh_ticks sh))
        (10 ^ 9) (Gauge_Dec InFlight (sh_metrics (nxt r s2))))"
    by (simp_all add: res_def metricsMiddleware_def Let_def split_beta frame_simps s2_def [symmetric] st)
  show ?thesis
    unfolding res_def [symmetric] served_def mm c
    using p(2) st(2) m by (intro exI [of _ code] exI [of _ hdr]) (simp add: metric_simps fit s2)
qed

definition route_codes :: "int set" where
  "route_codes = ask_codes \<union> {401}"

text \<open>The three routes: what each handler may answer, behind the token check.\<close>

lemma route_served:
  assumes "\<And>s r. pending (FromContext r) s \<Longrightarrow> answered (FromContext r) route_codes (handler r s)"
    and "\<And>s r. observes_only model_families (sh_metrics s) (sh_metrics (handler r s))"
    and "c_sent c = None" and "valid_utf8 endpoint" and "valid_utf8 (rq_Method r)"
  shows "served endpoint (request_id (re_rand env) (re_now env) r) route_codes r sh
    (route h endpoint handler env r c sh)"
proof -
  let ?i = "request_id (re_rand env) (re_now env) r"
  let ?r = "WithValue r ?i"
  have "served endpoint ?i route_codes ?r sh (metricsMiddleware (h_rt h) endpoint
      (auth_Middleware Validate (re_auth env) handler) ?r (conn_set_header HeaderName ?i c) sh)"
  proof (rule metricsMiddleware_served)
    show "answered ?i route_codes (auth_Middleware Validate (re_auth env) handler ?r s)"
      if "pending ?i s" for s
      by (rule answered_auth [OF _ that])
        (use assms(1) [of ?r] in \<open>auto simp: route_codes_def ask_codes_def\<close>)
  qed (use assms(2-5) in \<open>auto intro!: auth_metrics simp: writer_simps WithValue_def\<close>)
  then show ?thesis
    by (simp add: route_def RequestId.Middleware_def Let_def served_def WithValue_def)
qed

definition api_endpoints :: "bytes set" where
  "api_endpoints = {''/v1/ask'', ''/v1/tools'', ''/v1/models''}"

lemma api_routes_served:
  assumes "(pat, hdl) \<in> set (api_routes h)" and "c_sent c = None" and "valid_utf8 (rq_Method r)"
  shows "served (snd pat) (request_id (re_rand env) (re_now env) r) route_codes r sh (hdl env r c sh) \<and>
    snd pat \<in> api_endpoints"
proof -
  have ask: "answered (FromContext r) route_codes (ask h r s)" if "pending (FromContext r) s" for r s
    by (rule answered_mono [OF answered_ask [OF that refl]]) (auto simp: route_codes_def)
  have tools: "answered (FromContext r) route_codes (tools h r s)" if "pending (FromContext r) s" for r s
    by (rule answered_mono [OF answered_tools [OF that]]) (simp add: route_codes_def ask_codes_def)
  have models: "answered (FromContext r) route_codes (models h r s)" if "pending (FromContext r) s" for r s
    by (rule answered_mono [OF answered_models [OF that refl]])
      (simp add: route_codes_def ask_codes_def)
  show ?thesis
    using assms(1,3) route_served [where handler = "ask h", OF ask ask_metrics assms(2)]
      route_served [where handler = "tools h", OF tools _ assms(2)]
      route_served [where handler = "models h", OF models _ assms(2)]
    by (auto simp: api_routes_def api_endpoints_def tools_metrics models_metrics valid_utf8_ascii)
qed

lemma api_serve_routed:
  assumes "mux_match (api_routes h) (rq_Method r) (rq_Path r) = Some (pat, hdl)"
  shows "api_serve h env r c sh = hdl env r c sh" and "rq_Path r = snd pat"
    and "(pat, hdl) \<in> set (api_routes h)" and "rq_Method r \<in> {''POST'', ''GET'', ''HEAD''}"
    and "valid_utf8 (rq_Method r)"
proof -
  note m = mux_match_Some [OF assms, THEN conjunct1] mux_match_Some [OF assms, THEN conjunct2]
  show "(pat, hdl) \<in> set (api_routes h)" by (rule m(1))
  show "api_serve h env r c sh = hdl env r c sh"
    using assms by (simp add: api_serve_def mux_serve_def Let_def)
  have "pat \<in> {(Some ''POST'', ''/v1/ask''), (Some ''GET'', ''/v1/tools''), (Some ''GET'', ''/v1/models'')}"
    using m(1) by (auto simp: api_routes_def)
  then show "rq_Path r = snd pat" and methods: "rq_Method r \<in> {''POST'', ''GET'', ''HEAD''}"
    using m(2) by (auto simp: pattern_matches_def method_matches_def path_matches_def)
  then show "valid_utf8 (rq_Method r)" by (auto simp: valid_utf8_ascii)
qed

lemma api_serve_served:
  assumes "mux_match (api_routes h) (rq_Method r) (rq_Path r) = Some (pat, hdl)" and "c_sent c = None"
  shows "served (rq_Path r) (request_id (re_rand env) (re_now env) r) route_codes r sh
    (api_serve h env r c sh)"
  using api_routes_served [OF api_serve_routed(3) [OF assms(1)] assms(2) api_serve_routed(5) [OF assms(1)]]
  by (simp add: api_serve_routed(1,2) [OF assms(1)])

text \<open>Every request for an API route is answered: whatever it contains, whatever the bridge does
  and whoever asks, the gateway sends one status of the documented set, with the request ID
  in \<open>X-Request-ID\<close> and \<open>application/problem+json\<close> as the type of every error.\<close>

theorem api_request_answered:
  assumes "mux_match (api_routes h) (rq_Method r) (rq_Path r) = Some x" and "c_sent c = None"
  shows "\<exists>code hdr. c_sent (fst (api_serve h env r c sh)) = Some (code, hdr) \<and>
    code \<in> {200, 400, 401, 413, 415, 429, 502, 503} \<and>
    hdr HeaderName = Some (request_id (re_rand env) (re_now env) r) \<and>
    (code \<noteq> 200 \<longrightarrow> hdr ''Content-Type'' = Some ProblemContentType)"
proof -
  obtain pat hdl where "x = (pat, hdl)" by (cases x) simp
  with assms api_serve_served [of h r pat hdl c env sh] show ?thesis
    by (auto simp: served_def good_head_def route_codes_def ask_codes_def)
qed

text \<open>Every request is accounted for once: the in-flight gauge is back at its value, exactly one
  series of \<open>requests_total\<close> has moved, by one, and its status label is the status that went
  over the wire.\<close>

theorem api_request_accounted:
  assumes "mux_match (api_routes h) (rq_Method r) (rq_Path r) = Some x" and "c_sent c = None"
  shows "\<exists>code hdr. c_sent (fst (api_serve h env r c sh)) = Some (code, hdr) \<and>
    (\<forall>ls. metric_value Requests ls (sh_metrics (snd (api_serve h env r c sh))) =
       metric_value Requests ls (sh_metrics sh) +
         (if ls = [rq_Path r, rq_Method r, dec_int code] then 1 else 0)) \<and>
    metric_value InFlight [] (sh_metrics (snd (api_serve h env r c sh))) =
      metric_value InFlight [] (sh_metrics sh)"
proof -
  obtain pat hdl where "x = (pat, hdl)" by (cases x) simp
  with assms api_serve_served [of h r pat hdl c env sh] show ?thesis
    unfolding served_def by blast
qed

text \<open>The labels that the request metrics can ever have.\<close>

definition request_labels :: "bytes list set" where
  "request_labels = {[e, m, dec_int code] | e m code.
     e \<in> api_endpoints \<and> m \<in> {''POST'', ''GET'', ''HEAD''} \<and> code \<in> route_codes}"

lemma finite_request_labels: "finite request_labels"
proof -
  have "request_labels \<subseteq> (\<lambda>(e, m, code). [e, m, dec_int code]) `
      (api_endpoints \<times> {''POST'', ''GET'', ''HEAD''} \<times> route_codes)"
    by (force simp: request_labels_def)
  then show ?thesis
    by (rule finite_subset) (simp add: api_endpoints_def route_codes_def ask_codes_def)
qed

lemma request_series_step:
  "series Requests (sh_metrics (snd (api_serve h env r (new_conn b fault) sh)))
     \<subseteq> series Requests (sh_metrics sh) \<union> request_labels"
proof (cases "mux_match (api_routes h) (rq_Method r) (rq_Path r)")
  case None
  then show ?thesis
    by (auto simp: api_serve_def mux_serve_def Let_def split: option.splits list.splits if_splits)
next
  case (Some x)
  obtain pat hdl where x: "x = (pat, hdl)" by (cases x) simp
  then have "rq_Path r \<in> api_endpoints"
    using api_serve_routed(2,3) [of h r pat hdl] Some
    by (auto simp: api_routes_def api_endpoints_def)
  then show ?thesis
    using api_serve_served [of h r pat hdl "new_conn b fault" env sh] Some x
      api_serve_routed(4) [of h r pat hdl]
    by (auto simp: served_def good_head_def request_labels_def new_conn_def)
qed

text \<open>Any number of requests, one connection each.\<close>

fun serve_all ::
  "('l, 'b) handlers \<Rightarrow> (request_env \<times> Request \<times> (nat \<Rightarrow> nat option)) list
   \<Rightarrow> ('l, 'b, Source) shared \<Rightarrow> ('l, 'b, Source) shared" where
  "serve_all h [] sh = sh"
| "serve_all h ((env, r, fault) # rs) sh =
     serve_all h rs (snd (api_serve h env r (new_conn True fault) sh))"

text \<open>Request metrics stay bounded: whatever is sent to the gateway, by however many callers,
  \<open>requests_total\<close> only ever has the finitely many series of the three endpoints, the methods
  that reach them, and the documented status codes.\<close>

theorem request_series_bounded:
  "series Requests (sh_metrics (serve_all h rs sh)) \<subseteq> series Requests (sh_metrics sh) \<union> request_labels
   \<and> finite request_labels"
proof (induction rs arbitrary: sh)
  case (Cons x rs)
  obtain env r fault where x: "x = (env, r, fault)" by (metis prod.exhaust)
  show ?case
    using Cons [of "snd (api_serve h env r (new_conn True fault) sh)"]
      request_series_step [of h env r True fault sh]
    by (auto simp: x)
qed (simp add: finite_request_labels)

subsection \<open>Requests that are turned away\<close>

lemma auth_ignores_handler:
  "extractBearer (header_get r ''Authorization'') = Inl e \<Longrightarrow>
   auth_Middleware Validate ob nxt r s = auth_Middleware Validate ob nxt' r s"
  by (simp add: auth_Middleware_def)

lemma header_get_WithValue [simp]: "header_get (WithValue r i) k = header_get r k"
  by (simp add: header_get_def WithValue_def)

lemma route_ignores_handler:
  assumes "extractBearer (header_get r ''Authorization'') = Inl e"
  shows "route h endpoint handler env r c sh =
    route (h\<lparr>h_bridge := b\<rparr>) endpoint handler' env r c sh"
proof -
  let ?r = "WithValue r (request_id (re_rand env) (re_now env) r)"
  have "auth_Middleware Validate ob handler ?r s = auth_Middleware Validate ob handler' ?r s" for ob s
    by (rule auth_ignores_handler [where e = e]) (simp add: assms)
  then show ?thesis
    by (simp add: route_def RequestId.Middleware_def Let_def metricsMiddleware_def)
qed

lemma route_unauthenticated:
  assumes "extractBearer (header_get r ''Authorization'') = Inl e" and "c_sent c = None"
  shows "(\<exists>hdr. c_sent (fst (route h endpoint handler env r c sh)) = Some (401, hdr)) \<and>
    sh_audit (snd (route h endpoint handler env r c sh)) = sh_audit sh \<and>
    sh_limiter (snd (route h endpoint handler env r c sh)) = sh_limiter sh \<and>
    sh_auth (snd (route h endpoint handler env r c sh)) = sh_auth sh"
proof -
  let ?i = "request_id (re_rand env) (re_now env) r"
  let ?r = "WithValue r ?i"
  let ?nxt = "auth_Middleware Validate (re_auth env) handler"
  have e: "extractBearer (header_get ?r ''Authorization'') = Inl e" using assms(1) by simp
  have "\<exists>code hdr. c_sent (fst (metricsMiddleware (h_rt h) endpoint ?nxt ?r
      (conn_set_header HeaderName ?i c) sh)) = Some (code, hdr) \<and> good_head ?i {401} (code, hdr)"
  proof (rule metricsMiddleware_answered)
    show "answered ?i {401} (?nxt ?r s)" if "pending ?i s" for s
      using that e by (simp add: auth_Middleware_def frame_simps answered_auth_writeProblem)
  qed (use assms(2) in \<open>simp_all add: writer_simps\<close>)
  then have "\<exists>hdr. c_sent (fst (route h endpoint handler env r c sh)) = Some (401, hdr)"
    by (auto simp: route_def RequestId.Middleware_def Let_def good_head_def)
  moreover have "sh_audit (?nxt ?r s) = sh_audit s" "sh_limiter (?nxt ?r s) = sh_limiter s"
    "sh_auth (?nxt ?r s) = sh_auth s" for s
    using e by (simp_all add: auth_Middleware_def frame_simps)
  ultimately show ?thesis
    by (simp add: route_def RequestId.Middleware_def Let_def WithValue_def
        metricsMiddleware_def split_beta frame_simps)
qed

lemma slash_unmatched: "mux_match (api_routes h) m (p @ ''/'') = None"
  by (auto simp: mux_match_None api_routes_def pattern_matches_def path_matches_def
      append_eq_Cons_conv)

lemma api_serve_unrouted:
  assumes "mux_match (api_routes h) (rq_Method r) (rq_Path r) = None"
  shows "api_serve h env r c sh =
    (case allowed_methods (api_routes h) (rq_Path r) of
       [] \<Rightarrow> (http_NotFound c, sh)
     | ms \<Rightarrow> (http_Error (StatusText 405) 405 (conn_set_header ''Allow'' (join_comma ms) c), sh))"
  using assms slash_unmatched [of h] by (simp add: api_serve_def mux_serve_def Let_def)

text \<open>Without a well-formed bearer token the bridge is not asked and nothing but logs and metrics moves.\<close>

lemma unauthenticated_api_request:
  assumes "extractBearer (header_get r ''Authorization'') = Inl e" and "c_sent c = None"
  shows "sh_audit (snd (api_serve h env r c sh)) = sh_audit sh \<and>
    sh_limiter (snd (api_serve h env r c sh)) = sh_limiter sh \<and>
    sh_auth (snd (api_serve h env r c sh)) = sh_auth sh \<and>
    api_serve (h\<lparr>h_bridge := b\<rparr>) env r c sh = api_serve h env r c sh"
proof (cases "mux_match (api_routes h) (rq_Method r) (rq_Path r)")
  case None
  then have "mux_match (api_routes (h\<lparr>h_bridge := b\<rparr>)) (rq_Method r) (rq_Path r) = None"
    by (auto simp: api_routes_def split: if_splits)
  moreover have "allowed_methods (api_routes (h\<lparr>h_bridge := b\<rparr>)) p = allowed_methods (api_routes h) p"
    for p
    by (simp add: api_routes_def allowed_methods_def)
  ultimately show ?thesis
    using None by (simp add: api_serve_unrouted split: list.split)
next
  case (Some x)
  obtain pat hdl where x: "x = (pat, hdl)" by (cases x) simp
  note m = api_serve_routed [OF Some [unfolded x]]
  have "(\<exists>ep hd. hdl = route h ep hd)" using m(3) by (auto simp: api_routes_def)
  then obtain ep hd' where hdl: "hdl = route h ep hd'" by blast
  have b: "api_serve (h\<lparr>h_bridge := b\<rparr>) env r c sh = api_serve h env r c sh"
    using Some m(2)
    by (auto simp: api_serve_def mux_serve_def Let_def api_routes_def
        route_ignores_handler [OF assms(1), where b = b, symmetric] split: if_splits)
  show ?thesis
    using route_unauthenticated [OF assms, where endpoint = ep and h = h and handler = hd'] b by (simp add: m(1) hdl)
qed

lemma unauthenticated_api_status:
  assumes "extractBearer (header_get r ''Authorization'') = Inl e" and "c_sent c = None"
    and "mux_match (api_routes h) (rq_Method r) (rq_Path r) = Some x"
  shows "\<exists>hdr. c_sent (fst (api_serve h env r c sh)) = Some (401, hdr)"
proof -
  obtain pat hdl where x: "x = (pat, hdl)" by (cases x) simp
  note m = api_serve_routed [OF assms(3) [unfolded x]]
  have "(\<exists>ep hd. hdl = route h ep hd)" using m(3) by (auto simp: api_routes_def)
  then show ?thesis
    using route_unauthenticated [OF assms(1,2)] by (fastforce simp: m(1))
qed

text \<open>
  Requests for other paths or methods never get into the pipeline: the router itself answers
  them with 404 or 405, nothing that requests share changes, and the response has no
  \<open>X-Request-ID\<close>.
\<close>

theorem unrouted_request_untouched:
  assumes "mux_match (api_routes h) (rq_Method r) (rq_Path r) = None"
  shows "snd (api_serve h env r (new_conn b fault) sh) = sh \<and>
    (\<exists>code hdr. c_sent (fst (api_serve h env r (new_conn b fault) sh)) = Some (code, hdr) \<and>
       code \<in> {404, 405} \<and> hdr HeaderName = None)"
proof -
  show ?thesis
    using assms
    by (auto simp: api_serve_unrouted http_NotFound_def http_Error_def new_conn_def writer_simps
        HeaderName_def split: list.split)
qed

subsection \<open>A concrete request\<close>

definition sample_env :: request_env where
  "sample_env = \<lparr>re_rand = Some (replicate 8 CHR ''x''), re_now = 0,
     re_auth = \<lparr>ob_stat = Inl [], ob_read = Inl []\<rparr>\<rparr>"

definition sample_shared :: "(int, int, Source) shared" where
  "sample_shared =
     \<lparr>sh_logs = [], sh_metrics = NewRegistry, sh_audit = NewLogger (\<lambda>_. None) False,
      sh_limiter = RateLimit.New drain_lib 1, sh_auth = loaded_source, sh_ticks = 0\<rparr>"

abbreviation sample_serve :: "Request \<Rightarrow> Conn \<times> (int, int, Source) shared" where
  "sample_serve r \<equiv> api_serve sample_handlers sample_env r (new_conn True (\<lambda>_. None)) sample_shared"

lemma tools_request_routed:
  "\<exists>x. mux_match (api_routes h) (rq_Method (plain_request a)) (rq_Path (plain_request a)) = Some x"
  by (simp add: api_routes_def plain_request_def pattern_matches_def method_matches_def
      path_matches_def)

lemma new_conn_unsent: "c_sent (new_conn b fault) = None"
  by (simp add: new_conn_def)

theorem api_request_answered_witness:
  "\<exists>code hdr. c_sent (fst (sample_serve (plain_request ''Bearer x''))) = Some (code, hdr) \<and>
     code \<in> {200, 400, 401, 413, 415, 429, 502, 503}"
proof -
  obtain x where "mux_match (api_routes sample_handlers) (rq_Method (plain_request ''Bearer x''))
      (rq_Path (plain_request ''Bearer x'')) = Some x"
    using tools_request_routed by blast
  from api_request_answered [OF this new_conn_unsent [of True "\<lambda>_. None"], of sample_env sample_shared]
  show ?thesis by blast
qed

theorem api_request_accounted_witness:
  "metric_value InFlight [] (sh_metrics (snd (sample_serve (plain_request ''Bearer x'')))) =
     metric_value InFlight [] (sh_metrics sample_shared)"
proof -
  obtain x where "mux_match (api_routes sample_handlers) (rq_Method (plain_request ''Bearer x''))
      (rq_Path (plain_request ''Bearer x'')) = Some x"
    using tools_request_routed by blast
  from api_request_accounted [OF this new_conn_unsent [of True "\<lambda>_. None"], of sample_env sample_shared]
  show ?thesis by blast
qed

theorem unrouted_request_untouched_witness:
  "snd (sample_serve ((plain_request [])\<lparr>rq_Path := ''/v1/nothing''\<rparr>)) = sample_shared"
  by (rule unrouted_request_untouched [THEN conjunct1])
    (simp add: api_routes_def pattern_matches_def path_matches_def)

end
