(* ===== verification/Quiet.thy ===== *)
theory Quiet
  imports Server
begin

text \<open>
  No request makes the metrics library panic. The labels that a handler uses are constants, the
  method of a routed request, sanitized tool names, and the name of a model; the last comes from
  the configuration, from a decoded request, or from a decoded answer of the bridge, and decoding
  leaves no invalid UTF-8. The handlers' part is proved in the locale \<open>bridge\<close>, the property of
  the whole gateway with its own client.
\<close>

abbreviation panicked :: "('l, 'b, 'v, 'z) shared_scheme \<Rightarrow> bool" where
  "panicked s \<equiv> mr_panicked (sh_metrics s)"

lemma observeTokens_quiet:
  "valid_utf8 model \<Longrightarrow> mr_panicked (observeTokens model p c m) = mr_panicked m"
  by (simp add: observeTokens_def Let_def metric_simps labels_fit_def valid_utf8_ascii)

lemma recordUpstreamError_quiet:
  assumes "valid_utf8 op"
  shows "mr_panicked (recordUpstreamError op e m) = mr_panicked m"
proof -
  have "valid_utf8 (upstream_kind e)"
    by (auto simp: upstream_kind_def valid_utf8_ascii split: upstream_error.split)
  with assms show ?thesis
    by (simp add: recordUpstreamError_def metric_simps labels_fit_def)
qed

lemma observeToolCalls_quiet: "mr_panicked (observeToolCalls tcs m) = mr_panicked m"
  by (rule panicked_observeToolCalls)

lemmas quiet_observations =
  observeTokens_quiet recordUpstreamError_quiet observeToolCalls_quiet

subsection \<open>The streaming handler\<close>

text \<open>Until its end, the loop knows the model by valid names only.\<close>

lemma stream_loop_model:
  assumes "valid_utf8 (sx_finalModel x)"
    and "stream_loop h capture stream (x, fs) = (res, stream', x', fs')"
  shows "valid_utf8 (sx_finalModel x')"
  using assms
proof (induction h capture stream "(x, fs)" arbitrary: x fs rule: stream_loop.induct)
  case (1 h capture stream x fs)
  obtain r s' where rs: "Next (h_cd h) stream = (r, s')" by force
  show ?case
  proof (cases r)
    case (StreamChunk c)
    let ?st = "handle_chunk capture c (x, fst fs, refreshWriteDeadline h (snd fs))"
    have "valid_utf8 (sx_finalModel (fst ?st))"
      using Next_model [OF rs [unfolded StreamChunk]] 1(2)
      by (simp add: handle_chunk_vars vars_step_def Let_def)
    moreover have "stream_loop h capture s' (fst ?st, snd ?st) = (res, stream', x', fs')"
      using 1(3) rs StreamChunk by (subst (asm) stream_loop.simps) simp
    ultimately show ?thesis
      using 1(1) [OF rs [symmetric] StreamChunk, of "fst ?st" "snd ?st"] by simp
  next
    case StreamEOF
    then have "x' = x" using 1(3) rs by (subst (asm) stream_loop.simps) simp
    then show ?thesis using 1(2) by simp
  next
    case (StreamError e)
    then have "x' = x" using 1(3) rs by (subst (asm) stream_loop.simps) simp
    then show ?thesis using 1(2) by simp
  qed
qed

lemma askStream_quiet:
  assumes "valid_utf8 (cq_Model bq)"
  shows "panicked (fst (askStream h r q bq caller reqID s)) = panicked s"
proof (cases "br_ChatStream (h_bridge h) bq")
  case (Inl e)
  then show ?thesis
    by (simp add: askStream_def Let_def split_beta frame_simps quiet_observations valid_utf8_ascii)
next
  case (Inr stream)
  define s1 where "s1 = snd (time_now (h_rt h) s)"
  define s2 where "s2 = refreshWriteDeadline h
    (on_writer (\<lambda>w. sw_Flush (sw_WriteHeader 200 (set_stream_headers w))) s1)"
  obtain res stream' x fs where l: "stream_loop h (LogQueryEnabled (sh_audit s2)) stream
      (init_vars (cq_Model bq), False, s2) = (res, stream', x, fs)"
    using prod_cases4 by blast
  have x: "valid_utf8 (sx_finalModel x)"
    by (rule stream_loop_model [OF _ l]) (simp add: init_vars_def assms)
  have m: "sh_metrics (snd fs) = sh_metrics s"
    using stream_loop_books [OF l] by (simp add: same_books_def s2_def s1_def frame_simps)
  have "panicked (fst (run_stream h q bq caller reqID st stream s1)) = panicked s" for st
    using l x
    by (cases res) (simp_all add: run_stream_def Let_def s2_def stream_done_def stream_failed_def
        split_beta frame_simps m quiet_observations valid_utf8_ascii)
  then show ?thesis
    using Inr by (simp add: askStream_def Let_def split_beta s1_def frame_simps)
qed

subsection \<open>The handlers\<close>

context bridge
begin

lemma askPlain_quiet:
  assumes "h_bridge h = ops"
  shows "panicked (askPlain h r q bq caller reqID s) = panicked s"
  using chat_model [of bq]
  by (auto simp: askPlain_def Let_def split_beta frame_simps quiet_observations valid_utf8_ascii assms
      split: sum.split)

lemma ask_quiet:
  assumes "h_bridge h = ops" and "valid_utf8 (h_defaultModel h)"
  shows "panicked (ask h r s) = panicked s"
proof (cases "accept_request (h_cd h) (nat (h_maxRequestBytes h)) r")
  case (Inl x)
  then show ?thesis by (cases x) (simp add: ask_def frame_simps)
next
  case (Inr q)
  have "ask_valid q" by (rule decode_request_valid [OF accept_request_cases(2) [OF Inr]])
  then have model: "valid_utf8 (modelOrDefault (ask_Model q) (h_defaultModel h))"
    using assms(2) by (simp add: modelOrDefault_def ask_valid_def)
  obtain ok s1 where lim: "limiter_allow h (caller_of h r) s = (ok, s1)" by force
  then have s1: "sh_metrics s1 = sh_metrics s"
    using limiter_allow_frame(2) [of h "caller_of h r" s] by simp
  show ?thesis
    by (cases ok; cases "ask_Stream q")
      (simp_all add: ask_def Inr lim s1 Let_def rate_limited_def frame_simps metric_simps
        labels_fit_def bridge_request_def askStream_quiet askPlain_quiet [OF assms(1)] model)
qed

end

subsection \<open>The pipeline\<close>

lemma auth_quiet:
  assumes "\<And>s'. panicked (nxt r s') = panicked s'"
  shows "panicked (auth_Middleware Validate ob nxt r s) = panicked s"
  using assms
  by (auto simp: auth_Middleware_def Let_def frame_simps
      split: sum.split prod.split option.split auth_error.split)

lemma route_quiet:
  assumes "\<And>r s. panicked (handler r s) = panicked s"
    and "valid_utf8 endpoint" and "valid_utf8 (rq_Method r)"
  shows "panicked (snd (route h endpoint handler env r c sh)) = panicked sh"
  using assms auth_quiet [where nxt = handler]
  by (simp add: route_def RequestId.Middleware_def metricsMiddleware_def Let_def split_beta
      frame_simps metric_simps labels_fit_def WithValue_def)

context bridge
begin

lemma api_serve_quiet:
  assumes "h_bridge h = ops" and "valid_utf8 (h_defaultModel h)"
  shows "panicked (snd (api_serve h env r c sh)) = panicked sh"
proof (cases "mux_match (api_routes h) (rq_Method r) (rq_Path r)")
  case None
  then show ?thesis by (simp add: api_serve_unrouted split: list.split)
next
  case (Some x)
  obtain pat hdl where x: "x = (pat, hdl)" by (cases x) simp
  note m = api_serve_routed [OF Some [unfolded x]]
  have handlers: "panicked (ask h r s) = panicked s" "panicked (tools h r s) = panicked s"
    "panicked (models h r s) = panicked s" for r and s :: "('a, 'b, Source) server"
    by (simp_all add: ask_quiet [OF assms] tools_metrics models_metrics)
  show ?thesis
    using m(3) route_quiet [OF handlers(1) _ m(5)] route_quiet [OF handlers(2) _ m(5)]
      route_quiet [OF handlers(3) _ m(5)]
    by (auto simp: m(1) api_routes_def valid_utf8_ascii)
qed

lemma serve_all_quiet:
  assumes "h_bridge h = ops" and "valid_utf8 (h_defaultModel h)"
  shows "panicked (serve_all h rs sh) = panicked sh"
proof (induction rs arbitrary: sh)
  case (Cons x rs)
  obtain env r fault where "x = (env, r, fault)" by (metis prod.exhaust)
  with Cons show ?case using api_serve_quiet [OF assms] by simp
qed simp

end



end
