(* ===== verification/ListenAddr.thy ===== *)
theory ListenAddr
  imports GoStrings "HOL-Library.Word"
begin

text \<open>
  The listen addresses of \<open>internal/config/config.go\<close>: \<open>net.SplitHostPort\<close>, the number part of
  \<open>net.LookupPort\<close> with its 32-bit accumulator, and \<open>validateListenAddr\<close> over them. Service names
  (\<open>http\<close>) need the system's table, which is an argument.
\<close>

subsection \<open>\<open>net.SplitHostPort\<close>\<close>

text \<open>The text before and after the last colon.\<close>

fun cut_last :: "char \<Rightarrow> bytes \<Rightarrow> (bytes \<times> bytes) option" where
  "cut_last c [] = None"
| "cut_last c (d # s) =
     (case cut_last c s of
        Some (a, b) \<Rightarrow> Some (d # a, b)
      | None \<Rightarrow> if d = c then Some ([], s) else None)"

definition addr_error :: "bytes \<Rightarrow> bytes \<Rightarrow> bytes" where
  "addr_error addr why = (if addr \<noteq> [] then ''address '' @ addr @ '': '' @ why else why)"

text \<open>
  The branches of the code, in order. \<open>before\<close> and \<open>port\<close> are the two sides of the last colon;
  after a leading bracket, \<open>inside\<close> and \<open>after\<close> are the two sides of the first closing one.
\<close>

definition SplitHostPort :: "bytes \<Rightarrow> bytes + bytes \<times> bytes" where
  "SplitHostPort hostport =
     (case cut_last (CHR '':'') hostport of
        None \<Rightarrow> Inl (addr_error hostport ''missing port in address'')
      | Some (before, port) \<Rightarrow>
          if take 1 hostport = ''['' then
            (case cut (CHR '']'') hostport of
               None \<Rightarrow> Inl (addr_error hostport (''missing '' @ [CHR 0x27] @ '']'' @ [CHR 0x27] @ '' in address''))
             | Some (inside, after) \<Rightarrow>
                 if after = [] then Inl (addr_error hostport ''missing port in address'')
                 else if length inside + 1 \<noteq> length before then
                   (if take 1 after = '':'' then Inl (addr_error hostport ''too many colons in address'')
                    else Inl (addr_error hostport ''missing port in address''))
                 else if CHR ''['' \<in> set (drop 1 hostport) then
                   Inl (addr_error hostport (''unexpected '' @ [CHR 0x27] @ ''['' @ [CHR 0x27] @ '' in address''))
                 else if CHR '']'' \<in> set after then
                   Inl (addr_error hostport (''unexpected '' @ [CHR 0x27] @ '']'' @ [CHR 0x27] @ '' in address''))
                 else Inr (drop 1 inside, port))
          else if CHR '':'' \<in> set before then
            Inl (addr_error hostport ''too many colons in address'')
          else if CHR ''['' \<in> set hostport then
            Inl (addr_error hostport (''unexpected '' @ [CHR 0x27] @ ''['' @ [CHR 0x27] @ '' in address''))
          else if CHR '']'' \<in> set hostport then
            Inl (addr_error hostport (''unexpected '' @ [CHR 0x27] @ '']'' @ [CHR 0x27] @ '' in address''))
          else Inr (before, port))"

subsection \<open>\<open>net.LookupPort\<close>\<close>

text \<open>
  The digits of a port: \<open>None\<close> for a text that is not a number. The product of the accumulator
  with ten is not checked for overflow; only the sum is.
\<close>

fun port_digits :: "32 word \<Rightarrow> bytes \<Rightarrow> 32 word option" where
  "port_digits n [] = Some n"
| "port_digits n (c # s) =
     (if \<not> in_range 48 57 c then None
      else if 2 ^ 30 \<le> n then Some (- 1)
      else let m = n * 10; nn = m + of_nat (byte c - 48)
           in if nn < m then Some (- 1) else port_digits nn s)"

definition parsePort :: "bytes \<Rightarrow> int option" where
  "parsePort service =
     (if service = [] then Some 0
      else
        let neg = (take 1 service = ''-'');
            body = (if neg \<or> take 1 service = ''+'' then drop 1 service else service)
        in case port_digits 0 body of
             None \<Rightarrow> None
           | Some n \<Rightarrow>
               let port = (if \<not> neg \<and> 2 ^ 30 \<le> n then 2 ^ 30 - 1
                           else if neg \<and> 2 ^ 30 < n then 2 ^ 30
                           else uint n)
               in Some (if neg then - port else port))"

definition LookupPort :: "(bytes \<Rightarrow> bytes + int) \<Rightarrow> bytes \<Rightarrow> bytes + int" where
  "LookupPort service_port service =
     (let found = (case parsePort service of
                     None \<Rightarrow> service_port service
                   | Some port \<Rightarrow> Inr port)
      in case found of
           Inl e \<Rightarrow> Inl e
         | Inr port \<Rightarrow>
             if port < 0 \<or> 65535 < port then Inl (addr_error service ''invalid port'') else Inr port)"

subsection \<open>\<open>validateListenAddr\<close>\<close>

definition validateListenAddr ::
  "(bytes \<Rightarrow> bytes) \<Rightarrow> (bytes \<Rightarrow> bytes + int) \<Rightarrow> bytes \<Rightarrow> bytes option" where
  "validateListenAddr quote service_port addr =
     (case SplitHostPort addr of
        Inl e \<Rightarrow> Some e
      | Inr (host, port) \<Rightarrow>
          if port = [] then Some ''missing port''
          else case LookupPort service_port port of
                 Inl perr \<Rightarrow> Some (''invalid port '' @ quote port @ '': '' @ perr)
               | Inr _ \<Rightarrow> None)"

subsection \<open>Lemmas\<close>

lemma cut_last_None: "cut_last c s = None \<longleftrightarrow> c \<notin> set s"
  by (induction s) (auto split: option.splits)

lemma cut_last_append: "c \<notin> set b \<Longrightarrow> cut_last c (a @ c # b) = Some (a, b)"
proof (induction a)
  case Nil
  then show ?case using cut_last_None [of c b] by simp
qed simp

lemma cut_last_Some: "cut_last c s = Some (a, b) \<Longrightarrow> s = a @ c # b \<and> c \<notin> set b"
proof (induction s arbitrary: a)
  case (Cons d s)
  then show ?case
    using cut_last_None [of c s] by (auto split: option.splits if_splits)
qed simp

text \<open>A host that can stand before the colon as it is, and one that needs brackets.\<close>

definition plain_host :: "bytes \<Rightarrow> bool" where
  "plain_host h \<longleftrightarrow> set h \<inter> {CHR '':'', CHR ''['', CHR '']''} = {}"

definition bracket_host :: "bytes \<Rightarrow> bool" where
  "bracket_host h \<longleftrightarrow> set h \<inter> {CHR ''['', CHR '']''} = {}"

definition join_host_port :: "bytes \<Rightarrow> bytes \<Rightarrow> bytes" where
  "join_host_port h p =
     (if CHR '':'' \<in> set h then ''['' @ h @ '']:'' @ p else h @ '':'' @ p)"

lemma split_plain: "plain_host h \<Longrightarrow> plain_host p \<Longrightarrow> SplitHostPort (h @ '':'' @ p) = Inr (h, p)"
proof -
  assume h: "plain_host h" and p: "plain_host p"
  have "cut_last (CHR '':'') (h @ '':'' @ p) = Some (h, p)"
    using cut_last_append [of "CHR '':''" p h] p by (simp add: plain_host_def)
  moreover have "take 1 (h @ '':'' @ p) \<noteq> ''[''" using h by (cases h) (auto simp: plain_host_def)
  ultimately show ?thesis using h p by (auto simp: SplitHostPort_def plain_host_def)
qed

lemma split_bracketed:
  assumes "bracket_host h" and "plain_host p"
  shows "SplitHostPort (''['' @ h @ '']:'' @ p) = Inr (h, p)"
proof -
  have "cut_last (CHR '':'') (''['' @ h @ '']:'' @ p) = Some (''['' @ h @ '']'', p)"
    using cut_last_append [of "CHR '':''" p "''['' @ h @ '']''"] assms(2) by (simp add: plain_host_def)
  moreover have "cut (CHR '']'') (''['' @ h @ '']:'' @ p) = Some (''['' @ h, '':'' @ p)"
    using cut_append [of "CHR '']''" "''['' @ h" "'':'' @ p"] assms(1) by (auto simp: bracket_host_def)
  ultimately show ?thesis
    using assms by (auto simp: SplitHostPort_def plain_host_def bracket_host_def)
qed

text \<open>Up to the overflow guard the accumulator holds the number read so far.\<close>

lemma unat_small: "n < 2 ^ 32 \<Longrightarrow> unat (of_nat n :: 32 word) = n"
  by (simp add: unat_of_nat)

lemma port_digits_prefix:
  assumes "\<And>c. c \<in> set s \<Longrightarrow> in_range 48 57 c" and "dec_value a s < 2 ^ 30"
  shows "port_digits (of_nat a) (s @ t) = port_digits (of_nat (dec_value a s)) t"
  using assms
proof (induction s arbitrary: a)
  case (Cons c s)
  have mono: "x \<le> dec_value x t" for x and t :: bytes
  proof (induction t arbitrary: x)
    case (Cons b t)
    show ?case using Cons [of "10 * x + (byte b - 48)"] by simp
  qed simp
  let ?a = "10 * a + (byte c - 48)"
  have lt: "?a < 2 ^ 30" using mono [of ?a s] Cons.prems(2) by simp
  have a: "unat (of_nat a :: 32 word) = a" and m: "unat (of_nat (10 * a) :: 32 word) = 10 * a"
    and nn: "unat (of_nat ?a :: 32 word) = ?a"
    using lt by (intro unat_small; simp)+
  have small: "\<not> (2 ^ 30 :: 32 word) \<le> of_nat a" using a lt by (simp add: word_le_nat_alt)
  have mul: "(of_nat a :: 32 word) * 10 = of_nat (10 * a)" by simp
  have sum: "(of_nat (10 * a) :: 32 word) + of_nat (byte c - 48) = of_nat ?a" by simp
  have "\<not> (of_nat ?a :: 32 word) < of_nat (10 * a)" using m nn by (simp add: word_less_nat_alt)
  then have "port_digits (of_nat a) (c # s @ t) = port_digits (of_nat ?a) (s @ t)"
    using Cons.prems(1) [of c] small by (simp only: port_digits.simps Let_def mul sum) simp
  also have "\<dots> = port_digits (of_nat (dec_value ?a s)) t"
    using Cons.prems by (intro Cons.IH) simp_all
  finally show ?case by (simp only: dec_value.simps append_Cons)
qed simp

text \<open>
  What the accumulator makes of a number whose digits but the last pass the guard: the product
  wraps around, and the sum with the last digit is checked.
\<close>

definition wrapped_port :: "nat \<Rightarrow> nat" where
  "wrapped_port n = (n div 10 * 10) mod 2 ^ 32 + n mod 10"

lemma wrapped_port_small: "n < 2 ^ 32 \<Longrightarrow> wrapped_port n = n"
  by (simp add: wrapped_port_def)

lemma last_digit:
  assumes "v < 2 ^ 30" and "d < 10"
  shows "map_option unat (port_digits (of_nat v) [digit_char d]) =
    Some (if 2 ^ 32 \<le> (v * 10) mod 2 ^ 32 + d then 2 ^ 32 - 1 else (v * 10) mod 2 ^ 32 + d)"
proof -
  define m :: "32 word" where "m = of_nat v * 10"
  have v: "unat (of_nat v :: 32 word) = v" using assms(1) by (intro unat_small) simp
  have "m = of_nat (v * 10)" by (simp add: m_def)
  then have m: "unat m = (v * 10) mod 2 ^ 32" by (simp only: unat_of_nat take_bit_eq_mod) simp
  have d: "unat (of_nat d :: 32 word) = d" using assms(2) by (intro unat_small) simp
  have sum: "unat (m + of_nat d) = (unat m + d) mod 2 ^ 32"
    by (simp add: unat_word_ariths d)
  have bound: "unat m < 2 ^ 32" using m by simp
  have less: "m + of_nat d < m \<longleftrightarrow> 2 ^ 32 \<le> unat m + d"
  proof (cases "unat m + d < 2 ^ 32")
    case True
    then show ?thesis using sum by (simp add: word_less_nat_alt)
  next
    case False
    then have "(unat m + d) mod 2 ^ 32 = unat m + d - 2 ^ 32"
      using bound assms(2) by (simp add: mod_if [of "unat m + d"])
    then show ?thesis using False bound assms(2) sum by (simp add: word_less_nat_alt)
  qed
  have guard: "\<not> (2 ^ 30 :: 32 word) \<le> of_nat v" using v assms(1) by (simp add: word_le_nat_alt)
  have minus_one: "unat (- 1 :: 32 word) = 2 ^ 32 - 1"
    by (simp add: unsigned_minus_1_eq_mask mask_eq_exp_minus_1)
  have digit: "in_range 48 57 (digit_char d)" "byte (digit_char d) - 48 = d"
    using assms(2) by (simp_all add: in_range_def)
  have "port_digits (of_nat v) [digit_char d] =
      (if m + of_nat d < m then Some (- 1) else Some (m + of_nat d))"
    using guard digit by (simp only: port_digits.simps Let_def m_def) simp
  then show ?thesis
    using less sum m minus_one by auto
qed

lemma parsePort_dec_nat:
  assumes "n < 10 * 2 ^ 30"
  shows "parsePort (dec_nat n) = Some (int (min (wrapped_port n) (2 ^ 30 - 1)))"
proof -
  have split: "dec_nat n = (if n < 10 then [] else dec_nat (n div 10)) @ [digit_char (n mod 10)]"
    by (subst dec_nat.simps) simp
  have v: "n div 10 < 2 ^ 30" using assms by simp
  have "port_digits 0 (dec_nat n) = port_digits (of_nat (n div 10)) [digit_char (n mod 10)]"
  proof (cases "n < 10")
    case True
    then show ?thesis by (subst split) (simp only: if_True append_Nil, simp)
  next
    case False
    have "port_digits (of_nat 0) (dec_nat (n div 10) @ [digit_char (n mod 10)]) =
        port_digits (of_nat (dec_value 0 (dec_nat (n div 10)))) [digit_char (n mod 10)]"
      using v by (intro port_digits_prefix) (auto simp: in_range_def dest: dec_nat_digits)
    moreover have "dec_nat n = dec_nat (n div 10) @ [digit_char (n mod 10)]"
      using split False by simp
    ultimately show ?thesis by (simp del: port_digits.simps)
  qed
  then obtain w where w: "port_digits 0 (dec_nat n) = Some w"
    and u: "unat w = (if 2 ^ 32 \<le> wrapped_port n then 2 ^ 32 - 1 else wrapped_port n)"
    using last_digit [OF v, of "n mod 10"] by (auto simp: wrapped_port_def)
  have "(2 ^ 30 :: 32 word) \<le> w \<longleftrightarrow> 2 ^ 30 \<le> unat w" by (simp add: word_le_nat_alt)
  then show ?thesis
    using w u take1_dec_nat [of n] by (auto simp: parsePort_def Let_def uint_nat min_def)
qed

lemma dec_nat_plain: "plain_host (dec_nat n)"
  using dec_nat_digits [of _ n] by (force simp: plain_host_def)

lemma validate_number:
  assumes "SplitHostPort addr = Inr (h, dec_nat n)" and "n < 10 * 2 ^ 30"
  shows "validateListenAddr quote service_port addr = None \<longleftrightarrow> wrapped_port n \<le> 65535"
  using assms by (auto simp: validateListenAddr_def LookupPort_def parsePort_dec_nat Let_def min_def)

end
