(* ===== verification/Config.thy ===== *)
theory Config
  imports ListenAddr BridgeClient
begin

text \<open>
  \<open>internal/config/config.go\<close>: the configuration, its defaults, its overlay by environment
  variables (\<open>Load\<close>) and its semantic checks (\<open>Validate\<close>). Parsing of URLs and durations, quoting,
  and the table of service names are arguments (\<open>config_env\<close>).
\<close>

abbreviation EnvBridgeURL :: bytes where "EnvBridgeURL \<equiv> ''OPENCOST_AI_BRIDGE_URL''"
abbreviation EnvListenAddr :: bytes where "EnvListenAddr \<equiv> ''OPENCOST_AI_LISTEN_ADDR''"
abbreviation EnvDefaultModel :: bytes where "EnvDefaultModel \<equiv> ''OPENCOST_AI_DEFAULT_MODEL''"
abbreviation EnvRequestTimeout :: bytes where "EnvRequestTimeout \<equiv> ''OPENCOST_AI_REQUEST_TIMEOUT''"
abbreviation EnvMaxRequestBytes :: bytes where
  "EnvMaxRequestBytes \<equiv> ''OPENCOST_AI_MAX_REQUEST_BYTES''"
abbreviation EnvAuditLogQuery :: bytes where "EnvAuditLogQuery \<equiv> ''OPENCOST_AI_AUDIT_LOG_QUERY''"
abbreviation EnvAuthTokenFile :: bytes where "EnvAuthTokenFile \<equiv> ''OPENCOST_AI_AUTH_TOKEN_FILE''"
abbreviation EnvRateLimitPerMin :: bytes where
  "EnvRateLimitPerMin \<equiv> ''OPENCOST_AI_RATE_LIMIT_PER_MIN''"
abbreviation EnvMetricsListenAddr :: bytes where
  "EnvMetricsListenAddr \<equiv> ''OPENCOST_AI_METRICS_LISTEN_ADDR''"

record Config =
  cf_BridgeURL :: bytes
  cf_ListenAddr :: bytes
  cf_DefaultModel :: bytes
  cf_RequestTimeout :: int
  cf_MaxRequestBytes :: int
  cf_AuditLogQuery :: bool
  cf_AuthTokenFile :: bytes
  cf_RateLimitPerMin :: int
  cf_MetricsListenAddr :: bytes

definition DefaultBridgeURL :: bytes where [simp]:
  "DefaultBridgeURL = ''http://ollama-mcp-bridge:8000''"
definition DefaultListenAddr :: bytes where [simp]: "DefaultListenAddr = '':8080''"
definition DefaultModel :: bytes where [simp]: "DefaultModel = ''granite4.2:8b''"
definition DefaultRequestTimeout :: int where [simp]: "DefaultRequestTimeout = 120 * 1000000000"
definition DefaultMaxRequestBytes :: int where [simp]: "DefaultMaxRequestBytes = 8192"
definition DefaultAuditLogQuery :: bool where [simp]: "DefaultAuditLogQuery = False"
definition DefaultAuthTokenFile :: bytes where [simp]:
  "DefaultAuthTokenFile = ''/var/run/secrets/opencost-ai/token''"
definition DefaultRateLimitPerMin :: int where [simp]: "DefaultRateLimitPerMin = 60"
definition DefaultMetricsListenAddr :: bytes where [simp]: "DefaultMetricsListenAddr = ''127.0.0.1:9090''"

definition DefaultConfig :: Config where
  "DefaultConfig =
     \<lparr>cf_BridgeURL = DefaultBridgeURL, cf_ListenAddr = DefaultListenAddr,
      cf_DefaultModel = DefaultModel, cf_RequestTimeout = DefaultRequestTimeout,
      cf_MaxRequestBytes = DefaultMaxRequestBytes, cf_AuditLogQuery = DefaultAuditLogQuery,
      cf_AuthTokenFile = DefaultAuthTokenFile, cf_RateLimitPerMin = DefaultRateLimitPerMin,
      cf_MetricsListenAddr = DefaultMetricsListenAddr\<rparr>"

record config_env =
  ce_os :: "bytes \<Rightarrow> bytes option"
  ce_parse_url :: "bytes \<Rightarrow> bytes + URL"
  ce_parse_duration :: "bytes \<Rightarrow> bytes + int"
  ce_duration_text :: "int \<Rightarrow> bytes"
  ce_service_port :: "bytes \<Rightarrow> bytes + int"
  ce_quote :: "bytes \<Rightarrow> bytes"

subsection \<open>\<open>parseBool\<close>\<close>

definition true_words :: "bytes list" where
  "true_words = [''1'', ''t'', ''true'', ''y'', ''yes'', ''on'']"

definition false_words :: "bytes list" where
  "false_words = [''0'', ''f'', ''false'', ''n'', ''no'', ''off'']"

definition parseBool :: "(bytes \<Rightarrow> bytes) \<Rightarrow> bytes \<Rightarrow> bytes + bool" where
  "parseBool quote v =
     (let w = to_lower (trim_space v) in
      if w \<in> set true_words then Inr True
      else if w \<in> set false_words then Inr False
      else Inl (''invalid bool '' @ quote v))"

subsection \<open>\<open>Load\<close>\<close>

text \<open>
  One overlay looks up its variable and yields the configuration, changed or not, and an error
  if there is one. The errors carry the texts of the code.
\<close>

type_synonym overlay = "(bytes \<Rightarrow> bytes option) \<Rightarrow> Config \<Rightarrow> Config \<times> bytes option"

definition overlay_string :: "bytes \<Rightarrow> (bytes \<Rightarrow> Config \<Rightarrow> Config) \<Rightarrow> overlay" where
  "overlay_string key set_field get cfg =
     (case get key of
        None \<Rightarrow> (cfg, None)
      | Some v \<Rightarrow>
          if v = [] then (cfg, Some (key @ '': must not be empty''))
          else (set_field v cfg, None))"

definition num_error_text :: "config_env \<Rightarrow> bytes \<Rightarrow> bytes \<Rightarrow> num_error \<Rightarrow> bytes" where
  "num_error_text ce func v e =
     ''strconv.'' @ func @ '': parsing '' @ ce_quote ce v @ '': '' @
       (case e of NumSyntax \<Rightarrow> ''invalid syntax'' | NumRange \<Rightarrow> ''value out of range'')"

definition parse_int_error :: "config_env \<Rightarrow> bytes \<Rightarrow> bytes \<Rightarrow> bytes \<Rightarrow> num_error \<Rightarrow> bytes" where
  "parse_int_error ce key func v e =
     key @ '': parse int '' @ ce_quote ce v @ '': '' @ num_error_text ce func v e"

definition overlay_timeout :: "config_env \<Rightarrow> overlay" where
  "overlay_timeout ce get cfg =
     (case get EnvRequestTimeout of
        None \<Rightarrow> (cfg, None)
      | Some v \<Rightarrow>
          (case ce_parse_duration ce v of
             Inl e \<Rightarrow> (cfg, Some (EnvRequestTimeout @ '': parse duration '' @ ce_quote ce v @ '': '' @ e))
           | Inr d \<Rightarrow> (cfg\<lparr>cf_RequestTimeout := d\<rparr>, None)))"

definition overlay_max_bytes :: "config_env \<Rightarrow> overlay" where
  "overlay_max_bytes ce get cfg =
     (case get EnvMaxRequestBytes of
        None \<Rightarrow> (cfg, None)
      | Some v \<Rightarrow>
          (case parse_int v of
             Inl e \<Rightarrow> (cfg, Some (parse_int_error ce EnvMaxRequestBytes ''ParseInt'' v e))
           | Inr n \<Rightarrow> (cfg\<lparr>cf_MaxRequestBytes := n\<rparr>, None)))"

definition overlay_audit_query :: "config_env \<Rightarrow> overlay" where
  "overlay_audit_query ce get cfg =
     (case get EnvAuditLogQuery of
        None \<Rightarrow> (cfg, None)
      | Some v \<Rightarrow>
          if v = [] then (cfg, None)
          else case parseBool (ce_quote ce) v of
                 Inl e \<Rightarrow> (cfg, Some (EnvAuditLogQuery @ '': '' @ e))
               | Inr b \<Rightarrow> (cfg\<lparr>cf_AuditLogQuery := b\<rparr>, None))"

definition overlay_rate :: "config_env \<Rightarrow> overlay" where
  "overlay_rate ce get cfg =
     (case get EnvRateLimitPerMin of
        None \<Rightarrow> (cfg, None)
      | Some v \<Rightarrow>
          if v = [] then (cfg, None)
          else case parse_int v of
                 Inl e \<Rightarrow> (cfg, Some (parse_int_error ce EnvRateLimitPerMin ''Atoi'' v e))
               | Inr n \<Rightarrow> (cfg\<lparr>cf_RateLimitPerMin := n\<rparr>, None))"

text \<open>The overlays in the order of the code; the first error ends the loading.\<close>

definition overlays :: "config_env \<Rightarrow> overlay list" where
  "overlays ce =
     [overlay_string EnvBridgeURL (\<lambda>v c. c\<lparr>cf_BridgeURL := v\<rparr>),
      overlay_string EnvListenAddr (\<lambda>v c. c\<lparr>cf_ListenAddr := v\<rparr>),
      overlay_string EnvDefaultModel (\<lambda>v c. c\<lparr>cf_DefaultModel := v\<rparr>),
      overlay_timeout ce, overlay_max_bytes ce, overlay_audit_query ce,
      overlay_string EnvAuthTokenFile (\<lambda>v c. c\<lparr>cf_AuthTokenFile := v\<rparr>),
      overlay_rate ce,
      overlay_string EnvMetricsListenAddr (\<lambda>v c. c\<lparr>cf_MetricsListenAddr := v\<rparr>)]"

fun run_overlays :: "overlay list \<Rightarrow> overlay" where
  "run_overlays [] get cfg = (cfg, None)"
| "run_overlays (f # fs) get cfg =
     (case f get cfg of
        (cfg', Some e) \<Rightarrow> (cfg', Some e)
      | (cfg', None) \<Rightarrow> run_overlays fs get cfg')"

definition Load :: "config_env \<Rightarrow> (bytes \<Rightarrow> bytes option) option \<Rightarrow> Config \<times> bytes option" where
  "Load ce get =
     run_overlays (overlays ce) (case get of None \<Rightarrow> ce_os ce | Some g \<Rightarrow> g) DefaultConfig"

subsection \<open>\<open>Validate\<close>\<close>

text \<open>\<open>errors.Join\<close>: nil without errors, else their texts, one per line.\<close>

fun join_lines :: "bytes list \<Rightarrow> bytes" where
  "join_lines [] = []"
| "join_lines [e] = e"
| "join_lines (e # f # es) = e @ [CHR 0x0A] @ join_lines (f # es)"

definition url_errors :: "config_env \<Rightarrow> bytes \<Rightarrow> bytes list" where
  "url_errors ce u =
     (let pre = ''bridge URL '' @ ce_quote ce u @ '': '' in
      case ce_parse_url ce u of
        Inl e \<Rightarrow> [pre @ e]
      | Inr p \<Rightarrow>
          if u_Scheme p \<noteq> ''http'' \<and> u_Scheme p \<noteq> ''https''
          then [pre @ ''scheme must be http or https'']
          else if u_Host p = [] then [pre @ ''missing host''] else [])"

definition listen_errors :: "config_env \<Rightarrow> bytes \<Rightarrow> bytes \<Rightarrow> bytes list" where
  "listen_errors ce what addr =
     (if addr = [] then [what @ '': must not be empty'']
      else case validateListenAddr (ce_quote ce) (ce_service_port ce) addr of
             None \<Rightarrow> []
           | Some e \<Rightarrow> [what @ '' '' @ ce_quote ce addr @ '': '' @ e])"

definition validate_errors :: "config_env \<Rightarrow> Config \<Rightarrow> bytes list" where
  "validate_errors ce c =
     url_errors ce (cf_BridgeURL c)
     @ listen_errors ce ''listen addr'' (cf_ListenAddr c)
     @ (if cf_DefaultModel c = [] then [''default model: must not be empty''] else [])
     @ (if cf_RequestTimeout c \<le> 0
        then [''request timeout '' @ ce_duration_text ce (cf_RequestTimeout c) @ '': must be positive'']
        else [])
     @ (if cf_MaxRequestBytes c \<le> 0
        then [''max request bytes '' @ dec_int (cf_MaxRequestBytes c) @ '': must be positive''] else [])
     @ (if cf_AuthTokenFile c = [] then [''auth token file: must not be empty''] else [])
     @ listen_errors ce ''metrics listen addr'' (cf_MetricsListenAddr c)"

definition Validate :: "config_env \<Rightarrow> Config \<Rightarrow> bytes option" where
  "Validate ce c =
     (case validate_errors ce c of [] \<Rightarrow> None | es \<Rightarrow> Some (join_lines es))"

subsection \<open>Lemmas\<close>

lemma run_overlays_ok:
  "run_overlays (f # fs) get cfg = (cfg', None) \<longleftrightarrow>
     snd (f get cfg) = None \<and> run_overlays fs get (fst (f get cfg)) = (cfg', None)"
  by (auto split: prod.splits option.splits)

text \<open>What a variable means: its value, or the default when it is unset (or, for two, empty).\<close>

definition string_value :: "(bytes \<Rightarrow> bytes option) \<Rightarrow> bytes \<Rightarrow> bytes \<Rightarrow> bytes" where
  "string_value get key dflt = (case get key of None \<Rightarrow> dflt | Some v \<Rightarrow> v)"

definition parsed_value ::
  "(bytes \<Rightarrow> 'e + 'a) \<Rightarrow> (bytes \<Rightarrow> bytes option) \<Rightarrow> bytes \<Rightarrow> bool \<Rightarrow> 'a \<Rightarrow> 'a option" where
  "parsed_value parse get key empty_is_unset dflt =
     (case get key of
        None \<Rightarrow> Some dflt
      | Some v \<Rightarrow>
          if empty_is_unset \<and> v = [] then Some dflt
          else case parse v of Inl _ \<Rightarrow> None | Inr x \<Rightarrow> Some x)"

lemma overlay_string_step:
  assumes "\<And>c. upd (fld c) c = c"
  shows "run_overlays (overlay_string key upd # fs) get cfg = (cfg', None) \<longleftrightarrow>
    get key \<noteq> Some [] \<and> run_overlays fs get (upd (string_value get key (fld cfg)) cfg) = (cfg', None)"
  by (auto simp: overlay_string_def string_value_def assms split: option.split)

declare run_overlays.simps(2) [simp del]

lemmas overlay_string_steps =
  overlay_string_step [where upd = "\<lambda>v c. c\<lparr>cf_BridgeURL := v\<rparr>" and fld = cf_BridgeURL, simplified]
  overlay_string_step [where upd = "\<lambda>v c. c\<lparr>cf_ListenAddr := v\<rparr>" and fld = cf_ListenAddr, simplified]
  overlay_string_step [where upd = "\<lambda>v c. c\<lparr>cf_DefaultModel := v\<rparr>" and fld = cf_DefaultModel, simplified]
  overlay_string_step [where upd = "\<lambda>v c. c\<lparr>cf_AuthTokenFile := v\<rparr>" and fld = cf_AuthTokenFile, simplified]
  overlay_string_step [where upd = "\<lambda>v c. c\<lparr>cf_MetricsListenAddr := v\<rparr>"
    and fld = cf_MetricsListenAddr, simplified]

lemma overlay_parsed_steps:
  "run_overlays (overlay_timeout ce # fs) get cfg = (cfg', None) \<longleftrightarrow>
     (\<exists>d. parsed_value (ce_parse_duration ce) get EnvRequestTimeout False (cf_RequestTimeout cfg) = Some d \<and>
       run_overlays fs get (cfg\<lparr>cf_RequestTimeout := d\<rparr>) = (cfg', None))"
  "run_overlays (overlay_max_bytes ce # fs) get cfg = (cfg', None) \<longleftrightarrow>
     (\<exists>n. parsed_value parse_int get EnvMaxRequestBytes False (cf_MaxRequestBytes cfg) = Some n \<and>
       run_overlays fs get (cfg\<lparr>cf_MaxRequestBytes := n\<rparr>) = (cfg', None))"
  "run_overlays (overlay_audit_query ce # fs) get cfg = (cfg', None) \<longleftrightarrow>
     (\<exists>b. parsed_value (parseBool (ce_quote ce)) get EnvAuditLogQuery True (cf_AuditLogQuery cfg) = Some b \<and>
       run_overlays fs get (cfg\<lparr>cf_AuditLogQuery := b\<rparr>) = (cfg', None))"
  "run_overlays (overlay_rate ce # fs) get cfg = (cfg', None) \<longleftrightarrow>
     (\<exists>n. parsed_value parse_int get EnvRateLimitPerMin True (cf_RateLimitPerMin cfg) = Some n \<and>
       run_overlays fs get (cfg\<lparr>cf_RateLimitPerMin := n\<rparr>) = (cfg', None))"
  by (auto simp: run_overlays.simps(2) overlay_timeout_def overlay_max_bytes_def overlay_audit_query_def overlay_rate_def
      parsed_value_def split: option.split sum.split)

text \<open>C30: loading reads the environment and nothing else: it succeeds exactly when no string variable
  is set to the empty text and every other variable that is set parses, where the empty text
  counts as unset for the audit opt-in and the rate limit and does not parse for the timeout and
  the body limit; and then each field is the value of its own variable, or the documented
  default when that is unset. The comment of \<open>Load\<close> says that the empty text is rejected for
  every numeric variable; for the rate limit it is not.\<close>

theorem load_reads_environment:
  "Load ce (Some get) = (cfg, None) \<longleftrightarrow>
     get EnvBridgeURL \<noteq> Some [] \<and> get EnvListenAddr \<noteq> Some [] \<and> get EnvDefaultModel \<noteq> Some [] \<and>
     get EnvAuthTokenFile \<noteq> Some [] \<and> get EnvMetricsListenAddr \<noteq> Some [] \<and>
     cf_BridgeURL cfg = string_value get EnvBridgeURL ''http://ollama-mcp-bridge:8000'' \<and>
     cf_ListenAddr cfg = string_value get EnvListenAddr '':8080'' \<and>
     cf_DefaultModel cfg = string_value get EnvDefaultModel ''granite4.2:8b'' \<and>
     cf_AuthTokenFile cfg = string_value get EnvAuthTokenFile ''/var/run/secrets/opencost-ai/token'' \<and>
     cf_MetricsListenAddr cfg = string_value get EnvMetricsListenAddr ''127.0.0.1:9090'' \<and>
     parsed_value (ce_parse_duration ce) get EnvRequestTimeout False 120000000000 =
       Some (cf_RequestTimeout cfg) \<and>
     parsed_value parse_int get EnvMaxRequestBytes False 8192 = Some (cf_MaxRequestBytes cfg) \<and>
     parsed_value (parseBool (ce_quote ce)) get EnvAuditLogQuery True False =
       Some (cf_AuditLogQuery cfg) \<and>
     parsed_value parse_int get EnvRateLimitPerMin True 60 = Some (cf_RateLimitPerMin cfg)"
  by (cases cfg)
    (simp only: Load_def overlays_def overlay_string_steps overlay_parsed_steps option.case
       run_overlays.simps(1) DefaultConfig_def Config.simps prod.inject simp_thms; auto)

subsection \<open>What \<open>Validate\<close> accepts\<close>

definition good_listen :: "config_env \<Rightarrow> bytes \<Rightarrow> bool" where
  "good_listen ce addr \<longleftrightarrow> validateListenAddr (ce_quote ce) (ce_service_port ce) addr = None"

definition good_url :: "config_env \<Rightarrow> bytes \<Rightarrow> bool" where
  "good_url ce u \<longleftrightarrow>
     (case ce_parse_url ce u of
        Inl _ \<Rightarrow> False
      | Inr p \<Rightarrow> (u_Scheme p = ''http'' \<or> u_Scheme p = ''https'') \<and> u_Host p \<noteq> [])"

lemma url_errors_none: "url_errors ce u = [] \<longleftrightarrow> good_url ce u"
  by (simp add: url_errors_def good_url_def Let_def split: sum.split)

lemma empty_addr_bad: "\<not> good_listen ce []"
  by (simp add: good_listen_def validateListenAddr_def SplitHostPort_def)

lemma listen_errors_none: "listen_errors ce what addr = [] \<longleftrightarrow> good_listen ce addr"
  using empty_addr_bad by (auto simp: listen_errors_def good_listen_def split: option.splits)

lemma validate_none_iff:
  "Validate ce c = None \<longleftrightarrow>
     good_url ce (cf_BridgeURL c) \<and> good_listen ce (cf_ListenAddr c) \<and> cf_DefaultModel c \<noteq> [] \<and>
     0 < cf_RequestTimeout c \<and> 0 < cf_MaxRequestBytes c \<and> cf_AuthTokenFile c \<noteq> [] \<and>
     good_listen ce (cf_MetricsListenAddr c)"
proof -
  have "Validate ce c = None \<longleftrightarrow> validate_errors ce c = []"
    by (simp add: Validate_def split: list.split)
  then show ?thesis
    by (auto simp: validate_errors_def url_errors_none listen_errors_none)
qed

text \<open>C39: which numeric listen addresses are accepted: for every host without brackets, IPv6 hosts
  inside brackets, and every number up to ten digits long, those whose value in the parser's
  32-bit accumulator, the product by ten wrapping around, fits 16 bits. Below \<open>2 ^ 32\<close> these are
  exactly the ports; above, some numbers that are no port at all are accepted.\<close>

theorem numeric_port_accepted_iff:
  assumes "bracket_host h" and "n < 10 * 2 ^ 30"
  shows "(validateListenAddr quote service_port (join_host_port h (dec_nat n)) = None \<longleftrightarrow>
      (n div 10 * 10) mod 2 ^ 32 + n mod 10 \<le> 65535) \<and>
    (n < 2 ^ 32 \<longrightarrow>
      (validateListenAddr quote service_port (join_host_port h (dec_nat n)) = None \<longleftrightarrow> n \<le> 65535))"
proof -
  have "SplitHostPort (join_host_port h (dec_nat n)) = Inr (h, dec_nat n)"
    using split_bracketed [OF assms(1) dec_nat_plain] split_plain [OF _ dec_nat_plain] assms(1)
    by (auto simp: join_host_port_def plain_host_def bracket_host_def)
  from validate_number [OF this assms(2)] show ?thesis
    using wrapped_port_small [of n] by (simp add: wrapped_port_def)
qed

theorem numeric_port_accepted_iff_witness:
  "validateListenAddr (\<lambda>t. t) (\<lambda>_. Inl []) (join_host_port ''::1'' (dec_nat 8080)) = None \<and>
   validateListenAddr (\<lambda>t. t) (\<lambda>_. Inl []) (join_host_port [] (dec_nat 65536)) \<noteq> None \<and>
   validateListenAddr (\<lambda>t. t) (\<lambda>_. Inl []) (join_host_port [] (dec_nat 4294967376)) = None"
  using numeric_port_accepted_iff [of "''::1''" 8080 "\<lambda>t. t" "\<lambda>_. Inl []"]
    numeric_port_accepted_iff [of "[]" 65536 "\<lambda>t. t" "\<lambda>_. Inl []"]
    numeric_port_accepted_iff [of "[]" 4294967376 "\<lambda>t. t" "\<lambda>_. Inl []"]
  by (simp add: bracket_host_def)

text \<open>The defaults: with the scheme and host of the default URL, they pass.\<close>

lemma default_listen_addrs:
  "good_listen ce (cf_ListenAddr DefaultConfig)"
  "good_listen ce (cf_MetricsListenAddr DefaultConfig)"
proof -
  have d: "dec_nat 8080 = ''8080''" "dec_nat 9090 = ''9090''"
    by (simp_all add: dec_nat.simps digit_char_def char_of_eq_iff)
  show "good_listen ce (cf_ListenAddr DefaultConfig)"
    using validate_number [OF split_plain [OF _ dec_nat_plain [of 8080]], of "[]"]
    by (simp add: good_listen_def DefaultConfig_def d plain_host_def wrapped_port_def)
  show "good_listen ce (cf_MetricsListenAddr DefaultConfig)"
    using validate_number [OF split_plain [OF _ dec_nat_plain [of 9090]], of "''127.0.0.1''"]
    by (simp add: good_listen_def DefaultConfig_def d plain_host_def wrapped_port_def)
qed

lemma default_config_valid:
  assumes "good_url ce (cf_BridgeURL DefaultConfig)"
  shows "Validate ce DefaultConfig = None"
  using assms default_listen_addrs [of ce]
  by (simp add: validate_none_iff DefaultConfig_def)

end
