(* ===== verification/Gateway.thy ===== *)
theory Gateway
  imports Server Config
begin

text \<open>
  \<open>cmd/gateway/main.go\<close>, the wiring: \<open>run\<close> up to the start of the listeners, the public and the
  metrics router, and the health handler.
\<close>

subsection \<open>Wiring\<close>

record http_Server =
  srv_Addr :: bytes
  srv_ReadHeaderTimeout :: int
  srv_ReadTimeout :: int
  srv_WriteTimeout :: int
  srv_IdleTimeout :: int

record ('l, 'b) gateway =
  gw_client :: Client
  gw_handlers :: "('l, 'b) handlers"
  gw_shared :: "('l, 'b, Source) shared"
  gw_srv :: http_Server
  gw_metricsSrv :: http_Server

definition second :: int where
  "second = 1000000000"

definition start_entry :: "bytes \<Rightarrow> Config \<Rightarrow> log_entry" where
  "start_entry version cfg =
     \<lparr>le_level = LInfo, le_msg = ''gateway starting'',
      le_attrs =
        [(''version'', AText version), (''listen_addr'', AText (cf_ListenAddr cfg)),
         (''metrics_listen_addr'', AText (cf_MetricsListenAddr cfg)),
         (''bridge_url'', AText (cf_BridgeURL cfg)), (''default_model'', AText (cf_DefaultModel cfg)),
         (''rate_limit_per_min'', ANum (cf_RateLimitPerMin cfg)),
         (''audit_log_query'', ABool (cf_AuditLogQuery cfg))]\<rparr>"

text \<open>
  Everything that \<open>run\<close> builds from a checked configuration. Configuration and bridge client
  parse URLs with the same function; \<open>stdout\<close> says which writes of the audit log fail.
\<close>

definition wire_up ::
  "config_env \<Rightarrow> codec \<Rightarrow> net_env \<Rightarrow> ('l, 'b) runtime \<Rightarrow> (nat \<Rightarrow> (nat \<times> bytes) option) \<Rightarrow> log_entry list \<Rightarrow> Config
   \<Rightarrow> bytes + ('l, 'b) gateway" where
  "wire_up ce cd env rt stdout logs cfg =
     (case BridgeClient.New cd (env\<lparr>ne_parse := ce_parse_url ce\<rparr>) (cf_BridgeURL cfg)
             [WithHTTPClient (Some \<lparr>hc_Timeout = cf_RequestTimeout cfg,
                                    hc_CheckRedirect = DefaultRedirects\<rparr>)] of
        Inl e \<Rightarrow> Inl (''bridge client: '' @ e)
      | Inr bc \<Rightarrow>
          (case Server.New rt cd logs
                  \<lparr>op_Bridge = Some (client_ops cd (env\<lparr>ne_parse := ce_parse_url ce\<rparr>) bc),
                   op_AuthValidator = Some (NewSource (cf_AuthTokenFile cfg)),
                   op_DefaultModel = cf_DefaultModel cfg,
                   op_MaxRequestBytes = cf_MaxRequestBytes cfg,
                   op_Logger = Some logs,
                   op_Audit = Some (NewLogger stdout (cf_AuditLogQuery cfg)),
                   op_RateLimiter = Some (RateLimit.New (rtm_lib rt) (cf_RateLimitPerMin cfg)),
                   op_Metrics = Some NewRegistry,
                   op_RequestTimeout = cf_RequestTimeout cfg\<rparr> of
             Inl e \<Rightarrow> Inl (''server.New: '' @ e)
           | Inr (h, sh) \<Rightarrow>
               Inr \<lparr>gw_client = bc, gw_handlers = h, gw_shared = sh,
                    gw_srv =
                      \<lparr>srv_Addr = cf_ListenAddr cfg, srv_ReadHeaderTimeout = 10 * second,
                       srv_ReadTimeout = cf_RequestTimeout cfg, srv_WriteTimeout = 0,
                       srv_IdleTimeout = 120 * second\<rparr>,
                    gw_metricsSrv =
                      \<lparr>srv_Addr = cf_MetricsListenAddr cfg, srv_ReadHeaderTimeout = 10 * second,
                       srv_ReadTimeout = 10 * second, srv_WriteTimeout = 30 * second,
                       srv_IdleTimeout = 120 * second\<rparr>\<rparr>))"

definition start_gateway ::
  "config_env \<Rightarrow> codec \<Rightarrow> net_env \<Rightarrow> ('l, 'b) runtime \<Rightarrow> (nat \<Rightarrow> (nat \<times> bytes) option) \<Rightarrow> bytes
   \<Rightarrow> bytes + ('l, 'b) gateway" where
  "start_gateway ce cd env rt stdout version =
     (case Load ce (Some (ce_os ce)) of
        (cfg, Some e) \<Rightarrow> Inl (''load config: '' @ e)
      | (cfg, None) \<Rightarrow>
          (case Config.Validate ce cfg of
             Some e \<Rightarrow> Inl (''validate config: '' @ e)
           | None \<Rightarrow> wire_up ce cd env rt stdout [start_entry version cfg] cfg))"

text \<open>C29: a configuration that passes its checks wires up: neither the bridge client nor the server
  refuses it, so the process fails to start only with a message about loading or checking the
  configuration; and what is built refuses redirects, bounds bodies and timeouts by positive
  numbers, has a default model, and never cuts a stream by a write timeout.\<close>

theorem checked_config_wires_up:
  assumes "Config.Validate ce cfg = None"
  shows "\<exists>gw. wire_up ce cd env rt stdout logs cfg = Inr gw \<and>
    hc_CheckRedirect (cl_hc (gw_client gw)) = UseLastResponse \<and>
    hc_CheckRedirect (cl_streamHC (gw_client gw)) = UseLastResponse \<and>
    hc_Timeout (cl_hc (gw_client gw)) = cf_RequestTimeout cfg \<and> 0 < cf_RequestTimeout cfg \<and>
    hc_Timeout (cl_streamHC (gw_client gw)) = 0 \<and> srv_WriteTimeout (gw_srv gw) = 0 \<and>
    h_defaultModel (gw_handlers gw) \<noteq> [] \<and> 0 < h_maxRequestBytes (gw_handlers gw) \<and>
    sh_auth (gw_shared gw) = NewSource (cf_AuthTokenFile cfg) \<and>
    LogQueryEnabled (sh_audit (gw_shared gw)) = cf_AuditLogQuery cfg"
proof -
  have ok: "good_url ce (cf_BridgeURL cfg)" "cf_DefaultModel cfg \<noteq> []" "0 < cf_RequestTimeout cfg"
    "0 < cf_MaxRequestBytes cfg"
    using assms by (simp_all add: validate_none_iff)
  then obtain u where u: "ce_parse_url ce (cf_BridgeURL cfg) = Inr u"
    "u_Scheme u = ''http'' \<or> u_Scheme u = ''https''" "u_Host u \<noteq> []"
    by (auto simp: good_url_def split: sum.splits)
  show ?thesis
    using ok(2-) u
    by (simp add: wire_up_def BridgeClient.New_def Server.New_def Let_def refuseRedirects_def
        LogQueryEnabled_def NewLogger_def)
qed

subsection \<open>The health handler and the routers\<close>

definition healthHandler ::
  "bytes \<Rightarrow> Conn \<Rightarrow> ('l, 'b, 'v) shared \<Rightarrow> Conn \<times> ('l, 'b, 'v) shared" where
  "healthHandler version c0 sh =
     (let body = encode (HealthResponse_json \<lparr>hr_Status = ''ok'', hr_Version = version\<rparr>);
          c1 = conn_set_header ''Content-Type'' ''application/json'' c0;
          c2 = conn_write_header 200 c1;
          (ok, c3) = conn_write body c2
      in (c3, if ok then sh
              else log_at LWarn ''write health response'' [(''err'', AText ''write failed'')] sh))"

datatype public_route = HealthRoute | ApiRoute

definition newMux :: "(pattern \<times> public_route) list" where
  "newMux = [((Some ''GET'', ''/v1/health''), HealthRoute), ((None, ''/v1/''), ApiRoute)]"

definition public_serve :: "bytes \<Rightarrow> ('l, 'b) handlers \<Rightarrow> ('l, 'b) api_handler" where
  "public_serve version h env r c sh =
     mux_serve
       (\<lambda>k. case k of HealthRoute \<Rightarrow> healthHandler version c sh | ApiRoute \<Rightarrow> api_serve h env r c sh)
       (\<lambda>f. (f c, sh)) newMux r"

text \<open>The metrics listener: \<open>render\<close> is the Prometheus library's handler on the registry.\<close>

definition newMetricsMux :: "(pattern \<times> unit) list" where
  "newMetricsMux = [((Some ''GET'', ''/metrics''), ())]"

definition metrics_serve ::
  "(Registry \<Rightarrow> Request \<Rightarrow> Conn \<Rightarrow> Conn) \<Rightarrow> Registry \<Rightarrow> Request \<Rightarrow> Conn \<Rightarrow> Conn" where
  "metrics_serve render reg r c = mux_serve (\<lambda>_. render reg r c) (\<lambda>f. f c) newMetricsMux r"

subsection \<open>Health\<close>

lemma newMux_match:
  "mux_match newMux m path =
     (if path = ''/v1/health'' \<and> m \<in> {''GET'', ''HEAD''}
      then Some ((Some ''GET'', ''/v1/health''), HealthRoute)
      else if has_prefix path ''/v1/'' then Some ((None, ''/v1/''), ApiRoute) else None)"
  by (auto simp: newMux_def pattern_matches_def method_matches_def path_matches_def)

definition is_health :: "Request \<Rightarrow> bool" where
  "is_health r \<longleftrightarrow> rq_Path r = ''/v1/health'' \<and> rq_Method r \<in> {''GET'', ''HEAD''}"

text \<open>The liveness endpoint depends on nothing: whatever the token file, the bridge, the limiter
  and the request's headers are, \<open>GET /v1/health\<close> is answered with 200 and the same document,
  and leaves the shared state alone.\<close>

theorem health_depends_on_nothing:
  assumes "rq_Path r = ''/v1/health''" and "rq_Method r = ''GET''"
  shows "snd (public_serve version h env r (new_conn b (\<lambda>_. None)) sh) = sh \<and>
    (\<exists>hdr. c_sent (fst (public_serve version h env r (new_conn b (\<lambda>_. None)) sh)) = Some (200, hdr) \<and>
       hdr ''Content-Type'' = Some ''application/json'') \<and>
    c_body (fst (public_serve version h env r (new_conn b (\<lambda>_. None)) sh)) =
      encode (HealthResponse_json \<lparr>hr_Status = ''ok'', hr_Version = version\<rparr>)"
  using assms
  by (simp add: public_serve_def mux_serve_def Let_def newMux_match healthHandler_def new_conn_def
      split_beta writer_simps)

text \<open>C1: nothing of the gateway but liveness is open: every other request on the public listener
  without a well-formed bearer token, for any path and any method, gets a 307, 401, 404 or 405,
  leaves the audit log, the rate-limit buckets and the token source as they were, and has the
  same outcome whatever the bridge would do.\<close>

theorem only_health_is_open:
  assumes "extractBearer (header_get r ''Authorization'') = Inl e" and "\<not> is_health r"
  shows "(\<exists>code hdr. c_sent (fst (public_serve version h env r (new_conn b fault) sh)) = Some (code, hdr) \<and>
      code \<in> {307, 401, 404, 405}) \<and>
    sh_audit (snd (public_serve version h env r (new_conn b fault) sh)) = sh_audit sh \<and>
    sh_limiter (snd (public_serve version h env r (new_conn b fault) sh)) = sh_limiter sh \<and>
    sh_auth (snd (public_serve version h env r (new_conn b fault) sh)) = sh_auth sh \<and>
    public_serve version (h\<lparr>h_bridge := ops\<rparr>) env r (new_conn b fault) sh =
      public_serve version h env r (new_conn b fault) sh"
proof (cases "has_prefix (rq_Path r) ''/v1/''")
  case True
  have sent: "c_sent (new_conn b fault) = None" by (rule new_conn_unsent)
  have api: "public_serve version g env r (new_conn b fault) sh = api_serve g env r (new_conn b fault) sh"
    for g :: "('a, 'b) handlers"
    using True assms(2) by (auto simp: public_serve_def mux_serve_def Let_def newMux_match is_health_def)
  have "\<exists>code hdr. c_sent (fst (api_serve h env r (new_conn b fault) sh)) = Some (code, hdr) \<and>
      code \<in> {307, 401, 404, 405}"
  proof (cases "mux_match (api_routes h) (rq_Method r) (rq_Path r)")
    case None
    then show ?thesis
      by (auto simp: api_serve_unrouted http_NotFound_def http_Error_def new_conn_def writer_simps
          split: list.split)
  next
    case (Some x)
    then show ?thesis using unauthenticated_api_status [OF assms(1) sent Some] by blast
  qed
  then show ?thesis using unauthenticated_api_request [OF assms(1) sent] unfolding api by blast
next
  case False
  have unhealthy: "mux_match newMux (rq_Method r) (rq_Path r) = None"
    using False assms(2) by (auto simp: newMux_match is_health_def)
  have direct: "\<exists>f code hdr. \<forall>g :: ('a, 'b) handlers.
      public_serve version g env r (new_conn b fault) sh = (f (new_conn b fault), sh) \<and>
      c_sent (f (new_conn b fault)) = Some (code, hdr) \<and> code \<in> {307, 401, 404, 405}"
    using unhealthy
    by (auto simp: public_serve_def mux_serve_def Let_def new_conn_def http_NotFound_def http_Error_def
        mux_redirect_def writer_simps split: option.split list.split prod.split)
  then show ?thesis by (elim exE) (simp only: fst_conv snd_conv; blast)
qed

subsection \<open>Concrete instances\<close>

definition sample_config_env :: config_env where
  "sample_config_env =
     \<lparr>ce_os = (\<lambda>_. None),
      ce_parse_url = (\<lambda>_. Inr \<lparr>u_Scheme = ''http'', u_Host = ''ollama-mcp-bridge:8000'', u_Path = [],
                             u_RawPath = []\<rparr>),
      ce_parse_duration = (\<lambda>_. Inl ''time: invalid duration''), ce_duration_text = (\<lambda>_. ''2m0s''),
      ce_service_port = (\<lambda>_. Inl ''unknown port''), ce_quote = (\<lambda>t. t)\<rparr>"

lemma sample_default_valid: "Config.Validate sample_config_env DefaultConfig = None"
  by (rule default_config_valid) (simp add: good_url_def sample_config_env_def)

theorem checked_config_wires_up_witness:
  "\<exists>gw. wire_up sample_config_env plain_codec redirecting_env sample_runtime (\<lambda>_. None) [] DefaultConfig
     = Inr gw"
  using checked_config_wires_up [OF sample_default_valid] by blast

theorem health_depends_on_nothing_witness:
  "snd (public_serve ''v1'' sample_handlers sample_env ((plain_request [])\<lparr>rq_Path := ''/v1/health''\<rparr>)
     (new_conn True (\<lambda>_. None)) sample_shared) = sample_shared"
  by (rule health_depends_on_nothing [THEN conjunct1]) (simp_all add: plain_request_def)

theorem only_health_is_open_witness:
  "\<exists>code hdr. c_sent (fst (public_serve ''v1'' sample_handlers sample_env (plain_request ''Basic x'')
     (new_conn True (\<lambda>_. None)) sample_shared)) = Some (code, hdr) \<and> code \<in> {307, 401, 404, 405}"
  using only_health_is_open [OF basic_scheme_rejected, of "''v1''" sample_handlers sample_env True
      "\<lambda>_. None" sample_shared sample_bridge]
  by (simp add: is_health_def plain_request_def)

end
