(* ===== verification/Interleave.thy ===== *)
theory Interleave
  imports ServerState "HOL-Library.Multiset"
begin

text \<open>
  Requests are served concurrently, each by a goroutine of its own, on the shared state. This theory
  is the frame for that: a goroutine as a program of atomic accesses to the shared state with a
  continuation for each reply, a pool of such programs, and one step of one of them at a time.
  The grain is that of the code: a read of the clock, one operation on a metric, one line of the
  log, one write of the audit log, one decision of the limiter and each section of \<open>Validate\<close> under
  its lock are atomic; \<open>AuditTrail\<close> and \<open>RateLimitConc\<close> show that the write and the decision may be
  taken as such, in the order of the lock and of the buckets.
  What a goroutine does to its own connection needs no step.
\<close>

subsection \<open>Programs\<close>

datatype metric_call =
    CallInc family "bytes list"
  | CallAdd family "bytes list" int
  | CallGaugeInc family
  | CallGaugeDec family
  | CallObserve family "bytes list" int int

fun apply_call :: "metric_call \<Rightarrow> Registry \<Rightarrow> Registry" where
  "apply_call (CallInc f ls) = Counter_Inc f ls"
| "apply_call (CallAdd f ls d) = Counter_Add f ls d"
| "apply_call (CallGaugeInc f) = Gauge_Inc f"
| "apply_call (CallGaugeDec f) = Gauge_Dec f"
| "apply_call (CallObserve f ls n d) = Histogram_Observe f ls n d"

datatype action =
    ANow
  | AMetric metric_call
  | ASlog log_level bytes "(bytes \<times> attr) list"
  | AAudit bytes Event
  | ACapture
  | AAllow int bytes
  | ARate
  | AStatFailed bytes
  | AUnchanged file_stamp
  | AReload file_stamp "bytes + bytes"
  | AToken

datatype reply =
    RUnit
  | RTime (time_of: int)
  | RWritten (error_of: "bytes option")
  | RFlag (flag_of: bool)
  | RRate (rate_of: int)
  | RVerdict (verdict_of: "auth_error option")
  | RToken (token_read: bytes)

datatype 'a prog = Done 'a | Do action "reply \<Rightarrow> 'a prog"

fun exec ::
  "('l, 'b) runtime \<Rightarrow> action \<Rightarrow> ('l, 'b, Source) shared \<Rightarrow> reply \<times> ('l, 'b, Source) shared" where
  "exec rt ANow s = (case time_now rt s of (t, s') \<Rightarrow> (RTime t, s'))"
| "exec rt (AMetric c) s = (RUnit, on_metrics (apply_call c) s)"
| "exec rt (ASlog lv msg attrs) s = (RUnit, log_at lv msg attrs s)"
| "exec rt (AAudit now e) s =
     (case Log now e (sh_audit s) of (err, l) \<Rightarrow> (RWritten err, s\<lparr>sh_audit := l\<rparr>))"
| "exec rt ACapture s = (RFlag (LogQueryEnabled (sh_audit s)), s)"
| "exec rt (AAllow now c) s =
     (case Allow (rtm_lib rt) now c (sh_limiter s) of (ok, l) \<Rightarrow> (RFlag ok, s\<lparr>sh_limiter := l\<rparr>))"
| "exec rt ARate s = (RRate (PerMinute (sh_limiter s)), s)"
| "exec rt (AStatFailed e) s = (RVerdict (stat_failed (sh_auth s) e), s)"
| "exec rt (AUnchanged info) s = (RFlag (unchanged (sh_auth s) info), s)"
| "exec rt (AReload info rd) s =
     (case reload_locked info rd (sh_auth s) of (v, a) \<Rightarrow> (RVerdict v, s\<lparr>sh_auth := a\<rparr>))"
| "exec rt AToken s = (RToken (src_token (sh_auth s)), s)"

text \<open>A program on its own, and one after the other.\<close>

primrec run ::
  "('l, 'b) runtime \<Rightarrow> 'a prog \<Rightarrow> ('l, 'b, Source) shared \<Rightarrow> 'a \<times> ('l, 'b, Source) shared" where
  "run rt (Done x) s = (x, s)"
| "run rt (Do act k) s = run rt (k (fst (exec rt act s))) (snd (exec rt act s))"

primrec bind :: "'a prog \<Rightarrow> ('a \<Rightarrow> 'b prog) \<Rightarrow> 'b prog" where
  "bind (Done x) q = q x"
| "bind (Do act k) q = Do act (\<lambda>r. bind (k r) q)"

lemma run_bind: "run rt (bind p q) s = (case run rt p s of (x, s') \<Rightarrow> run rt (q x) s')"
  by (induction p arbitrary: s) simp_all

subsection \<open>Paths\<close>

text \<open>
  The replies that an action can have in some state; a validator's error that is none of the two
  declared ones never comes from \<open>Source\<close>.
\<close>

definition declared :: "auth_error option \<Rightarrow> bool" where
  "declared v \<longleftrightarrow> (\<forall>t. v \<noteq> Some (OtherError t))"

fun fits :: "action \<Rightarrow> reply \<Rightarrow> bool" where
  "fits ANow r = (\<exists>t. r = RTime t)"
| "fits (AMetric c) r = (r = RUnit)"
| "fits (ASlog lv msg attrs) r = (r = RUnit)"
| "fits (AAudit now e) r = (\<exists>err. r = RWritten err)"
| "fits ACapture r = (\<exists>b. r = RFlag b)"
| "fits (AAllow now c) r = (\<exists>b. r = RFlag b)"
| "fits ARate r = (\<exists>n. r = RRate n)"
| "fits (AStatFailed e) r = (\<exists>v. r = RVerdict v \<and> declared v)"
| "fits (AUnchanged info) r = (\<exists>b. r = RFlag b)"
| "fits (AReload info rd) r = (\<exists>v. r = RVerdict v \<and> declared v)"
| "fits AToken r = (\<exists>t. r = RToken t)"

lemma declared_errors:
  "declared None" "declared (stat_failed src e)" "declared (fst (reload_locked info rd src))"
  "declared (compare_token c t)"
  by (auto simp: declared_def stat_failed_def reload_locked_def compare_token_def split: sum.split)

lemma exec_fits: "fits act (fst (exec rt act s))"
  by (cases act) (simp_all add: split_beta declared_errors)

type_synonym trace = "(action \<times> reply) list"

inductive prog_path :: "'a prog \<Rightarrow> trace \<Rightarrow> 'a prog \<Rightarrow> bool" where
  nothing: "prog_path p [] p"
| action: "fits act r \<Longrightarrow> prog_path (k r) t q \<Longrightarrow> prog_path (Do act k) ((act, r) # t) q"

inductive_simps prog_path_Nil [simp]: "prog_path p [] q"
inductive_simps prog_path_Cons: "prog_path p (a # t) q"
inductive_simps prog_path_Done [simp]: "prog_path (Done x) t q"

lemma prog_path_extend:
  "prog_path p t (Do act k) \<Longrightarrow> fits act r \<Longrightarrow> prog_path p (t @ [(act, r)]) (k r)"
  by (induction p t "Do act k" rule: prog_path.induct) (auto intro: prog_path.intros)

text \<open>\<open>on_paths p Q\<close>: every complete path of \<open>p\<close> and its result are in \<open>Q\<close>.\<close>

primrec on_paths :: "'a prog \<Rightarrow> (trace \<Rightarrow> 'a \<Rightarrow> bool) \<Rightarrow> bool" where
  "on_paths (Done x) Q = Q [] x"
| "on_paths (Do act k) Q = (\<forall>r. fits act r \<longrightarrow> on_paths (k r) (\<lambda>t. Q ((act, r) # t)))"

lemma on_paths_mono:
  assumes "on_paths p Q" and "\<And>t x. Q t x \<Longrightarrow> R t x"
  shows "on_paths p R"
  using assms
proof (induction p arbitrary: Q R)
  case (Do act k)
  show ?case
  proof (simp, intro allI impI)
    fix r assume "fits act r"
    then have "on_paths (k r) (\<lambda>t. Q ((act, r) # t))" using Do.prems(1) by simp
    then show "on_paths (k r) (\<lambda>t. R ((act, r) # t))"
      by (rule Do.IH [OF rangeI]) (rule Do.prems(2))
  qed
qed simp

lemma on_paths_bind: "on_paths (bind p q) Q = on_paths p (\<lambda>t x. on_paths (q x) (\<lambda>u. Q (t @ u)))"
  by (induction p arbitrary: Q) simp_all

lemma on_paths_path: "prog_path p t q \<Longrightarrow> on_paths p Q \<Longrightarrow> on_paths q (\<lambda>u. Q (t @ u))"
  by (induction arbitrary: Q rule: prog_path.induct) auto

lemma on_paths_conj: "on_paths p (\<lambda>t x. Q t x \<and> R t x) \<longleftrightarrow> on_paths p Q \<and> on_paths p R"
  by (induction p arbitrary: Q R) auto

text \<open>Every program has a complete path.\<close>

lemma fits_some: "\<exists>r. fits act r"
  by (cases act) (auto intro: exI [of declared None] simp: declared_errors)

lemma some_prog_path: "\<exists>t x. prog_path p t (Done x)"
proof (induction p)
  case (Do act k)
  obtain r where "fits act r" using fits_some by blast
  moreover obtain t x where "prog_path (k r) t (Done x)" using Do by blast
  ultimately show ?case using prog_path.action by blast
qed (use prog_path.nothing in blast)

lemma on_paths_some: "on_paths p Q \<Longrightarrow> \<exists>t x. Q t x"
  using some_prog_path [of p] on_paths_path [of p _ "Done _" Q] by fastforce

subsection \<open>A pool of programs\<close>

text \<open>
  A goroutine that is \<open>Done\<close> has answered. \<open>po_trace\<close> has all accesses so far, with the goroutine
  that made them and the reply it got.
\<close>

record ('l, 'b, 'a) pool =
  po_progs :: "'a prog list"
  po_shared :: "('l, 'b, Source) shared"
  po_trace :: "(nat \<times> action \<times> reply) list"

definition start_pool :: "'a prog list \<Rightarrow> ('l, 'b, Source) shared \<Rightarrow> ('l, 'b, 'a) pool" where
  "start_pool ps sh = \<lparr>po_progs = ps, po_shared = sh, po_trace = []\<rparr>"

inductive pool_step :: "('l, 'b) runtime \<Rightarrow> ('l, 'b, 'a) pool \<Rightarrow> ('l, 'b, 'a) pool \<Rightarrow> bool" for rt where
  access:
    "i < length (po_progs s) \<Longrightarrow> po_progs s ! i = Do act k \<Longrightarrow> exec rt act (po_shared s) = (r, sh) \<Longrightarrow>
     pool_step rt s
       (s\<lparr>po_progs := (po_progs s)[i := k r], po_shared := sh,
          po_trace := po_trace s @ [(i, act, r)]\<rparr>)"

inductive pool_steps :: "('l, 'b) runtime \<Rightarrow> ('l, 'b, 'a) pool \<Rightarrow> ('l, 'b, 'a) pool \<Rightarrow> bool" for rt where
  pool_start: "pool_steps rt s s"
| pool_more: "pool_steps rt s t \<Longrightarrow> pool_step rt t u \<Longrightarrow> pool_steps rt s u"

inductive_cases pool_stepE: "pool_step rt s t"

definition all_answered :: "('l, 'b, 'a) pool \<Rightarrow> bool" where
  "all_answered s \<longleftrightarrow> (\<forall>p \<in> set (po_progs s). \<exists>x. p = Done x)"

definition mine :: "nat \<Rightarrow> (nat \<times> action \<times> reply) list \<Rightarrow> trace" where
  "mine i tr = map snd (filter (\<lambda>x. fst x = i) tr)"

lemma mine_append [simp]: "mine i (tr @ tr') = mine i tr @ mine i tr'"
  and mine_Nil [simp]: "mine i [] = []"
  and mine_Cons [simp]: "mine i (x # tr) = (if fst x = i then [snd x] else []) @ mine i tr"
  by (simp_all add: mine_def)

definition replay ::
  "('l, 'b) runtime \<Rightarrow> (nat \<times> action \<times> reply) list \<Rightarrow> ('l, 'b, Source) shared
   \<Rightarrow> ('l, 'b, Source) shared" where
  "replay rt tr s = fold (\<lambda>(i, act, r) s. snd (exec rt act s)) tr s"

text \<open>
  What an execution is: every goroutine has followed a path of its program, by the accesses that
  are its own, and the shared state is the accesses of all of them one after the other.
\<close>

definition pool_inv :: "('l, 'b) runtime \<Rightarrow> 'a prog list \<Rightarrow> ('l, 'b, Source) shared
    \<Rightarrow> ('l, 'b, 'a) pool \<Rightarrow> bool" where
  "pool_inv rt ps sh s \<longleftrightarrow>
     length (po_progs s) = length ps \<and>
     (\<forall>i < length ps. prog_path (ps ! i) (mine i (po_trace s)) (po_progs s ! i)) \<and>
     (\<forall>x \<in> set (po_trace s). fst x < length ps) \<and>
     po_shared s = replay rt (po_trace s) sh"

lemma pool_inv_step: "pool_step rt s t \<Longrightarrow> pool_inv rt ps sh s \<Longrightarrow> pool_inv rt ps sh t"
proof (induction rule: pool_step.induct)
  case (access i s act k r sh')
  have "fits act r" using exec_fits [of act rt "po_shared s"] access(3) by simp
  moreover have "prog_path (ps ! i) (mine i (po_trace s)) (Do act k)"
    using access(1,2,4) by (auto simp: pool_inv_def)
  ultimately have "prog_path (ps ! i) (mine i (po_trace s) @ [(act, r)]) (k r)" by (simp add: prog_path_extend)
  then show ?case
    using access by (auto simp: pool_inv_def replay_def nth_list_update)
qed

lemma pool_inv_steps: "pool_steps rt s t \<Longrightarrow> pool_inv rt ps sh s \<Longrightarrow> pool_inv rt ps sh t"
  by (induction rule: pool_steps.induct) (auto intro: pool_inv_step)

lemma execution_inv:
  assumes "pool_steps rt (start_pool ps sh) s" shows "pool_inv rt ps sh s"
  by (rule pool_inv_steps [OF assms]) (simp add: pool_inv_def start_pool_def replay_def)

text \<open>A goroutine that has answered has done so by a complete path.\<close>

lemma answered_on_paths:
  assumes "pool_steps rt (start_pool ps sh) s" and "i < length ps" and "po_progs s ! i = Done x"
    and "on_paths (ps ! i) Q"
  shows "Q (mine i (po_trace s)) x"
proof -
  have "prog_path (ps ! i) (mine i (po_trace s)) (Done x)"
    using execution_inv [OF assms(1)] assms(2,3) by (auto simp: pool_inv_def)
  from on_paths_path [OF this assms(4)] show ?thesis by simp
qed

text \<open>One that has not has a path on which it would.\<close>

lemma unanswered_on_paths:
  assumes "pool_steps rt (start_pool ps sh) s" and "i < length ps" and "on_paths (ps ! i) Q"
  shows "\<exists>u x. Q (mine i (po_trace s) @ u) x"
proof -
  have "prog_path (ps ! i) (mine i (po_trace s)) (po_progs s ! i)"
    using execution_inv [OF assms(1)] assms(2) by (simp add: pool_inv_def)
  from on_paths_some [OF on_paths_path [OF this assms(3)]] show ?thesis .
qed

subsection \<open>Every execution ends\<close>

text \<open>A step replaces a program by one of its continuations, a smaller datatype value.\<close>

definition continues :: "('a prog \<times> 'a prog) set" where
  "continues = {(k r, Do act k) | act k r. True}"

lemma wf_continues: "wf (continues :: ('a prog \<times> 'a prog) set)"
proof (rule wfUNIVI)
  fix P :: "'a prog \<Rightarrow> bool" and p
  assume "\<forall>x. (\<forall>y. (y, x) \<in> continues \<longrightarrow> P y) \<longrightarrow> P x"
  then have step: "(\<And>y. (y, x) \<in> continues \<Longrightarrow> P y) \<Longrightarrow> P x" for x by blast
  show "P p" by (induction p) (rule step, auto simp: continues_def)+
qed

lemma pool_step_decreases:
  "pool_step rt s t \<Longrightarrow> (mset (po_progs t), mset (po_progs s)) \<in> mult continues"
proof (induction rule: pool_step.induct)
  case (access i s act k r sh)
  let ?rest = "mset (po_progs s) - {#Do act k#}"
  have "Do act k \<in># mset (po_progs s)" using access(1,2) by (metis nth_mem_mset)
  then have old: "mset (po_progs s) = ?rest + {#Do act k#}" by simp
  have new: "mset ((po_progs s)[i := k r]) = ?rest + {#k r#}"
    using access(1,2) by (simp add: mset_update)
  have "(?rest + {#k r#}, ?rest + {#Do act k#}) \<in> mult continues"
    by (rule one_step_implies_mult) (auto simp: continues_def)
  then show ?case using old new by simp
qed

lemma wf_pool_step: "wfP (\<lambda>t s. pool_step rt s t)"
proof -
  have "wf (inv_image (mult continues) (\<lambda>s. mset (po_progs s)))"
    by (intro wf_inv_image wf_mult wf_continues)
  then have "wf {(t, s). pool_step rt s t}"
    by (rule wf_subset) (auto dest: pool_step_decreases)
  then show ?thesis by (simp add: wfp_def)
qed

text \<open>And it ends only when everyone has been answered: no access ever waits for another goroutine.\<close>

lemma pool_progress:
  assumes "\<not> all_answered s" shows "\<exists>t. pool_step rt s t"
proof -
  obtain i where i: "i < length (po_progs s)" "\<nexists>x. po_progs s ! i = Done x"
    using assms by (auto simp: all_answered_def in_set_conv_nth)
  then obtain act k where "po_progs s ! i = Do act k" by (metis prog.exhaust)
  then show ?thesis using pool_step.access [OF i(1)] by (metis prod.exhaust)
qed

subsection \<open>What the accesses add up to\<close>

text \<open>Values of metrics are sums over the trace.\<close>

definition metric_effect :: "family \<Rightarrow> bytes list \<Rightarrow> action \<Rightarrow> int" where
  "metric_effect f ls act =
     (case act of AMetric c \<Rightarrow> metric_value f ls (apply_call c NewRegistry) | _ \<Rightarrow> 0)"

definition tally :: "family \<Rightarrow> bytes list \<Rightarrow> trace \<Rightarrow> int" where
  "tally f ls t = (\<Sum>x \<leftarrow> t. metric_effect f ls (fst x))"

lemma apply_call_value:
  "metric_value f ls (apply_call c m) = metric_value f ls m + metric_value f ls (apply_call c NewRegistry)"
  by (cases c)
    (simp_all add: metric_op_defs metric_simps, simp_all add: NewRegistry_def metric_value_def)

lemma exec_value:
  "metric_value f ls (sh_metrics (snd (exec rt act s))) =
     metric_value f ls (sh_metrics s) + metric_effect f ls act"
proof (cases act)
  case (AMetric c)
  then show ?thesis by (simp add: frame_simps metric_effect_def apply_call_value [of f ls c "sh_metrics s"])
qed (simp_all add: metric_effect_def frame_simps split_beta)

lemma replay_value:
  "metric_value f ls (sh_metrics (replay rt tr s)) =
     metric_value f ls (sh_metrics s) + tally f ls (map snd tr)"
  by (induction tr arbitrary: s) (simp_all add: replay_def tally_def exec_value split_beta)

lemma tally_append [simp]: "tally f ls (t @ u) = tally f ls t + tally f ls u"
  and tally_Nil [simp]: "tally f ls [] = 0"
  and tally_Cons [simp]: "tally f ls (x # t) = metric_effect f ls (fst x) + tally f ls t"
  by (simp_all add: tally_def)

lemma sum_if_index: "i < (n::nat) \<Longrightarrow> (\<Sum>j < n. if i = j then c else (0::int)) = c"
  by simp

lemma tally_mine:
  "\<forall>x \<in> set tr. fst x < n \<Longrightarrow> tally f ls (map snd tr) = (\<Sum>i < n. tally f ls (mine i tr))"
proof (induction tr)
  case (Cons x tr)
  have "(\<Sum>i < n. tally f ls (mine i (x # tr))) =
      (\<Sum>i < n. (if fst x = i then metric_effect f ls (fst (snd x)) else 0) + tally f ls (mine i tr))"
    by (intro sum.cong) auto
  then show ?case using Cons by (simp add: sum.distrib)
qed simp

lemma execution_value:
  assumes "pool_steps rt (start_pool ps sh) s"
  shows "metric_value f ls (sh_metrics (po_shared s)) =
    metric_value f ls (sh_metrics sh) + (\<Sum>i < length ps. tally f ls (mine i (po_trace s)))"
  using execution_inv [OF assms] by (simp add: pool_inv_def replay_value tally_mine)

text \<open>The audit log is what was written, in the order in which it was.\<close>

fun events_of :: "trace \<Rightarrow> (bytes \<times> Event) list" where
  "events_of [] = []"
| "events_of ((AAudit now e, r) # t) = (now, e) # events_of t"
| "events_of (x # t) = events_of t"

lemma events_of_append [simp]: "events_of (t @ u) = events_of t @ events_of u"
  by (induction t rule: events_of.induct) simp_all

lemma replay_audit: "sh_audit (replay rt tr s) = Log_all (events_of (map snd tr)) (sh_audit s)"
proof (induction tr arbitrary: s)
  case (Cons x tr)
  obtain i act r where x: "x = (i, act, r)" by (metis prod.exhaust)
  show ?case
  proof (cases act)
    case (AAudit now e)
    then show ?thesis using Cons [of "snd (exec rt act s)"] by (simp add: x replay_def split_beta)
  qed (use Cons [of "snd (exec rt act s)"] in \<open>simp_all add: x replay_def split_beta frame_simps\<close>)
qed (simp add: replay_def)

lemma execution_audit:
  assumes "pool_steps rt (start_pool ps sh) s"
  shows "sh_audit (po_shared s) = Log_all (events_of (map snd (po_trace s))) (sh_audit sh)"
  using execution_inv [OF assms] by (simp add: pool_inv_def replay_audit)

end
