(* ===== verification/Programs.thy ===== *)
theory Programs
  imports Gateway Interleave
begin

text \<open>
  The handlers as programs of accesses to the shared state, statement by statement in the order of
  the code, and the proof that each of them, run on its own, is the function that the other
  theories are about. So everything that is known of those functions is known of the programs,
  and the programs can be interleaved.
\<close>

subsection \<open>Single accesses\<close>

definition do_act :: "action \<Rightarrow> 'a prog \<Rightarrow> 'a prog" where
  "do_act act p = Do act (\<lambda>_. p)"

definition do_now :: "(int \<Rightarrow> 'a prog) \<Rightarrow> 'a prog" where
  "do_now k = Do ANow (\<lambda>r. k (time_of r))"

definition do_metrics :: "metric_call list \<Rightarrow> 'a prog \<Rightarrow> 'a prog" where
  "do_metrics cs p = foldr (\<lambda>c. do_act (AMetric c)) cs p"

text \<open>The state of a request being served: its writer, and the shared state.\<close>

definition attach :: "statusWriter \<Rightarrow> ('l, 'b, 'v) shared \<Rightarrow> ('l, 'b, 'v) server" where
  "attach w s =
     \<lparr>sh_logs = sh_logs s, sh_metrics = sh_metrics s, sh_audit = sh_audit s,
      sh_limiter = sh_limiter s, sh_auth = sh_auth s, sh_ticks = sh_ticks s, sv_w = w\<rparr>"

definition parts :: "('l, 'b, 'v) server \<Rightarrow> statusWriter \<times> ('l, 'b, 'v) shared" where
  "parts s =
     (sv_w s,
      \<lparr>sh_logs = sh_logs s, sh_metrics = sh_metrics s, sh_audit = sh_audit s,
       sh_limiter = sh_limiter s, sh_auth = sh_auth s, sh_ticks = sh_ticks s\<rparr>)"

named_theorems prog_simps "running programs and attaching writers"

lemma parts_attach [prog_simps]: "parts (attach w s) = (w, s)"
  by (simp add: parts_def attach_def)

lemma attach_sel [prog_simps]:
  "sv_w (attach w s) = w" "sh_logs (attach w s) = sh_logs s" "sh_metrics (attach w s) = sh_metrics s"
  "sh_audit (attach w s) = sh_audit s" "sh_limiter (attach w s) = sh_limiter s"
  "sh_auth (attach w s) = sh_auth s" "sh_ticks (attach w s) = sh_ticks s"
  by (simp_all add: attach_def)

lemma attach_ops [prog_simps]:
  "time_now rt (attach w s) = (fst (time_now rt s), attach w (snd (time_now rt s)))"
  "on_metrics f (attach w s) = attach w (on_metrics f s)"
  "log_at lv m a (attach w s) = attach w (log_at lv m a s)"
  "on_writer u (attach w s) = attach (u w) s"
  "(attach w s)\<lparr>sh_audit := g\<rparr> = attach w (s\<lparr>sh_audit := g\<rparr>)"
  "(attach w s)\<lparr>sh_auth := v\<rparr> = attach w (s\<lparr>sh_auth := v\<rparr>)"
  "(attach w s)\<lparr>sh_limiter := l\<rparr> = attach w (s\<lparr>sh_limiter := l\<rparr>)"
  by (simp_all add: attach_def time_now_def on_metrics_def log_at_def on_writer_def)

lemma attach_form: "\<exists>w s. x = attach w s"
proof -
  have "x = attach (sv_w x) (snd (parts x))" by (simp add: parts_def attach_def)
  then show ?thesis by blast
qed

lemma enter_attach: "enter c s = attach (new_statusWriter c) s"
  by (simp add: enter_def attach_def)

lemma leave_parts: "leave s = (sw_inner (fst (parts s)), snd (parts s))"
  by (simp add: leave_def parts_def)

lemma run_do_act [prog_simps]: "run rt (do_act act p) s = run rt p (snd (exec rt act s))"
  by (simp add: do_act_def)

lemma run_do_now [prog_simps]:
  "run rt (do_now k) s = run rt (k (fst (time_now rt s))) (snd (time_now rt s))"
  by (simp add: do_now_def split_beta)

lemma on_metrics_comp: "on_metrics g (on_metrics f s) = on_metrics (\<lambda>m. g (f m)) s"
  by (simp add: on_metrics_def)

lemma run_do_metrics [prog_simps]:
  "run rt (do_metrics cs p) s = run rt p (on_metrics (\<lambda>m. fold apply_call cs m) s)"
proof (induction cs arbitrary: s)
  case Nil
  then show ?case by (simp add: do_metrics_def on_metrics_def)
next
  case (Cons c cs)
  then show ?case by (simp add: do_metrics_def run_do_act on_metrics_comp)
qed

subsection \<open>Observations and the audit log\<close>

definition token_calls :: "bytes \<Rightarrow> int \<Rightarrow> int \<Rightarrow> metric_call list" where
  "token_calls model prompt completion =
     (if 0 < prompt then [CallAdd ModelTokens [model, ''prompt''] prompt] else []) @
     (if 0 < completion then [CallAdd ModelTokens [model, ''completion''] completion] else [])"

definition tool_observations :: "ToolCall list \<Rightarrow> metric_call list" where
  "tool_observations tcs =
     concat (map (\<lambda>tc.
       let name = sanitizeToolNameLabel (tc_Name tc) in
       CallInc ToolCalls [name] #
       (if 0 < tc_DurationMS tc then [CallObserve ToolDuration [name] (tc_DurationMS tc) 1000]
        else [])) tcs)"

definition upstream_call :: "bytes \<Rightarrow> upstream_error \<Rightarrow> metric_call" where
  "upstream_call op e = CallInc UpstreamErrors [op, upstream_kind e]"

lemma observation_calls [prog_simps]:
  "fold apply_call (token_calls model p c) m = observeTokens model p c m"
  "fold apply_call (tool_observations tcs) m = observeToolCalls tcs m"
  "apply_call (upstream_call op e) m = recordUpstreamError op e m"
proof -
  show "fold apply_call (token_calls model p c) m = observeTokens model p c m"
    by (simp add: token_calls_def observeTokens_def Let_def)
  show "fold apply_call (tool_observations tcs) m = observeToolCalls tcs m"
    by (induction tcs arbitrary: m)
      (simp_all add: tool_observations_def observeToolCalls_def observeToolCall_def Let_def)
  show "apply_call (upstream_call op e) m = recordUpstreamError op e m"
    by (simp add: upstream_call_def recordUpstreamError_def)
qed

definition audit_prog :: "('l, 'b) handlers \<Rightarrow> Event \<Rightarrow> 'a prog \<Rightarrow> 'a prog" where
  "audit_prog h e p =
     do_now (\<lambda>t. Do (AAudit (rtm_rfc3339 (h_rt h) t) e)
       (\<lambda>r. case error_of r of
              None \<Rightarrow> p
            | Some err \<Rightarrow>
                do_act (ASlog LError ''audit log write failed''
                  [(''request_id'', AText (ev_RequestID e)), (''err'', AText err)]) p))"

definition logged :: "('l, 'b) handlers \<Rightarrow> Event \<Rightarrow> ('l, 'b, 'v) shared \<Rightarrow> ('l, 'b, 'v) shared" where
  "logged h e s = snd (parts (logAudit h e (attach (new_statusWriter (new_conn True (\<lambda>_. None))) s)))"

lemma logAudit_attach [prog_simps]: "logAudit h e (attach w s) = attach w (logged h e s)"
  by (simp add: logged_def logAudit_def prog_simps split_beta Let_def split: option.split)

lemma run_audit_prog [prog_simps]:
  "run (h_rt h) (audit_prog h e p) s = run (h_rt h) p (logged h e s)"
  by (simp add: audit_prog_def logged_def logAudit_def prog_simps split_beta Let_def
      split: option.split)

subsection \<open>Responses\<close>

text \<open>What \<open>mapBridgeError\<close> logs about a failure.\<close>

definition bridge_log ::
  "Request \<Rightarrow> bytes \<Rightarrow> upstream_error \<Rightarrow> log_level \<times> bytes \<times> (bytes \<times> attr) list" where
  "bridge_log r op e =
     (let who = [(''op'', AText op), (''request_id'', AText (FromContext r))] in
      case e of
        BridgeError b \<Rightarrow>
          if er_Status b = 0 then
            (LError, ''bridge transport failure'', who @ [(''err'', AText (upstream_error_text e))])
          else if er_Status b = 404 then (LWarn, ''bridge 404'', who @ [(''body'', AText (er_Body b))])
          else if er_Status b = 503 then (LWarn, ''bridge 503'', who @ [(''body'', AText (er_Body b))])
          else
            (LError, ''bridge non-2xx'',
             [(''op'', AText op), (''status'', ANum (er_Status b)),
              (''request_id'', AText (FromContext r)), (''body'', AText (er_Body b))])
      | ForeignError t \<Rightarrow> (LError, ''bridge unknown failure'', who @ [(''err'', AText t)]))"

definition bridge_problem :: "Request \<Rightarrow> upstream_error \<Rightarrow> statusWriter \<Rightarrow> statusWriter" where
  "bridge_problem r e =
     writeProblem_w r (bridgeErrorStatus e) (problemTitleFor (bridgeErrorStatus e)) (bridge_detail e)"

definition map_error_prog ::
  "Request \<Rightarrow> bytes \<Rightarrow> upstream_error \<Rightarrow> statusWriter \<Rightarrow> (statusWriter \<Rightarrow> 'a prog) \<Rightarrow> 'a prog" where
  "map_error_prog r op e w k =
     (case bridge_log r op e of (lv, msg, attrs) \<Rightarrow>
        do_act (ASlog lv msg attrs) (k (bridge_problem r e w)))"

lemma writeProblem_attach [prog_simps]:
  "writeProblem r st t d (attach w s) = attach (writeProblem_w r st t d w) s"
  "auth_writeProblem r st t d (attach w s) = attach (auth_writeProblem_w r st t d w) s"
  by (simp_all add: writeProblem_def auth_writeProblem_def prog_simps)

lemma mapBridgeError_attach [prog_simps]:
  "mapBridgeError r op e (attach w s) =
     (case bridge_log r op e of (lv, msg, attrs) \<Rightarrow>
        attach (bridge_problem r e w) (log_at lv msg attrs s))"
proof -
  have "sv_w (mapBridgeError r op e (attach w s)) = bridge_problem r e w"
    by (simp add: frame_simps bridge_problem_def prog_simps)
  moreover have "\<exists>w'. mapBridgeError r op e (attach w s) =
      (case bridge_log r op e of (lv, msg, attrs) \<Rightarrow> attach w' (log_at lv msg attrs s))"
    by (cases e) (auto simp: mapBridgeError_def bridge_log_def Let_def prog_simps)
  ultimately show ?thesis by (auto simp: prog_simps split_beta)
qed

lemma run_map_error [prog_simps]:
  "run rt (map_error_prog r op e w k) s =
     (case bridge_log r op e of (lv, msg, attrs) \<Rightarrow>
        run rt (k (bridge_problem r e w)) (log_at lv msg attrs s))"
  by (simp add: map_error_prog_def prog_simps split_beta)

definition json_response :: "int \<Rightarrow> json \<Rightarrow> statusWriter \<Rightarrow> statusWriter" where
  "json_response status v w =
     snd (sw_Write (encode v)
       (sw_WriteHeader status (sw_Header_Set ''Content-Type'' ''application/json'' w)))"

lemma writeJSON_attach [prog_simps]:
  "writeJSON r st v (attach w s) = attach (json_response st v w) s"
  by (simp add: writeJSON_def json_response_def prog_simps)

subsection \<open>The streaming handler\<close>

text \<open>
  The body of the loop for one chunk, statement by statement: it changes the variables and writes
  to the connection, and makes no access to the shared state.
\<close>

definition write_tool_call ::
  "BridgeToolCall \<Rightarrow> stream_vars \<times> bool \<times> statusWriter \<Rightarrow> stream_vars \<times> bool \<times> statusWriter" where
  "write_tool_call tc st =
     (let f = bt_Function tc;
          fw1 = writeSSE \<lparr>ev_Type = eventToolCall,
                  ev_Data = toolCallEvent (tf_Name f) (tf_Arguments f)\<rparr> (snd st)
      in ((fst st)\<lparr>sx_tools := sx_tools (fst st) @
            [\<lparr>tc_Name = tf_Name f, tc_Args = tf_Arguments f, tc_DurationMS = 0\<rparr>]\<rparr>, fw1))"

definition write_chunk ::
  "bool \<Rightarrow> ChatStreamChunk \<Rightarrow> stream_vars \<times> bool \<times> statusWriter
   \<Rightarrow> stream_vars \<times> bool \<times> statusWriter" where
  "write_chunk captureAnswer c st0 =
     (let x0 = fst st0; fw0 = snd st0; m = ck_Message c;
          x1 = (if ck_Model c \<noteq> [] then x0\<lparr>sx_finalModel := ck_Model c\<rparr> else x0);
          fw1 = (if ck_Thinking c \<noteq> []
                 then writeSSE \<lparr>ev_Type = eventThinking, ev_Data = thinkingEvent (ck_Thinking c)\<rparr> fw0
                 else fw0);
          (x2, fw2) = fold write_tool_call (mg_ToolCalls m) (x1, fw1);
          fw3 = (if mg_Role m = ''tool'' \<and> mg_Content m \<noteq> []
                 then writeSSE \<lparr>ev_Type = eventToolResult,
                                 ev_Data = toolResultEvent [] (mg_Content m)\<rparr> fw2
                 else fw2);
          (x4, fw4) =
            (if mg_Role m \<noteq> ''tool'' \<and> mg_Content m \<noteq> []
             then let fw = writeSSE \<lparr>ev_Type = eventToken, ev_Data = tokenEvent (mg_Content m)\<rparr> fw3
                  in if captureAnswer then (x2\<lparr>sx_answer := sx_answer x2 @ mg_Content m\<rparr>, fw)
                     else (x2, fw)
             else (x2, fw3));
          x5 = (if ck_Done c
                then x4\<lparr>sx_finalReason := ck_DoneReason c,
                        sx_promptTokens := ck_PromptEvalCount c,
                        sx_completionTokens := ck_EvalCount c,
                        sx_totalDuration := ck_TotalDuration c\<rparr>
                else x4)
      in (x5, fw4))"

text \<open>The loop: \<open>Next\<close>, and for a chunk the refresh of the deadline, which reads the clock.\<close>

function loop_prog ::
  "('l, 'b) handlers \<Rightarrow> bool \<Rightarrow> ChatStream \<Rightarrow> stream_vars \<times> bool \<times> statusWriter
   \<Rightarrow> (loop_end \<times> stream_vars \<times> bool \<times> statusWriter) prog" where
  "loop_prog h captureAnswer stream st =
     (case Next (h_cd h) stream of
        (StreamEOF, stream') \<Rightarrow> Done (Drained, st)
      | (StreamError e, stream') \<Rightarrow> Done (Failed e, st)
      | (StreamChunk c, stream') \<Rightarrow>
          do_now (\<lambda>now. loop_prog h captureAnswer stream'
            (write_chunk captureAnswer c
               (fst st, fst (snd st),
                snd (sw_SetWriteDeadline (now + h_requestTimeout h) (snd (snd st)))))))"
  by pat_completeness auto
termination
  by (relation "measure (\<lambda>(h, capture, stream, st). remaining stream)")
    (auto dest: Next_shrinks [OF sym])

declare loop_prog.simps [simp del]

definition failed_prog ::
  "('l, 'b) handlers \<Rightarrow> AskRequest \<Rightarrow> bytes \<Rightarrow> bytes \<Rightarrow> int \<Rightarrow> stream_vars \<Rightarrow> Error
   \<Rightarrow> bool \<times> statusWriter \<Rightarrow> statusWriter prog" where
  "failed_prog h q caller reqID start x e fw =
     (let err = BridgeError e; status = bridgeErrorStatus err in
      do_metrics [upstream_call ''chat_stream'' err]
        (let w1 = snd (writeSSE \<lparr>ev_Type = eventError, ev_Data = errorEvent_json
                    \<lparr>ee_RequestID = reqID, ee_Status = status, ee_Title = problemTitleFor status,
                     ee_Detail = ''upstream bridge stream failed''\<rparr>\<rparr> fw)
         in do_now (\<lambda>now. audit_prog h
              \<lparr>ev_Timestamp = None, ev_RequestID = reqID, ev_CallerIdentity = caller,
               ev_Model = sx_finalModel x, ev_PromptTokens = 0, ev_CompletionTokens = 0,
               ev_ToolCalls = [], ev_LatencyMS = millis (now - start), ev_Status = status,
               ev_Outcome = ''error'', ev_Query = ask_Query q, ev_Answer = []\<rparr> (Done w1))))"

definition done_prog ::
  "('l, 'b) handlers \<Rightarrow> AskRequest \<Rightarrow> bytes \<Rightarrow> bytes \<Rightarrow> int \<Rightarrow> stream_vars
   \<Rightarrow> bool \<times> statusWriter \<Rightarrow> statusWriter prog" where
  "done_prog h q caller reqID start x fw =
     do_now (\<lambda>now.
       let latency = now - start;
           w1 = snd (writeSSE \<lparr>ev_Type = eventDone,
                  ev_Data = doneEvent_json (done_event reqID latency x)\<rparr> fw)
       in do_metrics
            (token_calls (sx_finalModel x) (sx_promptTokens x) (sx_completionTokens x)
             @ tool_observations (sx_tools x))
            (audit_prog h
              \<lparr>ev_Timestamp = None, ev_RequestID = reqID, ev_CallerIdentity = caller,
               ev_Model = sx_finalModel x, ev_PromptTokens = sx_promptTokens x,
               ev_CompletionTokens = sx_completionTokens x,
               ev_ToolCalls = toAuditToolCalls (sx_tools x), ev_LatencyMS = millis latency,
               ev_Status = 200, ev_Outcome = ''ok'', ev_Query = ask_Query q,
               ev_Answer = sx_answer x\<rparr> (Done w1)))"

definition run_stream_prog ::
  "('l, 'b) handlers \<Rightarrow> AskRequest \<Rightarrow> ChatRequest \<Rightarrow> bytes \<Rightarrow> bytes \<Rightarrow> int \<Rightarrow> ChatStream
   \<Rightarrow> statusWriter \<Rightarrow> statusWriter prog" where
  "run_stream_prog h q bridgeReq caller reqID start stream w0 =
     (let w1 = sw_Flush (sw_WriteHeader 200 (set_stream_headers w0))
      in do_now (\<lambda>now. Do ACapture (\<lambda>r.
           bind (loop_prog h (flag_of r) stream
                   (init_vars (cq_Model bridgeReq), False,
                    snd (sw_SetWriteDeadline (now + h_requestTimeout h) w1)))
             (\<lambda>(how, x, fw). case how of
                Drained \<Rightarrow> done_prog h q caller reqID start x fw
              | Failed e \<Rightarrow> failed_prog h q caller reqID start x e fw))))"

lemma send_event: "send (ev_Type ev) (ev_Data ev) (f, attach w s) =
    (case writeSSE ev (f, w) of (f', w') \<Rightarrow> (f', attach w' s))"
  by (cases ev) (simp add: send_def prog_simps)

lemma send_attach [prog_simps]: "send ty d (f, attach w s) =
    (case writeSSE \<lparr>ev_Type = ty, ev_Data = d\<rparr> (f, w) of (f', w') \<Rightarrow> (f', attach w' s))"
  using send_event [of "\<lparr>ev_Type = ty, ev_Data = d\<rparr>"] by simp

definition send_all :: "sseEvent list \<Rightarrow> bool \<times> ('l, 'b, 'v) server \<Rightarrow> bool \<times> ('l, 'b, 'v) server" where
  "send_all evs = fold (\<lambda>ev. send (ev_Type ev) (ev_Data ev)) evs"

lemma send_all_simps:
  "send_all [] fs = fs" "send_all (ev # evs) fs = send_all evs (send (ev_Type ev) (ev_Data ev) fs)"
  "send_all (xs @ ys) fs = send_all ys (send_all xs fs)"
  by (simp_all add: send_all_def)

lemma send_all_attach: "send_all evs (f, attach w s) =
    (case fold writeSSE evs (f, w) of (f', w') \<Rightarrow> (f', attach w' s))"
  by (induction evs arbitrary: f w) (simp_all add: send_all_simps send_event split_beta)

lemma fold_tool_call_sends:
  "snd (fold handle_tool_call tcs st) = send_all (map tool_call_event tcs) (snd st)"
  by (induction tcs arbitrary: st)
    (simp_all add: send_all_simps handle_tool_call_def tool_call_event_def Let_def)

lemma handle_chunk_sends: "snd (handle_chunk capture c st) = send_all (chunk_events c) (snd st)"
  by (simp add: handle_chunk_def chunk_events_def Let_def send_all_simps fold_tool_call_sends)

lemma handle_chunk_attach:
  "handle_chunk capture c (x, f, attach w s) =
     (vars_step capture c x,
      case fold writeSSE (chunk_events c) (f, w) of (f', w') \<Rightarrow> (f', attach w' s))"
  by (simp add: prod_eq_iff handle_chunk_vars handle_chunk_sends send_all_attach)

lemma refresh_attach [prog_simps]:
  "refreshWriteDeadline h (attach w s) =
     attach (snd (sw_SetWriteDeadline (fst (time_now (h_rt h) s) + h_requestTimeout h) w))
       (snd (time_now (h_rt h) s))"
  by (simp add: refreshWriteDeadline_def prog_simps)

text \<open>
  What the loop does, in the terms of its specification: the variables are a fold over the chunks,
  and what is written is the frames of the chunks' events.
\<close>

primrec frames_prog ::
  "('l, 'b) handlers \<Rightarrow> ChatStreamChunk list \<Rightarrow> bool \<times> statusWriter \<Rightarrow> (bool \<times> statusWriter) prog" where
  "frames_prog h [] fw = Done fw"
| "frames_prog h (c # cs) fw =
     do_now (\<lambda>now. frames_prog h cs
       (fold writeSSE (chunk_events c)
         (fst fw, snd (sw_SetWriteDeadline (now + h_requestTimeout h) (snd fw)))))"

lemma fold_write_tool_call:
  "fold write_tool_call tcs (x, fw) =
     (x\<lparr>sx_tools := sx_tools x @ toAPIToolCalls tcs\<rparr>, fold writeSSE (map tool_call_event tcs) fw)"
  by (induction tcs arbitrary: x fw)
    (simp_all add: write_tool_call_def tool_call_event_def toAPIToolCalls_def Let_def)

lemma write_chunk_eq:
  "write_chunk capture c (x, fw) = (vars_step capture c x, fold writeSSE (chunk_events c) fw)"
  by (cases x) (simp add: write_chunk_def vars_step_def chunk_events_def Let_def fold_write_tool_call)

lemma bind_assoc: "bind (bind p f) g = bind p (\<lambda>x. bind (f x) g)"
  by (induction p) simp_all

lemma loop_prog_frames:
  assumes "stream_results (h_cd h) stream = map StreamChunk cs @ [res]"
    and "\<forall>c. res \<noteq> StreamChunk c"
  shows "loop_prog h capture stream (x, fw) =
    bind (frames_prog h cs fw) (\<lambda>fw'. Done (loop_end_of res, fold (vars_step capture) cs x, fw'))"
  using assms
proof (induction cs arbitrary: stream x fw)
  case Nil
  obtain r s' where rs: "Next (h_cd h) stream = (r, s')" by force
  from stream_results_next [OF rs] have "r = res" using Nil by (cases r) simp_all
  with rs Nil(2) show ?case
    by (subst loop_prog.simps) (cases res; simp add: loop_end_of_def)
next
  case (Cons c cs)
  obtain r s' where rs: "Next (h_cd h) stream = (r, s')" by force
  from stream_results_next [OF rs] Cons.prems(1)
  have r: "r = StreamChunk c" and rest: "stream_results (h_cd h) s' = map StreamChunk cs @ [res]"
    by (cases r; simp)+
  show ?case
    using rs r
    by (subst loop_prog.simps) (simp add: write_chunk_eq Cons.IH [OF rest Cons.prems(2)] do_now_def)
qed

lemma run_stream_prog_frames:
  assumes "stream_results (h_cd h) stream = map StreamChunk cs @ [res]"
    and "\<forall>c. res \<noteq> StreamChunk c"
  shows "run_stream_prog h q bq caller reqID start stream w =
    do_now (\<lambda>now. Do ACapture (\<lambda>r.
      bind (frames_prog h cs (False, snd (sw_SetWriteDeadline (now + h_requestTimeout h)
          (sw_Flush (sw_WriteHeader 200 (set_stream_headers w))))))
        (\<lambda>fw. let x = fold (vars_step (flag_of r)) cs (init_vars (cq_Model bq)) in
           case loop_end_of res of
             Drained \<Rightarrow> done_prog h q caller reqID start x fw
           | Failed e \<Rightarrow> failed_prog h q caller reqID start x e fw)))"
  by (simp add: run_stream_prog_def Let_def loop_prog_frames [OF assms] bind_assoc)

lemma stream_loop_attach:
  assumes "stream_results (h_cd h) stream = map StreamChunk cs @ [res]"
    and "\<forall>c. res \<noteq> StreamChunk c"
  shows "\<exists>stream'. stream_loop h capture stream (x, f, attach w s) =
    (loop_end_of res, stream', fold (vars_step capture) cs x,
     case run (h_rt h) (frames_prog h cs (f, w)) s of ((f', w'), s') \<Rightarrow> (f', attach w' s'))"
  using assms
proof (induction cs arbitrary: stream x f w s)
  case Nil
  obtain r s' where rs: "Next (h_cd h) stream = (r, s')" by force
  from stream_results_next [OF rs] have "r = res" using Nil by (cases r) simp_all
  with rs Nil(2) show ?case
    by (subst stream_loop.simps) (cases res; simp add: loop_end_of_def)
next
  case (Cons c cs)
  obtain r s' where rs: "Next (h_cd h) stream = (r, s')" by force
  from stream_results_next [OF rs] Cons.prems(1)
  have r: "r = StreamChunk c" and rest: "stream_results (h_cd h) s' = map StreamChunk cs @ [res]"
    by (cases r; simp)+
  let ?fw = "fold writeSSE (chunk_events c)
    (f, snd (sw_SetWriteDeadline (fst (time_now (h_rt h) s) + h_requestTimeout h) w))"
  show ?case
    using Cons.IH [OF rest Cons.prems(2), of "vars_step capture c x" "fst ?fw" "snd ?fw"
        "snd (time_now (h_rt h) s)"] rs r
    by (subst stream_loop.simps) (simp add: prog_simps handle_chunk_attach split_beta)
qed

lemma run_run_stream_prog:
  "run (h_rt h) (run_stream_prog h q bq caller reqID start stream w) s =
     parts (fst (run_stream h q bq caller reqID start stream (attach w s)))"
proof -
  obtain cs res where res: "stream_results (h_cd h) stream = map StreamChunk cs @ [res]"
    "\<forall>c. res \<noteq> StreamChunk c"
    using stream_results_form by blast
  let ?w1 = "sw_Flush (sw_WriteHeader 200 (set_stream_headers w))"
  let ?w2 = "snd (sw_SetWriteDeadline (fst (time_now (h_rt h) s) + h_requestTimeout h) ?w1)"
  let ?s2 = "snd (time_now (h_rt h) s)"
  obtain stream' where loop: "stream_loop h (LogQueryEnabled (sh_audit ?s2)) stream
      (init_vars (cq_Model bq), False, attach ?w2 ?s2) =
    (loop_end_of res, stream', fold (vars_step (LogQueryEnabled (sh_audit ?s2))) cs
       (init_vars (cq_Model bq)),
     case run (h_rt h) (frames_prog h cs (False, ?w2)) ?s2 of ((f', w'), s') \<Rightarrow> (f', attach w' s'))"
    using stream_loop_attach [OF res] by blast
  obtain f' w' s' where run: "run (h_rt h) (frames_prog h cs (False, ?w2)) ?s2 = ((f', w'), s')"
    by (metis prod.exhaust)
  show ?thesis
    using loop
    by (cases "loop_end_of res")
      (simp_all add: run_stream_prog_frames [OF res] run_stream_def Let_def prog_simps run_bind run
        stream_done_def stream_failed_def done_prog_def failed_prog_def split_beta on_metrics_comp)
qed

definition ask_stream_prog ::
  "('l, 'b) handlers \<Rightarrow> Request \<Rightarrow> AskRequest \<Rightarrow> ChatRequest \<Rightarrow> bytes \<Rightarrow> bytes \<Rightarrow> statusWriter
   \<Rightarrow> statusWriter prog" where
  "ask_stream_prog h r q bridgeReq caller reqID w =
     (if MFlush \<notin> set statusWriter_methods then
        Done (writeProblem_w r 500 (problemTitleFor 500)
          ''streaming is not supported by the response writer'' w)
      else do_now (\<lambda>start.
        case br_ChatStream (h_bridge h) bridgeReq of
          Inl e \<Rightarrow>
            do_metrics [upstream_call ''chat_stream'' e]
              (map_error_prog r ''chat_stream'' e w (\<lambda>w1. do_now (\<lambda>now.
                 audit_prog h
                   \<lparr>ev_Timestamp = None, ev_RequestID = reqID, ev_CallerIdentity = caller,
                    ev_Model = cq_Model bridgeReq, ev_PromptTokens = 0, ev_CompletionTokens = 0,
                    ev_ToolCalls = [], ev_LatencyMS = millis (now - start),
                    ev_Status = bridgeErrorStatus e, ev_Outcome = ''error'',
                    ev_Query = ask_Query q, ev_Answer = []\<rparr> (Done w1))))
        | Inr stream \<Rightarrow> run_stream_prog h q bridgeReq caller reqID start stream w))"

lemma run_ask_stream_prog:
  "run (h_rt h) (ask_stream_prog h r q bq caller reqID w) s =
     parts (fst (askStream h r q bq caller reqID (attach w s)))"
  by (simp add: ask_stream_prog_def askStream_def prog_simps split_beta Let_def run_run_stream_prog
      split: sum.split)

subsection \<open>The other handlers\<close>

definition ask_plain_prog ::
  "('l, 'b) handlers \<Rightarrow> Request \<Rightarrow> AskRequest \<Rightarrow> ChatRequest \<Rightarrow> bytes \<Rightarrow> bytes \<Rightarrow> statusWriter
   \<Rightarrow> statusWriter prog" where
  "ask_plain_prog h r q bridgeReq caller reqID w =
     do_now (\<lambda>start.
       case br_Chat (h_bridge h) bridgeReq of
         Inl e \<Rightarrow> do_metrics [upstream_call ''chat'' e] (map_error_prog r ''chat'' e w Done)
       | Inr resp \<Rightarrow> do_now (\<lambda>now.
           let latency = now - start;
               tools = toAPIToolCalls (mg_ToolCalls (cp_Message resp))
           in do_metrics
                (token_calls (cp_Model resp) (cp_PromptEvalCount resp) (cp_EvalCount resp)
                 @ tool_observations tools)
                (audit_prog h
                  \<lparr>ev_Timestamp = None, ev_RequestID = reqID, ev_CallerIdentity = caller,
                   ev_Model = cp_Model resp, ev_PromptTokens = cp_PromptEvalCount resp,
                   ev_CompletionTokens = cp_EvalCount resp,
                   ev_ToolCalls = toAuditToolCalls tools, ev_LatencyMS = millis latency,
                   ev_Status = 200, ev_Outcome = ''ok'', ev_Query = ask_Query q,
                   ev_Answer = mg_Content (cp_Message resp)\<rparr>
                  (Done (json_response 200
                    (AskResponse_json (ask_response reqID q resp latency)) w)))))"

lemma run_ask_plain_prog:
  "run (h_rt h) (ask_plain_prog h r q bq caller reqID w) s =
     parts (askPlain h r q bq caller reqID (attach w s))"
  by (simp add: ask_plain_prog_def askPlain_def prog_simps split_beta Let_def on_metrics_comp
      split: sum.split)

definition limited_prog ::
  "('l, 'b) handlers \<Rightarrow> Request \<Rightarrow> AskRequest \<Rightarrow> bytes \<Rightarrow> statusWriter \<Rightarrow> statusWriter prog" where
  "limited_prog h r q caller w =
     do_metrics [CallInc RateLimited []] (Do ARate (\<lambda>n.
       let detail = ''rate limit of '' @ dec_int (rate_of n) @ '' requests per minute exceeded'' in
       audit_prog h
         \<lparr>ev_Timestamp = None, ev_RequestID = FromContext r, ev_CallerIdentity = caller,
          ev_Model = modelOrDefault (ask_Model q) (h_defaultModel h), ev_PromptTokens = 0,
          ev_CompletionTokens = 0, ev_ToolCalls = [], ev_LatencyMS = 0, ev_Status = 429,
          ev_Outcome = ''rate_limited'', ev_Query = ask_Query q, ev_Answer = []\<rparr>
         (Done (writeProblem_w r 429 (problemTitleFor 429) detail w))))"

lemma run_limited_prog:
  "run (h_rt h) (limited_prog h r q caller w) s = parts (rate_limited h r q caller (attach w s))"
  by (simp add: limited_prog_def rate_limited_def prog_simps split_beta Let_def)

definition ask_prog :: "('l, 'b) handlers \<Rightarrow> Request \<Rightarrow> statusWriter \<Rightarrow> statusWriter prog" where
  "ask_prog h r w =
     (case accept_request (h_cd h) (nat (h_maxRequestBytes h)) r of
        Inl (status, detail) \<Rightarrow> Done (writeProblem_w r status (problemTitleFor status) detail w)
      | Inr q \<Rightarrow> do_now (\<lambda>now. Do (AAllow now (caller_of h r)) (\<lambda>ok.
          let reqID = FromContext r;
              bridgeReq = bridge_request (modelOrDefault (ask_Model q) (h_defaultModel h)) q
          in if \<not> flag_of ok then limited_prog h r q (caller_of h r) w
             else if ask_Stream q then ask_stream_prog h r q bridgeReq (caller_of h r) reqID w
             else ask_plain_prog h r q bridgeReq (caller_of h r) reqID w)))"

lemma limiter_allow_attach [prog_simps]:
  "limiter_allow h c (attach w s) =
     (case Allow (rtm_lib (h_rt h)) (fst (time_now (h_rt h) s)) c (sh_limiter s) of
        (ok, l) \<Rightarrow> (ok, attach w (snd (time_now (h_rt h) s)\<lparr>sh_limiter := l\<rparr>)))"
  by (simp add: limiter_allow_def prog_simps split_beta Let_def frame_simps)

lemma run_ask_prog: "run (h_rt h) (ask_prog h r w) s = parts (ask h r (attach w s))"
  by (simp add: ask_prog_def ask_def prog_simps split_beta Let_def frame_simps run_limited_prog
      run_ask_stream_prog run_ask_plain_prog split: sum.split bool.split)

definition tools_prog :: "('l, 'b) handlers \<Rightarrow> Request \<Rightarrow> statusWriter \<Rightarrow> statusWriter prog" where
  "tools_prog h r w =
     Done (json_response 200 (ToolsResponse_json \<lparr>ts_Tools = [], ts_DiscoveryDeferred = True\<rparr>) w)"

lemma run_tools_prog: "run (h_rt h) (tools_prog h r w) s = parts (tools h r (attach w s))"
  by (simp add: tools_prog_def tools_def prog_simps)

definition models_prog :: "('l, 'b) handlers \<Rightarrow> Request \<Rightarrow> statusWriter \<Rightarrow> statusWriter prog" where
  "models_prog h r w =
     (case br_Models (h_bridge h) of
        Inl e \<Rightarrow> map_error_prog r ''models'' e w Done
      | Inr tags \<Rightarrow>
          Done (json_response 200 (ModelsResponse_json
            \<lparr>ms_Models = map api_model tags, ms_Default = h_defaultModel h\<rparr>) w))"

lemma run_models_prog: "run (h_rt h) (models_prog h r w) s = parts (models h r (attach w s))"
  by (simp add: models_prog_def models_def prog_simps split_beta split: sum.split)

subsection \<open>The pipeline\<close>

text \<open>\<open>Source.Validate\<close>, a critical section at a time; the calls of the file system come with the request.\<close>

definition validate_prog ::
  "observation \<Rightarrow> bytes \<Rightarrow> (auth_error option \<Rightarrow> 'a prog) \<Rightarrow> 'a prog" where
  "validate_prog ob candidate k =
     (let fetch = Do AToken (\<lambda>r. k (compare_token candidate (token_read r)));
          reloaded = (\<lambda>r. case verdict_of r of Some e \<Rightarrow> k (Some e) | None \<Rightarrow> fetch)
      in case ob_stat ob of
           Inl e \<Rightarrow> Do (AStatFailed e) reloaded
         | Inr info \<Rightarrow> Do (AUnchanged info) (\<lambda>r.
             if flag_of r then fetch else Do (AReload info (ob_read ob)) reloaded))"

lemma run_validate_prog [prog_simps]:
  "run rt (validate_prog ob c k) s =
     run rt (k (fst (AuthSource.Validate ob c (sh_auth s)))) (s\<lparr>sh_auth := snd (AuthSource.Validate ob c (sh_auth s))\<rparr>)"
  by (cases s)
    (simp add: validate_prog_def AuthSource.Validate_def reloadIfChanged_def Let_def split_beta
      split: sum.split option.split)

definition auth_prog ::
  "observation \<Rightarrow> (Request \<Rightarrow> statusWriter \<Rightarrow> statusWriter prog)
   \<Rightarrow> Request \<Rightarrow> statusWriter \<Rightarrow> statusWriter prog" where
  "auth_prog ob next_handler r w =
     (case extractBearer (header_get r ''Authorization'') of
        Inl e \<Rightarrow>
          do_act (ASlog LWarn ''auth header rejected''
              [(''remote'', AText (rq_RemoteAddr r)), (''path'', AText (rq_Path r)),
               (''err'', AText e)])
            (Done (auth_writeProblem_w r 401 ''Unauthorized'' e w))
      | Inr token \<Rightarrow> validate_prog ob token (\<lambda>v.
          case v of
            None \<Rightarrow> next_handler r w
          | Some (ErrNoToken d) \<Rightarrow>
              do_act (ASlog LError ''auth: no token configured''
                  [(''path'', AText (rq_Path r)), (''err'', AText (auth_error_text (ErrNoToken d)))])
                (Done (auth_writeProblem_w r 503 ''Service Unavailable''
                  ''authentication is not configured on this gateway'' w))
          | Some ErrInvalidToken \<Rightarrow>
              do_act (ASlog LWarn ''auth: invalid token''
                  [(''remote'', AText (rq_RemoteAddr r)), (''path'', AText (rq_Path r))])
                (Done (auth_writeProblem_w r 401 ''Unauthorized'' ''invalid bearer token'' w))
          | Some (OtherError e) \<Rightarrow>
              do_act (ASlog LError ''auth: validator error''
                  [(''path'', AText (rq_Path r)), (''err'', AText e)])
                (Done (auth_writeProblem_w r 500 ''Internal Server Error''
                  ''authentication check failed'' w))))"

lemma run_auth_prog:
  assumes "\<And>r w s. run rt (next_prog r w) s = parts (nxt r (attach w s))"
  shows "run rt (auth_prog ob next_prog r w) s =
    parts (auth_Middleware AuthSource.Validate ob nxt r (attach w s))"
  by (simp add: auth_prog_def auth_Middleware_def prog_simps split_beta Let_def assms
      split: sum.split option.split auth_error.split)

text \<open>The deferred function of the metrics middleware comes after the handler's program.\<close>

definition metrics_prog ::
  "bytes \<Rightarrow> (Request \<Rightarrow> statusWriter \<Rightarrow> statusWriter prog) \<Rightarrow> Request \<Rightarrow> Conn \<Rightarrow> Conn prog" where
  "metrics_prog endpoint next_handler r c =
     do_now (\<lambda>start. do_metrics [CallGaugeInc InFlight]
       (bind (next_handler r (new_statusWriter c)) (\<lambda>w.
          do_metrics [CallGaugeDec InFlight] (do_now (\<lambda>now.
            do_metrics
              [CallObserve RequestDuration [endpoint, rq_Method r] (now - start) (10 ^ 9),
               CallInc Requests [endpoint, rq_Method r, dec_int (sw_status w)]]
              (Done (sw_inner w)))))))"

lemma run_metrics_prog:
  assumes "\<And>r w s. run rt (next_prog r w) s = parts (nxt r (attach w s))"
  shows "run rt (metrics_prog endpoint next_prog r c) s = metricsMiddleware rt endpoint nxt r c s"
proof -
  let ?s1 = "on_metrics (Gauge_Inc InFlight) (snd (time_now rt s))"
  obtain w1 s1 where "nxt r (attach (new_statusWriter c) ?s1) = attach w1 s1"
    using attach_form by blast
  then show ?thesis
    by (simp add: metrics_prog_def metricsMiddleware_def prog_simps split_beta Let_def run_bind assms
        enter_attach leave_parts on_metrics_comp)
qed

definition route_prog ::
  "bytes \<Rightarrow> (Request \<Rightarrow> statusWriter \<Rightarrow> statusWriter prog) \<Rightarrow> request_env \<Rightarrow> Request \<Rightarrow> Conn
   \<Rightarrow> Conn prog" where
  "route_prog endpoint hdl env =
     RequestId.Middleware (re_rand env) (re_now env)
       (metrics_prog endpoint (auth_prog (re_auth env) hdl))"

lemma run_route_prog:
  assumes "\<And>r w s. run (h_rt h) (hdl_prog r w) s = parts (hdl r (attach w s))"
  shows "run (h_rt h) (route_prog endpoint hdl_prog env r c) s = route h endpoint hdl env r c s"
  using run_metrics_prog [where rt = "h_rt h" and next_prog = "auth_prog (re_auth env) hdl_prog",
      OF run_auth_prog [where rt = "h_rt h", OF assms]]
  by (simp add: route_prog_def route_def RequestId.Middleware_def Let_def)

definition api_progs ::
  "('l, 'b) handlers \<Rightarrow> (pattern \<times> (request_env \<Rightarrow> Request \<Rightarrow> Conn \<Rightarrow> Conn prog)) list" where
  "api_progs h =
     [((Some ''POST'', ''/v1/ask''), route_prog ''/v1/ask'' (ask_prog h)),
      ((Some ''GET'', ''/v1/tools''), route_prog ''/v1/tools'' (tools_prog h)),
      ((Some ''GET'', ''/v1/models''), route_prog ''/v1/models'' (models_prog h))]"

definition api_prog :: "('l, 'b) handlers \<Rightarrow> request_env \<Rightarrow> Request \<Rightarrow> Conn \<Rightarrow> Conn prog" where
  "api_prog h env r c =
     mux_serve (\<lambda>hdl. hdl env r c) (\<lambda>f. Done (f c)) (api_progs h) r"

definition health_prog :: "bytes \<Rightarrow> Conn \<Rightarrow> Conn prog" where
  "health_prog version c0 =
     (let body = encode (HealthResponse_json \<lparr>hr_Status = ''ok'', hr_Version = version\<rparr>);
          c1 = conn_set_header ''Content-Type'' ''application/json'' c0;
          c2 = conn_write_header 200 c1;
          (ok, c3) = conn_write body c2
      in if ok then Done c3
         else do_act (ASlog LWarn ''write health response'' [(''err'', AText ''write failed'')])
                (Done c3))"

definition public_prog ::
  "bytes \<Rightarrow> ('l, 'b) handlers \<Rightarrow> request_env \<Rightarrow> Request \<Rightarrow> Conn \<Rightarrow> Conn prog" where
  "public_prog version h env r c =
     mux_serve
       (\<lambda>k. case k of HealthRoute \<Rightarrow> health_prog version c | ApiRoute \<Rightarrow> api_prog h env r c)
       (\<lambda>f. Done (f c)) newMux r"

text \<open>Two routers with the same patterns find corresponding handlers.\<close>

lemma mux_match_rel:
  assumes "list_all2 (\<lambda>(p, a) (q, b). p = q \<and> R a b) as bs"
  shows "rel_option (\<lambda>(p, a) (q, b). p = q \<and> R a b) (mux_match as m path) (mux_match bs m path)"
  using assms by (induction as bs rule: list_all2_induct) auto

lemma mux_serve_rel:
  assumes "list_all2 (\<lambda>(p, a) (q, b). p = q \<and> R a b) as bs"
    and "\<And>a b. R a b \<Longrightarrow> S (f a) (g b)" and "\<And>u. S (d u) (e u)"
  shows "S (mux_serve f d as r) (mux_serve g e bs r)"
proof -
  have ms: "allowed_methods as path = allowed_methods bs path" for path
    using assms(1)
    by (induction as bs rule: list_all2_induct) (auto simp: allowed_methods_def)
  note m = mux_match_rel [OF assms(1), of "rq_Method r"]
  show ?thesis
    using m [of "rq_Path r"] m [of "rq_Path r @ ''/''"] assms(2,3)
    by (cases "mux_match as (rq_Method r) (rq_Path r)";
        cases "mux_match bs (rq_Method r) (rq_Path r)";
        cases "mux_match as (rq_Method r) (rq_Path r @ ''/'')";
        cases "mux_match bs (rq_Method r) (rq_Path r @ ''/'')")
      (auto simp: mux_serve_def Let_def ms split: list.split)
qed

lemma run_api_prog: "run (h_rt h) (api_prog h env r c) s = api_serve h env r c s"
  unfolding api_prog_def api_serve_def
proof (rule mux_serve_rel [where R = "\<lambda>a b. \<forall>env r c s. run (h_rt h) (a env r c) s = b env r c s"])
  show "list_all2 (\<lambda>(p, a) (q, b). p = q \<and> (\<forall>env r c s. run (h_rt h) (a env r c) s = b env r c s))
      (api_progs h) (api_routes h)"
    by (simp add: api_progs_def api_routes_def run_route_prog run_ask_prog run_tools_prog
        run_models_prog)
qed simp_all

lemma run_health_prog: "run rt (health_prog version c) s = healthHandler version c s"
  by (simp add: health_prog_def healthHandler_def Let_def split_beta prog_simps)

text \<open>
  The adequacy of the programs: run without interruption, the program of a request does to the
  connection and to the shared state what the handlers, the middleware and the routers do.
\<close>

lemma run_public_prog:
  "run (h_rt h) (public_prog version h env r c) s = public_serve version h env r c s"
  unfolding public_prog_def public_serve_def
  by (rule mux_serve_rel [where R = "(=)"])
    (auto simp: list.rel_eq prod.rel_eq [unfolded rel_prod_conv] run_health_prog run_api_prog newMux_def
      split: public_route.split)

end
