(* ===== verification/EndToEnd.thy ===== *)
theory EndToEnd
  imports Gateway
begin

text \<open>
  A question from the listener to the bridge and back: the public router, the pipeline, the
  handler and the client in one piece. \<open>admitted\<close> says what a request has to pass; the two
  properties say what its caller then reads, for a complete and for a streamed answer, and what
  the books of the gateway say about it.
\<close>

subsection \<open>An admitted question\<close>

text \<open>
  The clock is read for the second time when the limiter decides; the first reading is the start
  of the request.
\<close>

definition admitted ::
  "('l, 'b) handlers \<Rightarrow> request_env \<Rightarrow> Request \<Rightarrow> ('l, 'b, Source) shared \<Rightarrow> bytes \<Rightarrow> AskRequest \<Rightarrow> bool" where
  "admitted h env r sh token q \<longleftrightarrow>
     rq_Method r = ''POST'' \<and> rq_Path r = ''/v1/ask'' \<and>
     extractBearer (header_get r ''Authorization'') = Inr token \<and>
     fst (AuthSource.Validate (re_auth env) token (sh_auth sh)) = None \<and>
     accept_request (h_cd h) (nat (h_maxRequestBytes h)) r = Inr q \<and>
     fst (Allow (rtm_lib (h_rt h)) (rtm_clock (h_rt h) (Suc (sh_ticks sh)))
       (CallerIdentity (rtm_sha256 (h_rt h)) token) (sh_limiter sh))"

abbreviation id_of :: "request_env \<Rightarrow> Request \<Rightarrow> bytes" where
  "id_of env r \<equiv> request_id (re_rand env) (re_now env) r"

abbreviation caller_by :: "('l, 'b) handlers \<Rightarrow> bytes \<Rightarrow> bytes" where
  "caller_by h token \<equiv> CallerIdentity (rtm_sha256 (h_rt h)) token"

text \<open>The question as the bridge gets it.\<close>

abbreviation upstream_question :: "('l, 'b) handlers \<Rightarrow> AskRequest \<Rightarrow> ChatRequest" where
  "upstream_question h q \<equiv> bridge_request (modelOrDefault (ask_Model q) (h_defaultModel h)) q"

text \<open>The state on which the handler runs.\<close>

definition ask_entry ::
  "('l, 'b) handlers \<Rightarrow> request_env \<Rightarrow> Request \<Rightarrow> Conn \<Rightarrow> bytes \<Rightarrow> ('l, 'b, Source) shared
   \<Rightarrow> ('l, 'b, Source) server" where
  "ask_entry h env r c token sh =
     (enter (conn_set_header HeaderName (id_of env r) c)
        (on_metrics (Gauge_Inc InFlight) (snd (time_now (h_rt h) sh))))
      \<lparr>sh_auth := snd (AuthSource.Validate (re_auth env) token (sh_auth sh))\<rparr>"

lemma ask_entry_frame [frame_simps]:
  "sv_w (ask_entry h env r c token sh) = new_statusWriter (conn_set_header HeaderName (id_of env r) c)"
  "sh_audit (ask_entry h env r c token sh) = sh_audit sh"
  "sh_limiter (ask_entry h env r c token sh) = sh_limiter sh"
  "sh_ticks (ask_entry h env r c token sh) = Suc (sh_ticks sh)"
  by (simp_all add: ask_entry_def frame_simps)

lemma public_ask:
  assumes "admitted h env r sh token q"
  shows "public_serve version h env r c sh = api_serve h env r c sh"
    and "mux_match (api_routes h) (rq_Method r) (rq_Path r) =
      Some ((Some ''POST'', ''/v1/ask''), route h ''/v1/ask'' (ask h))"
proof -
  have "has_prefix ''/v1/ask'' ''/v1/''" by (simp add: has_prefix_def)
  then show "public_serve version h env r c sh = api_serve h env r c sh"
    using assms
    by (simp add: admitted_def public_serve_def mux_serve_def Let_def newMux_match)
  show "mux_match (api_routes h) (rq_Method r) (rq_Path r) =
      Some ((Some ''POST'', ''/v1/ask''), route h ''/v1/ask'' (ask h))"
    using assms
    by (simp add: admitted_def api_routes_def pattern_matches_def method_matches_def
        path_matches_def)
qed

lemma public_ask_entry:
  assumes "admitted h env r sh token q"
  shows "fst (public_serve version h env r c sh) =
      sw_inner (sv_w (ask h (WithValue r (id_of env r)) (ask_entry h env r c token sh)))"
    and "sh_audit (snd (public_serve version h env r c sh)) =
      sh_audit (ask h (WithValue r (id_of env r)) (ask_entry h env r c token sh))"
proof -
  have header: "extractBearer (header_get (WithValue r (id_of env r)) ''Authorization'') = Inr token"
    using assms by (simp add: admitted_def)
  have valid: "fst (AuthSource.Validate (re_auth env) token (sh_auth s)) = None"
    "auth_Middleware AuthSource.Validate (re_auth env) (ask h) (WithValue r (id_of env r)) s =
     ask h (WithValue r (id_of env r)) (s\<lparr>sh_auth := snd (AuthSource.Validate (re_auth env) token (sh_auth sh))\<rparr>)"
    if "sh_auth s = sh_auth sh" for s :: "('a, 'b, Source) server"
    using that assms middleware_accepted [OF header, of AuthSource.Validate "re_auth env" s "ask h"]
    by (simp_all add: admitted_def)
  have "api_serve h env r c sh = route h ''/v1/ask'' (ask h) env r c sh"
    by (rule api_serve_routed(1) [OF public_ask(2) [OF assms]])
  then show "fst (public_serve version h env r c sh) =
      sw_inner (sv_w (ask h (WithValue r (id_of env r)) (ask_entry h env r c token sh)))"
    "sh_audit (snd (public_serve version h env r c sh)) =
      sh_audit (ask h (WithValue r (id_of env r)) (ask_entry h env r c token sh))"
    unfolding public_ask(1) [OF assms]
    by (simp_all add: route_def RequestId.Middleware_def metricsMiddleware_def Let_def split_beta
        frame_simps valid(2) ask_entry_def)
qed

lemma accept_WithValue: "accept_request cd limit (WithValue r i) = accept_request cd limit r"
proof -
  have body: "rq_Body (WithValue r i) = rq_Body r" "rq_BodyError (WithValue r i) = rq_BodyError r"
    by (simp_all add: WithValue_def)
  have json: "requireJSON (WithValue r i) = requireJSON r" by (simp add: requireJSON_def)
  show ?thesis unfolding accept_request_def body json ..
qed

lemma caller_of_token:
  "extractBearer (header_get r ''Authorization'') = Inr token \<Longrightarrow> caller_of h r = caller_by h token"
  by (auto simp: caller_of_def parseBearerToken_def extractBearer_def bearerScheme_def Let_def
      split: if_splits option.splits)

text \<open>After the checks and the limiter, one of the two tails of \<open>ask\<close> runs on a fresh writer.\<close>

lemma admitted_ask:
  assumes "admitted h env r sh token q"
  obtains s1 where
    "sv_w s1 = new_statusWriter (conn_set_header HeaderName (id_of env r) c)"
    "sh_audit s1 = sh_audit sh"
    "ask h (WithValue r (id_of env r)) (ask_entry h env r c token sh) =
      (if ask_Stream q
       then fst (askStream h (WithValue r (id_of env r)) q (upstream_question h q) (caller_by h token)
         (id_of env r) s1)
       else askPlain h (WithValue r (id_of env r)) q (upstream_question h q) (caller_by h token)
         (id_of env r) s1)"
proof -
  let ?r = "WithValue r (id_of env r)" and ?s = "ask_entry h env r c token sh"
  have caller: "caller_of h ?r = caller_by h token"
    using assms by (intro caller_of_token) (simp add: admitted_def)
  have ok: "fst (limiter_allow h (caller_by h token) ?s)"
    using assms limiter_allow_eq(1) [of h "caller_by h token" ?s]
    by (simp add: admitted_def frame_simps)
  define s1 where "s1 = snd (limiter_allow h (caller_by h token) ?s)"
  have lim: "limiter_allow h (caller_by h token) ?s = (True, s1)"
    using ok by (simp add: s1_def prod_eq_iff)
  show thesis
  proof (rule that [of s1])
    show "sv_w s1 = new_statusWriter (conn_set_header HeaderName (id_of env r) c)"
      "sh_audit s1 = sh_audit sh"
      by (simp_all add: s1_def frame_simps)
    show "ask h ?r ?s = (if ask_Stream q
       then fst (askStream h ?r q (upstream_question h q) (caller_by h token) (id_of env r) s1)
       else askPlain h ?r q (upstream_question h q) (caller_by h token) (id_of env r) s1)"
      using assms by (simp add: ask_def accept_WithValue caller lim Let_def admitted_def)
  qed
qed

text \<open>The head of the response and the count of the request.\<close>

lemma admitted_head:
  assumes "admitted h env r sh token q"
    and "c_sent (fst (public_serve version h env r (new_conn b fault) sh)) = Some (code, hdr)"
  shows "hdr HeaderName = Some (id_of env r)"
    and "metric_value Requests [''/v1/ask'', ''POST'', dec_int code]
        (sh_metrics (snd (public_serve version h env r (new_conn b fault) sh))) =
      metric_value Requests [''/v1/ask'', ''POST'', dec_int code] (sh_metrics sh) + 1"
  using assms api_serve_served [OF public_ask(2) [OF assms(1)] new_conn_unsent [of b fault], of env sh]
  by (auto simp: public_ask(1) [OF assms(1)] served_def good_head_def admitted_def)

subsection \<open>A complete answer\<close>

lemma fresh_entry:
  assumes "sv_w s = new_statusWriter (conn_set_header k v (new_conn b (\<lambda>_. None)))"
  shows "sw_ok (sv_w s)" "sw_sent (sv_w s) = None" "reliable (sv_w s)" "sw_body (sv_w s) = []"
  using assms
  by (simp_all add: sw_ok_new writer_simps new_conn_def)
    (simp_all add: new_statusWriter_def reliable_def writer_simps)

lemma askPlain_body:
  assumes "sv_w s = new_statusWriter (conn_set_header k v (new_conn b (\<lambda>_. None)))"
    and "br_Chat (h_bridge h) bq = Inr resp"
  shows "\<exists>hdr latency. sw_sent (sv_w (askPlain h r q bq caller reqID s)) = Some (200, hdr) \<and>
    hdr ''Content-Type'' = Some ''application/json'' \<and>
    sw_body (sv_w (askPlain h r q bq caller reqID s)) =
      encode (AskResponse_json (ask_response reqID q resp latency))"
  using assms
  by (auto simp: askPlain_def Let_def split_beta frame_simps writer_simps new_statusWriter_def
      new_conn_def)

lemma admitted_plain:
  assumes "admitted h env r sh token q" and "\<not> ask_Stream q"
    and "br_Chat (h_bridge h) (upstream_question h q) = Inr resp"
  obtains hdr latency where
    "c_sent (fst (public_serve version h env r (new_conn b (\<lambda>_. None)) sh)) = Some (200, hdr)"
    "hdr ''Content-Type'' = Some ''application/json''"
    "c_body (fst (public_serve version h env r (new_conn b (\<lambda>_. None)) sh)) =
      encode (AskResponse_json (ask_response (id_of env r) q resp latency))"
    "audited (sh_audit sh) (sh_audit (snd (public_serve version h env r (new_conn b (\<lambda>_. None)) sh)))
      (id_of env r) (caller_by h token) (ask_Query q)
      (\<lambda>e. ev_Outcome e = ''ok'' \<and> ev_Status e = 200 \<and> ev_Model e = cp_Model resp \<and>
         ev_Answer e = mg_Content (cp_Message resp))"
proof -
  let ?c = "new_conn b (\<lambda>_. None)" and ?r = "WithValue r (id_of env r)"
  obtain s1 where s1: "sv_w s1 = new_statusWriter (conn_set_header HeaderName (id_of env r) ?c)"
    "sh_audit s1 = sh_audit sh"
    and run: "ask h ?r (ask_entry h env r ?c token sh) =
      askPlain h ?r q (upstream_question h q) (caller_by h token) (id_of env r) s1"
    using admitted_ask [OF assms(1), of ?c] assms(2) by metis
  obtain hdr latency where body:
    "c_sent (fst (public_serve version h env r ?c sh)) = Some (200, hdr)"
    "hdr ''Content-Type'' = Some ''application/json''"
    "c_body (fst (public_serve version h env r ?c sh)) =
      encode (AskResponse_json (ask_response (id_of env r) q resp latency))"
    using askPlain_body [OF s1(1) assms(3), of ?r q "caller_by h token" "id_of env r"]
    unfolding public_ask_entry(1) [OF assms(1)] run by blast
  have "audited (sh_audit sh) (sh_audit (snd (public_serve version h env r ?c sh))) (id_of env r)
      (caller_by h token) (ask_Query q)
      (\<lambda>e. ev_Outcome e = ''ok'' \<and> ev_Status e = 200 \<and> ev_Model e = cp_Model resp \<and>
         ev_Answer e = mg_Content (cp_Message resp))"
    using askPlain_audit [where h = h and bq = "upstream_question h q" and s = s1 and r = ?r and q = q
        and caller = "caller_by h token" and reqID = "id_of env r"] assms(3)
    by (simp add: public_ask_entry(2) [OF assms(1)] run s1)
  with body show thesis by (rule that)
qed

text \<open>C3: a question that is admitted and that the bridge answers is answered: its caller gets status
  200 with the request ID and one JSON document, which carries the bridge's answer, its model,
  its tool calls and its token counts; the request is counted with that status, and the audit
  log gets one event about this caller, this question and this answer.\<close>

theorem question_answered:
  assumes "admitted h env r sh token q" and "\<not> ask_Stream q"
    and "br_Chat (h_bridge h) (bridge_request (modelOrDefault (ask_Model q) (h_defaultModel h)) q) =
      Inr resp"
  shows "\<exists>hdr latency.
    c_sent (fst (public_serve version h env r (new_conn b (\<lambda>_. None)) sh)) = Some (200, hdr) \<and>
    hdr HeaderName = Some (request_id (re_rand env) (re_now env) r) \<and>
    hdr ''Content-Type'' = Some ''application/json'' \<and>
    c_body (fst (public_serve version h env r (new_conn b (\<lambda>_. None)) sh)) =
      encode (AskResponse_json
        \<lparr>rsp_RequestID = request_id (re_rand env) (re_now env) r, rsp_Model = cp_Model resp,
         rsp_Query = ask_Query q, rsp_Answer = mg_Content (cp_Message resp),
         rsp_ToolCalls = toAPIToolCalls (mg_ToolCalls (cp_Message resp)),
         rsp_Usage = \<lparr>us_PromptTokens = cp_PromptEvalCount resp,
                      us_CompletionTokens = cp_EvalCount resp\<rparr>,
         rsp_LatencyMS = millis latency\<rparr>) \<and>
    metric_value Requests [''/v1/ask'', ''POST'', ''200'']
        (sh_metrics (snd (public_serve version h env r (new_conn b (\<lambda>_. None)) sh))) =
      metric_value Requests [''/v1/ask'', ''POST'', ''200''] (sh_metrics sh) + 1 \<and>
    audited (sh_audit sh) (sh_audit (snd (public_serve version h env r (new_conn b (\<lambda>_. None)) sh)))
      (request_id (re_rand env) (re_now env) r) (CallerIdentity (rtm_sha256 (h_rt h)) token)
      (ask_Query q)
      (\<lambda>e. ev_Outcome e = ''ok'' \<and> ev_Status e = 200 \<and> ev_Model e = cp_Model resp \<and>
         ev_Answer e = mg_Content (cp_Message resp))"
proof -
  obtain hdr latency where body:
    "c_sent (fst (public_serve version h env r (new_conn b (\<lambda>_. None)) sh)) = Some (200, hdr)"
    "hdr ''Content-Type'' = Some ''application/json''"
    "c_body (fst (public_serve version h env r (new_conn b (\<lambda>_. None)) sh)) =
      encode (AskResponse_json (ask_response (id_of env r) q resp latency))"
    "audited (sh_audit sh) (sh_audit (snd (public_serve version h env r (new_conn b (\<lambda>_. None)) sh)))
      (id_of env r) (caller_by h token) (ask_Query q)
      (\<lambda>e. ev_Outcome e = ''ok'' \<and> ev_Status e = 200 \<and> ev_Model e = cp_Model resp \<and>
         ev_Answer e = mg_Content (cp_Message resp))"
    by (rule admitted_plain [OF assms])
  have "dec_int 200 = ''200''" by code_simp
  then show ?thesis
    using body(1,2,4) body(3) [unfolded ask_response_def] admitted_head [OF assms(1) body(1)]
    by (intro exI [of _ hdr] exI [of _ latency]) simp
qed

subsection \<open>A streamed answer\<close>

text \<open>The client that \<open>run\<close> builds is the bridge of the handlers that it builds.\<close>

lemma wire_up_bridge:
  assumes "wire_up ce cd net rt stdout logs cfg = Inr gw"
  shows "h_bridge (gw_handlers gw) = client_ops cd (net\<lparr>ne_parse := ce_parse_url ce\<rparr>) (gw_client gw)"
    and "h_cd (gw_handlers gw) = cd" and "h_rt (gw_handlers gw) = rt"
    and "h_defaultModel (gw_handlers gw) = cf_DefaultModel cfg"
    and "h_maxRequestBytes (gw_handlers gw) = cf_MaxRequestBytes cfg"
  using assms by (auto simp: wire_up_def Server.New_def Let_def split: sum.splits if_splits)

text \<open>A response with a status of the 200s opens a stream on its body.\<close>

lemma client_streams:
  assumes "\<And>u. ne_build net ''POST'' u = None" and "\<And>x. ne_net net x = Inr p"
    and "200 \<le> hs_Status p" and "hs_Status p < 300"
  shows "br_ChatStream (client_ops cd net c) bq = Inr (newChatStream (hs_Body p))"
proof -
  have "client_do net policy hops x = (Inr p, [x])" for policy hops x
    using assms(2-4) by (simp add: client_do.simps [of net policy hops x] redirect_status_def)
  then show ?thesis
    using assms(1,3,4)
    by (simp add: client_ops_def map_left_def BridgeClient.ChatStream_def Let_def)
qed

text \<open>C4: a streamed question gets the upstream's stream: for a gateway wired from a configuration, an
  admitted question that asks for a stream, and an upstream that answers with a status of the
  200s and lines within the limit, the caller gets status 200 with the request ID and the
  event-stream type, and reads from the body, by the rules of event streams, the events of
  every chunk on the upstream's lines in order and exactly one last event; and the audit log
  gets one event about this caller and this question.\<close>

theorem question_streamed:
  assumes "wire_up ce cd net rt stdout logs cfg = Inr gw" and "h = gw_handlers gw"
    and "admitted h env r sh token q" and "ask_Stream q"
    and "\<And>u. ne_build net ''POST'' u = None" and "\<And>x. ne_net net x = Inr p"
    and "200 \<le> hs_Status p" and "hs_Status p < 300"
    and "hs_Body p = \<lparr>bd_data = data, bd_end = None, bd_eager = eager, bd_closed = False\<rparr>"
    and "\<forall>l \<in> set (split_lines data). length l \<le> maxStreamLineBytes"
  shows "\<exists>cs res hdr latency.
    reference_results cd data = map StreamChunk cs @ [res] \<and> (\<forall>c. res \<noteq> StreamChunk c) \<and>
    c_sent (fst (public_serve version h env r (new_conn b (\<lambda>_. None)) sh)) = Some (200, hdr) \<and>
    hdr HeaderName = Some (request_id (re_rand env) (re_now env) r) \<and>
    hdr ''Content-Type'' = Some ''text/event-stream'' \<and>
    read_stream (c_body (fst (public_serve version h env r (new_conn b (\<lambda>_. None)) sh))) =
      map (\<lambda>ev. (ev_Type ev, [encode (ev_Data ev)]))
        (concat (map chunk_events cs) @
          [final_event (request_id (re_rand env) (re_now env) r) latency
            (fold (vars_step (LogQueryEnabled (sh_audit sh))) cs
              (init_vars (modelOrDefault (ask_Model q) (cf_DefaultModel cfg)))) res]) \<and>
    audited (sh_audit sh) (sh_audit (snd (public_serve version h env r (new_conn b (\<lambda>_. None)) sh)))
      (request_id (re_rand env) (re_now env) r) (CallerIdentity (rtm_sha256 rt) token) (ask_Query q)
      stream_outcome"
proof -
  note gw = wire_up_bridge [OF assms(1), folded assms(2)]
  let ?c = "new_conn b (\<lambda>_. None)" and ?r = "WithValue r (id_of env r)"
  have stream: "br_ChatStream (h_bridge h) bq = Inr (newChatStream (hs_Body p))" for bq
    unfolding gw(1) by (rule client_streams) (simp_all add: assms(5-8))
  obtain s1 where s1: "sv_w s1 = new_statusWriter (conn_set_header HeaderName (id_of env r) ?c)"
    "sh_audit s1 = sh_audit sh"
    and run: "ask h ?r (ask_entry h env r ?c token sh) =
      fst (askStream h ?r q (upstream_question h q) (caller_by h token) (id_of env r) s1)"
    using admitted_ask [OF assms(3), of ?c] assms(4) by metis
  have model: "cq_Model (upstream_question h q) = modelOrDefault (ask_Model q) (cf_DefaultModel cfg)"
    by (simp add: bridge_request_def gw)
  obtain cs res hdr latency where
    results: "stream_results cd (newChatStream (hs_Body p)) = map StreamChunk cs @ [res]"
      "\<forall>c. res \<noteq> StreamChunk c"
    and sent: "c_sent (fst (public_serve version h env r ?c sh)) = Some (200, hdr)"
      "hdr ''Content-Type'' = Some ''text/event-stream''"
    and body: "c_body (fst (public_serve version h env r ?c sh)) =
      concat (map sse_frame (concat (map chunk_events cs) @ [final_event (id_of env r) latency
        (fold (vars_step (LogQueryEnabled (sh_audit sh))) cs
          (init_vars (modelOrDefault (ask_Model q) (cf_DefaultModel cfg)))) res]))"
    using askStream_body [OF fresh_entry [OF s1(1)] stream, where r = ?r and q = q
        and bq = "upstream_question h q" and caller = "caller_by h token" and reqID = "id_of env r"]
    unfolding public_ask_entry(1) [OF assms(3)] run s1(2) gw(2) model by blast
  have "reference_results cd data = map StreamChunk cs @ [res]"
    using results(1) stream_results_reference [OF assms(10)] unfolding assms(9) by metis
  moreover have "audited (sh_audit sh) (sh_audit (snd (public_serve version h env r ?c sh)))
      (id_of env r) (CallerIdentity (rtm_sha256 rt) token) (ask_Query q) stream_outcome"
    using askStream_audit [where h = h and bq = "upstream_question h q" and s = s1 and r = ?r and q = q
        and caller = "caller_by h token" and reqID = "id_of env r"]
    by (simp add: public_ask_entry(2) [OF assms(3)] run s1 gw(3))
  ultimately show ?thesis
    using results(2) sent admitted_head(1) [OF assms(3) sent(1)]
    unfolding body read_frames [OF stream_types_plain] by blast
qed

subsection \<open>Concrete questions\<close>

lemma sample_admitted:
  fixes h :: "(int, int) handlers"
  assumes "h_rt h = sample_runtime" and "100 \<le> h_maxRequestBytes h"
  shows "admitted h sample_env (ask_request (encode (AskRequest_json (sample_ask\<lparr>ask_Stream := b\<rparr>))))
    sample_shared ''old'' (sample_ask\<lparr>ask_Stream := b\<rparr>)"
proof -
  have "extractBearer ''Bearer old'' = Inr ''old''" by code_simp
  then show ?thesis
    using assms sample_accepted_within [of "nat (h_maxRequestBytes h)" "h_cd h" b]
    by (simp add: admitted_def ask_request_def header_get_def sample_env_def sample_shared_def
        loaded_source_def AuthSource.Validate_def reloadIfChanged_def stat_failed_def compare_token_def
        sample_runtime_def drain_lib_def RateLimit.New_def Allow_def lookup_or_create_def
        fresh_bucket_def)
qed

abbreviation sample_question_request :: "bool \<Rightarrow> Request" where
  "sample_question_request b \<equiv>
     ask_request (encode (AskRequest_json (sample_ask\<lparr>ask_Stream := b\<rparr>)))"

definition answering_handlers :: "(int, int) handlers" where
  "answering_handlers =
     sample_handlers\<lparr>h_bridge := sample_bridge\<lparr>br_Chat := \<lambda>_. Inr zero_ChatResponse\<rparr>\<rparr>"

theorem question_answered_witness:
  "\<exists>latency.
     c_body (fst (public_serve ''v1'' answering_handlers sample_env (sample_question_request False)
       (new_conn True (\<lambda>_. None)) sample_shared)) =
     encode (AskResponse_json
       (ask_response (request_id (Some (replicate 8 CHR ''x'')) 0 (sample_question_request False))
         (sample_ask\<lparr>ask_Stream := False\<rparr>) zero_ChatResponse latency))"
proof -
  have "admitted answering_handlers sample_env (sample_question_request False) sample_shared ''old''
      (sample_ask\<lparr>ask_Stream := False\<rparr>)"
    by (rule sample_admitted) (simp_all add: answering_handlers_def sample_handlers_def)
  from question_answered [OF this, of zero_ChatResponse "''v1''" True] show ?thesis
    by (auto simp: answering_handlers_def sample_env_def ask_response_def)
qed

text \<open>An upstream that streams two chunks, and the gateway in front of it.\<close>

definition streaming_net :: net_env where
  "streaming_net = redirecting_env
     \<lparr>ne_net := \<lambda>_. Inr \<lparr>hs_Status = 200, hs_Location = [],
        hs_Body = \<lparr>bd_data = ndjson, bd_end = None, bd_eager = False, bd_closed = False\<rparr>\<rparr>\<rparr>"

theorem question_streamed_witness:
  "\<exists>(gw :: (int, int) gateway) hdr.
     c_sent (fst (public_serve ''v1'' (gw_handlers gw) sample_env (sample_question_request True)
       (new_conn True (\<lambda>_. None)) sample_shared)) = Some (200, hdr) \<and>
     hdr ''Content-Type'' = Some ''text/event-stream''"
proof -
  obtain gw :: "(int, int) gateway" where
    gw: "wire_up sample_config_env plain_codec streaming_net sample_runtime (\<lambda>_. None) [] DefaultConfig
      = Inr gw"
    by (auto simp: wire_up_def BridgeClient.New_def Server.New_def Let_def sample_config_env_def
        DefaultConfig_def)
  have "admitted (gw_handlers gw) sample_env (sample_question_request True) sample_shared ''old''
      (sample_ask\<lparr>ask_Stream := True\<rparr>)"
    by (rule sample_admitted) (simp_all add: wire_up_bridge [OF gw] DefaultConfig_def)
  moreover have "split_lines ndjson = [''{}'', [], ''null'' @ [CHR 0x0D]]" by code_simp
  ultimately show ?thesis
    using question_streamed [OF gw refl, of sample_env "sample_question_request True" sample_shared
        "''old''" "sample_ask\<lparr>ask_Stream := True\<rparr>"
        "\<lparr>hs_Status = 200, hs_Location = [],
          hs_Body = \<lparr>bd_data = ndjson, bd_end = None, bd_eager = False, bd_closed = False\<rparr>\<rparr>"
        ndjson False "''v1''" True]
    by (auto simp: streaming_net_def redirecting_env_def maxStreamLineBytes_def)
qed

end
