(* ===== verification/Concurrent.thy ===== *)
theory Concurrent
  imports Programs EndToEnd
begin

text \<open>
  The gateway under concurrent requests: what every path of a request's program does, whatever the
  other goroutines do to the shared state between its accesses, and from that what holds of any
  interleaving of any number of requests.
\<close>

subsection \<open>Paths of the handlers\<close>

fun call_family :: "metric_call \<Rightarrow> family" where
  "call_family (CallInc f ls) = f"
| "call_family (CallAdd f ls d) = f"
| "call_family (CallGaugeInc f) = f"
| "call_family (CallGaugeDec f) = f"
| "call_family (CallObserve f ls n d) = f"

text \<open>A handler leaves the metrics of the middleware alone.\<close>

fun inner :: "action \<Rightarrow> bool" where
  "inner (AMetric c) = (call_family c \<notin> {Requests, InFlight, RequestDuration})"
| "inner _ = True"

fun is_audit :: "action \<Rightarrow> bool" where
  "is_audit (AAudit now e) = True"
| "is_audit _ = False"

abbreviation inner_trace :: "trace \<Rightarrow> bool" where
  "inner_trace t \<equiv> list_all (\<lambda>x. inner (fst x)) t"

definition fresh_writer :: "bytes \<Rightarrow> statusWriter \<Rightarrow> bool" where
  "fresh_writer i w \<longleftrightarrow> sw_ok w \<and> sw_sent w = None \<and> sw_header w HeaderName = Some i"

definition writer_answered :: "bytes \<Rightarrow> int set \<Rightarrow> statusWriter \<Rightarrow> bool" where
  "writer_answered i codes w \<longleftrightarrow> (\<exists>p. committed p w \<and> good_head i codes p)"

lemma pending_attach: "pending i (attach w s) = fresh_writer i w"
  and answered_attach: "answered i codes (attach w s) = writer_answered i codes w"
  by (simp_all add: pending_def fresh_writer_def answered_def writer_answered_def prog_simps)

text \<open>
  On every path, a handler's program leaves a response with the request's ID and a documented
  status, and \<open>Q\<close> holds of the audit events that it has written and that status.
\<close>

definition serves ::
  "bytes \<Rightarrow> ((bytes \<times> Event) list \<Rightarrow> int \<Rightarrow> bool) \<Rightarrow> statusWriter prog \<Rightarrow> bool" where
  "serves i Q p \<longleftrightarrow>
     on_paths p (\<lambda>t w. inner_trace t \<and>
       (\<exists>code hdr. committed (code, hdr) w \<and> good_head i route_codes (code, hdr) \<and>
          Q (events_of t) code))"

lemma serves_Done:
  assumes "writer_answered i codes w" and "codes \<subseteq> route_codes" and "\<And>code. code \<in> codes \<Longrightarrow> Q [] code"
  shows "serves i Q (Done w)"
  using assms by (fastforce simp: serves_def writer_answered_def good_head_def)

lemma serves_mono:
  "serves i Q p \<Longrightarrow> (\<And>es code. Q es code \<Longrightarrow> R es code) \<Longrightarrow> serves i R p"
  unfolding serves_def by (erule on_paths_mono) blast

lemma events_of_other: "\<not> is_audit act \<Longrightarrow> events_of ((act, r) # t) = events_of t"
  by (cases act) simp_all

lemma serves_Do:
  assumes "inner act" and "\<not> is_audit act" and "\<And>r. fits act r \<Longrightarrow> serves i Q (k r)"
  shows "serves i Q (Do act k)"
  using assms by (simp add: serves_def events_of_other)

lemma serves_act: "inner act \<Longrightarrow> \<not> is_audit act \<Longrightarrow> serves i Q p \<Longrightarrow> serves i Q (do_act act p)"
  unfolding do_act_def by (rule serves_Do)

lemma serves_now: "(\<And>now. serves i Q (k now)) \<Longrightarrow> serves i Q (do_now k)"
  unfolding do_now_def by (rule serves_Do) simp_all

lemma serves_metrics:
  "\<forall>c \<in> set cs. call_family c \<notin> {Requests, InFlight, RequestDuration} \<Longrightarrow> serves i Q p \<Longrightarrow>
   serves i Q (do_metrics cs p)"
proof (induction cs)
  case (Cons c cs)
  then have "serves i Q (do_act (AMetric c) (do_metrics cs p))" by (intro serves_act) simp_all
  then show ?case by (simp add: do_metrics_def)
qed (simp add: do_metrics_def)

lemma serves_audit:
  assumes "\<And>now. serves i (\<lambda>es. Q ((now, e) # es)) p"
  shows "serves i Q (audit_prog h e p)"
proof -
  have "serves i (\<lambda>es. Q ((now, e) # es)) (do_act (ASlog lv msg attrs) p)" for now lv msg attrs
    by (rule serves_act) (simp_all add: assms)
  then show ?thesis
    using assms
    by (simp add: audit_prog_def do_now_def serves_def split: option.split)
qed

lemma observation_families:
  "c \<in> set (token_calls model p n) \<Longrightarrow> call_family c = ModelTokens"
  "c \<in> set (tool_observations tcs) \<Longrightarrow> call_family c = ToolCalls \<or> call_family c = ToolDuration"
  "call_family (upstream_call op e) = UpstreamErrors"
  by (auto simp: token_calls_def tool_observations_def upstream_call_def Let_def split: if_splits)

lemma writer_problem:
  assumes "fresh_writer i w" and "code \<noteq> 200" and "FromContext r = i"
  shows "writer_answered i {code} (writeProblem_w r code title detail w)"
    and "writer_answered i {code} (auth_writeProblem_w r code title detail w)"
  using answered_writeProblem [of i "attach w s" code "{code}" r title detail for s]
    answered_auth_writeProblem [of i "attach w s" code "{code}" r title detail for s] assms
  by (simp_all add: prog_simps pending_attach answered_attach)

lemma writer_json:
  assumes "fresh_writer i w" shows "writer_answered i {200} (json_response 200 v w)"
  using answered_writeJSON [of i "attach w s" "{200}" undefined v for s] assms
  by (simp add: prog_simps pending_attach answered_attach)

lemma serves_map_error:
  assumes "fresh_writer i w" and "FromContext r = i"
    and "\<And>w1. writer_answered i {bridgeErrorStatus e} w1 \<Longrightarrow> serves i Q (k w1)"
  shows "serves i Q (map_error_prog r op e w k)"
proof -
  have "bridgeErrorStatus e \<noteq> 200" using bridgeErrorStatus_values [of e] by auto
  then have "writer_answered i {bridgeErrorStatus e} (bridge_problem r e w)"
    using writer_problem(1) [OF assms(1) _ assms(2)] by (simp add: bridge_problem_def)
  then show ?thesis
    using assms(3) by (simp add: map_error_prog_def serves_act split_beta)
qed

subsection \<open>The streaming handler\<close>

lemma committed_fold:
  "committed p w \<Longrightarrow> committed p (snd (fold writeSSE evs (f, w)))"
  by (induction evs arbitrary: f w) (simp_all, metis prod.collapse snd_conv writeSSE_committed)

lemma frames_paths:
  "committed p (snd fw) \<Longrightarrow>
   on_paths (frames_prog h cs fw) (\<lambda>t fw'. inner_trace t \<and> events_of t = [] \<and> committed p (snd fw'))"
proof (induction cs arbitrary: fw)
  case (Cons c cs)
  have "on_paths (frames_prog h cs (fold writeSSE (chunk_events c)
      (fst fw, snd (sw_SetWriteDeadline t (snd fw)))))
      (\<lambda>t fw'. inner_trace t \<and> events_of t = [] \<and> committed p (snd fw'))" for t
    using Cons.prems by (intro Cons.IH committed_fold) (simp add: writer_simps)
  then show ?case by (simp add: do_now_def)
qed simp

lemma serves_bind:
  assumes "on_paths p (\<lambda>t x. inner_trace t \<and> events_of t = [] \<and> P x)"
    and "\<And>x. P x \<Longrightarrow> serves i Q (q x)"
  shows "serves i Q (bind p q)"
  unfolding serves_def on_paths_bind
proof (rule on_paths_mono [OF assms(1)])
  fix t x assume "inner_trace t \<and> events_of t = [] \<and> P x"
  with assms(2) [of x] show "on_paths (q x) (\<lambda>u w. inner_trace (t @ u) \<and>
      (\<exists>code hdr. committed (code, hdr) w \<and> good_head i route_codes (code, hdr) \<and>
         Q (events_of (t @ u)) code))"
    by (simp add: serves_def)
qed

text \<open>One event about this request; \<open>ask_event\<close> ties it to the status of the response.\<close>

definition ask_event ::
  "bytes \<Rightarrow> bytes \<Rightarrow> bytes \<Rightarrow> (bytes \<times> Event) list \<Rightarrow> int \<Rightarrow> bool" where
  "ask_event reqID caller query es code \<longleftrightarrow>
     (\<exists>now e. es = [(now, e)] \<and> ev_RequestID e = reqID \<and> ev_CallerIdentity e = caller \<and>
        ev_Query e = query \<and> (code = 429 \<longleftrightarrow> ev_Outcome e = ''rate_limited'') \<and>
        (ev_Outcome e = ''ok'' \<longrightarrow> code = 200))"

lemma serves_event:
  assumes "writer_answered i codes w" and "codes \<subseteq> route_codes"
    and "ev_RequestID e = reqID" and "ev_CallerIdentity e = caller" and "ev_Query e = query"
    and "\<And>code. code \<in> codes \<Longrightarrow> (code = 429 \<longleftrightarrow> ev_Outcome e = ''rate_limited'') \<and>
      (ev_Outcome e = ''ok'' \<longrightarrow> code = 200)"
  shows "serves i (ask_event reqID caller query) (audit_prog h e (Done w))"
proof (rule serves_audit)
  fix now
  show "serves i (\<lambda>es. ask_event reqID caller query ((now, e) # es)) (Done w)"
    by (rule serves_Done [OF assms(1,2)]) (use assms(3-6) in \<open>simp add: ask_event_def\<close>)
qed

lemma code_sets: "200 \<in> route_codes" "429 \<in> route_codes" "bridgeErrorStatus e \<in> route_codes"
  using bridgeErrorStatus_values [of e] by (auto simp: route_codes_def ask_codes_def)

lemma stream_committed_answered:
  "committed p w \<Longrightarrow> good_head i {200} p \<Longrightarrow> writer_answered i {200} (snd (writeSSE ev (f, w)))"
  unfolding writer_answered_def by (rule exI [of _ p]) (use writeSSE_committed [of p "(f, w)" ev] in simp)

lemma serves_run_stream:
  assumes "fresh_writer i w"
  shows "serves i (ask_event reqID caller (ask_Query q)) (run_stream_prog h q bq caller reqID start stream w)"
proof -
  let ?Q = "ask_event reqID caller (ask_Query q)"
  obtain cs res where res: "stream_results (h_cd h) stream = map StreamChunk cs @ [res]"
    "\<forall>c. res \<noteq> StreamChunk c"
    using stream_results_form by blast
  obtain p where p: "committed p (sw_Flush (sw_WriteHeader 200 (set_stream_headers w)))"
    "good_head i {200} p"
    using stream_head [of i "attach w s" for s] assms by (auto simp: pending_attach prog_simps)
  have answered: "writer_answered i {200} (snd (writeSSE ev fw))" if "committed p (snd fw)" for ev fw
    using stream_committed_answered [OF that p(2)] by (cases fw) simp
  have "serves i ?Q (done_prog h q caller reqID start x fw)" if "committed p (snd fw)" for x fw
    unfolding done_prog_def Let_def
    by (intro serves_now serves_metrics serves_event [OF answered [OF that]])
      (use observation_families code_sets in \<open>fastforce+\<close>)
  moreover have "serves i ?Q (failed_prog h q caller reqID start x e fw)" if "committed p (snd fw)" for x e fw
    unfolding failed_prog_def Let_def
    by (intro serves_now serves_metrics serves_event [OF answered [OF that]])
      (use observation_families code_sets in \<open>auto\<close>)
  ultimately show ?thesis
    unfolding run_stream_prog_frames [OF res] Let_def
    by (intro serves_now serves_Do serves_bind [OF frames_paths [where p = p]])
      (auto simp: p(1) writer_simps split: loop_end.split)
qed

subsection \<open>The other handlers\<close>

text \<open>
  What a question leaves: no event with a status that is neither success nor a refusal by the
  limiter, or one event about the accepted question.
\<close>

definition ask_trail ::
  "('l, 'b) handlers \<Rightarrow> Request \<Rightarrow> (bytes \<times> Event) list \<Rightarrow> int \<Rightarrow> bool" where
  "ask_trail h r es code \<longleftrightarrow>
     es = [] \<and> code \<notin> {200, 429} \<or>
     (\<exists>q. accept_request (h_cd h) (nat (h_maxRequestBytes h)) r = Inr q \<and>
        ask_event (FromContext r) (caller_of h r) (ask_Query q) es code)"

lemma error_status: "bridgeErrorStatus e \<noteq> 200" "bridgeErrorStatus e \<noteq> 429"
  using bridgeErrorStatus_values [of e] by auto

lemma serves_ask_stream:
  assumes "fresh_writer i w" and "FromContext r = i"
  shows "serves i (ask_event reqID caller (ask_Query q)) (ask_stream_prog h r q bq caller reqID w)"
proof -
  have "serves i (ask_event reqID caller (ask_Query q))
      (do_metrics [upstream_call ''chat_stream'' e]
        (map_error_prog r ''chat_stream'' e w (\<lambda>w1. do_now (\<lambda>now. audit_prog h
          \<lparr>ev_Timestamp = None, ev_RequestID = reqID, ev_CallerIdentity = caller,
           ev_Model = cq_Model bq, ev_PromptTokens = 0, ev_CompletionTokens = 0, ev_ToolCalls = [],
           ev_LatencyMS = millis (now - start), ev_Status = bridgeErrorStatus e,
           ev_Outcome = ''error'', ev_Query = ask_Query q, ev_Answer = []\<rparr> (Done w1)))))" for e start
    by (intro serves_metrics serves_map_error [OF assms] serves_now, simp add: observation_families,
        erule serves_event) (simp_all add: code_sets error_status)
  then show ?thesis
    using serves_run_stream [OF assms(1)]
    by (auto simp: ask_stream_prog_def statusWriter_methods_def intro!: serves_now split: sum.split)
qed

lemma serves_ask_plain:
  assumes "fresh_writer i w" and "FromContext r = i"
  shows "serves i (\<lambda>es code. es = [] \<and> code \<notin> {200, 429} \<or> ask_event reqID caller (ask_Query q) es code)
    (ask_plain_prog h r q bq caller reqID w)"
proof (cases "br_Chat (h_bridge h) bq")
  case (Inl e)
  show ?thesis
    unfolding ask_plain_prog_def Inl sum.case
    by (intro serves_now serves_metrics serves_map_error [OF assms], simp add: observation_families,
        erule serves_Done) (use bridgeErrorStatus_values [of e] code_sets in auto)
next
  case (Inr resp)
  let ?ev = "ask_event reqID caller (ask_Query q)"
  have "serves i ?ev (ask_plain_prog h r q bq caller reqID w)"
    unfolding ask_plain_prog_def Inr sum.case Let_def
    by (intro serves_now serves_metrics serves_event [OF writer_json [OF assms(1)]])
      (use observation_families code_sets in fastforce)+
  then show ?thesis by (rule serves_mono) simp
qed

lemma serves_limited:
  assumes "fresh_writer i w" and "FromContext r = i"
  shows "serves i (ask_event (FromContext r) caller (ask_Query q)) (limited_prog h r q caller w)"
proof -
  have p: "writer_answered i {429} (writeProblem_w r 429 title detail w)" for title detail
    by (rule writer_problem(1) [OF assms(1) _ assms(2)]) simp
  then show ?thesis
    unfolding limited_prog_def Let_def
    by (intro serves_metrics serves_Do serves_event [OF p]) (use code_sets in auto)
qed

lemma serves_ask:
  assumes "fresh_writer i w" and "FromContext r = i"
  shows "serves i (ask_trail h r) (ask_prog h r w)"
proof (cases "accept_request (h_cd h) (nat (h_maxRequestBytes h)) r")
  case (Inl x)
  obtain st d where x: "x = (st, d)" by force
  have st: "st \<in> {400, 413, 415}" using accept_request_codes [OF Inl [unfolded x]] by auto
  then have "writer_answered i {st} (writeProblem_w r st (problemTitleFor st) d w)"
    by (intro writer_problem(1) [OF assms(1) _ assms(2)]) auto
  then have "serves i (ask_trail h r) (Done (writeProblem_w r st (problemTitleFor st) d w))"
    by (rule serves_Done) (use st in \<open>auto simp: route_codes_def ask_codes_def ask_trail_def\<close>)
  then show ?thesis by (simp add: ask_prog_def Inl x)
next
  case (Inr q)
  let ?ev = "ask_event (FromContext r) (caller_of h r) (ask_Query q)"
  have trail: "es = [] \<and> code \<notin> {200, 429} \<or> ?ev es code \<Longrightarrow> ask_trail h r es code" for es code
    using Inr by (auto simp: ask_trail_def)
  have "serves i (ask_trail h r) (limited_prog h r q (caller_of h r) w)"
    "serves i (ask_trail h r) (ask_stream_prog h r q bq (caller_of h r) (FromContext r) w)"
    "serves i (ask_trail h r) (ask_plain_prog h r q bq (caller_of h r) (FromContext r) w)" for bq
    by (rule serves_mono [OF serves_limited [OF assms]] serves_mono [OF serves_ask_stream [OF assms]]
        serves_mono [OF serves_ask_plain [OF assms]]; blast intro: trail)+
  then show ?thesis
    by (auto simp: ask_prog_def Inr Let_def intro!: serves_now serves_Do)
qed

lemma serves_tools:
  "fresh_writer i w \<Longrightarrow> serves i (\<lambda>es code. es = []) (tools_prog h r w)"
  unfolding tools_prog_def by (rule serves_Done [OF writer_json]) (auto simp: code_sets)

lemma serves_models:
  assumes "fresh_writer i w" and "FromContext r = i"
  shows "serves i (\<lambda>es code. es = []) (models_prog h r w)"
proof (cases "br_Models (h_bridge h)")
  case (Inl e)
  show ?thesis
    unfolding models_prog_def Inl sum.case
    by (intro serves_map_error [OF assms], erule serves_Done) (auto simp: code_sets)
next
  case (Inr tags)
  show ?thesis
    unfolding models_prog_def Inr sum.case
    by (rule serves_Done [OF writer_json [OF assms(1)]]) (auto simp: code_sets)
qed

lemma serves_validate:
  assumes "\<And>v. declared v \<Longrightarrow> serves i Q (k v)"
  shows "serves i Q (validate_prog ob c k)"
proof -
  have fetch: "serves i Q (Do AToken (\<lambda>r. k (compare_token c (token_read r))))"
    by (rule serves_Do) (auto intro: assms simp: declared_errors)
  show ?thesis
    unfolding validate_prog_def Let_def
    by (auto intro!: serves_Do fetch assms split: sum.split option.split)
qed

lemma serves_auth:
  assumes "fresh_writer i w" and "FromContext r = i" and "serves i Q (next_prog r w)"
    and "\<And>code. code \<in> {401, 503} \<Longrightarrow> Q [] code"
  shows "serves i Q (auth_prog ob next_prog r w)"
proof -
  have refuse: "serves i Q (do_act (ASlog lv msg attrs) (Done (auth_writeProblem_w r code t d w)))"
    if "code \<in> {401, 503}" for lv msg attrs code t d
    using that
    by (intro serves_act serves_Done [OF writer_problem(2) [OF assms(1) _ assms(2), of code]])
      (auto simp: assms(4) route_codes_def ask_codes_def)
  show ?thesis
    using assms(3)
    by (auto simp: auth_prog_def declared_def intro!: refuse serves_validate split: sum.split option.split auth_error.split)
qed

subsection \<open>Paths of a request\<close>

text \<open>
  The accesses of an API request: the middleware's own around those of the handler, with the status
  of the response in the last one.
\<close>

definition counted :: "bytes \<Rightarrow> bytes \<Rightarrow> int \<Rightarrow> trace \<Rightarrow> trace \<Rightarrow> bool" where
  "counted endpoint m code t u \<longleftrightarrow>
     (\<exists>start now. inner_trace u \<and>
        t = [(ANow, RTime start), (AMetric (CallGaugeInc InFlight), RUnit)] @ u @
            [(AMetric (CallGaugeDec InFlight), RUnit), (ANow, RTime now),
             (AMetric (CallObserve RequestDuration [endpoint, m] (now - start) (10 ^ 9)), RUnit),
             (AMetric (CallInc Requests [endpoint, m, dec_int code]), RUnit)])"

definition request_served ::
  "bytes \<Rightarrow> bytes \<Rightarrow> bytes \<Rightarrow> ((bytes \<times> Event) list \<Rightarrow> int \<Rightarrow> bool) \<Rightarrow> trace \<Rightarrow> Conn \<Rightarrow> bool" where
  "request_served endpoint m i Q t c \<longleftrightarrow>
     (\<exists>u code hdr. c_sent c = Some (code, hdr) \<and> good_head i route_codes (code, hdr) \<and>
        counted endpoint m code t u \<and> Q (events_of u) code)"

lemma metrics_paths:
  assumes "serves i Q (next_prog r (new_statusWriter c))"
  shows "on_paths (metrics_prog endpoint next_prog r c) (request_served endpoint (rq_Method r) i Q)"
proof -
  let ?tail = "\<lambda>start w. do_metrics [CallGaugeDec InFlight] (do_now (\<lambda>now. do_metrics
      [CallObserve RequestDuration [endpoint, rq_Method r] (now - start) (10 ^ 9),
       CallInc Requests [endpoint, rq_Method r, dec_int (sw_status w)]] (Done (sw_inner w))))"
  have "on_paths (next_prog r (new_statusWriter c)) (\<lambda>u w. on_paths (?tail start w)
      (\<lambda>v. request_served endpoint (rq_Method r) i Q
        ((ANow, RTime start) # (AMetric (CallGaugeInc InFlight), RUnit) # u @ v)))" for start
    by (rule on_paths_mono [OF assms [unfolded serves_def]])
      (auto simp: do_metrics_def do_act_def do_now_def request_served_def counted_def committed_def
        sw_ok_status)
  then show ?thesis
    by (auto simp: metrics_prog_def do_now_def do_metrics_def do_act_def on_paths_bind)
qed

lemma route_paths:
  assumes "\<And>i r w. fresh_writer i w \<Longrightarrow> FromContext r = i \<Longrightarrow> serves i (Q r) (hdl r w)"
    and "\<And>r code. code \<in> {401, 503} \<Longrightarrow> Q r [] code" and "c_sent c = None"
  shows "on_paths (route_prog endpoint hdl env r c)
    (request_served endpoint (rq_Method r) (request_id (re_rand env) (re_now env) r)
      (Q (WithValue r (request_id (re_rand env) (re_now env) r))))"
proof -
  let ?i = "request_id (re_rand env) (re_now env) r"
  have fresh: "fresh_writer ?i (new_statusWriter (conn_set_header HeaderName ?i c))"
    using assms(3)
    by (simp add: fresh_writer_def sw_ok_new writer_simps) (simp add: new_statusWriter_def writer_simps)
  have "serves ?i (Q (WithValue r ?i)) (auth_prog (re_auth env) hdl (WithValue r ?i)
      (new_statusWriter (conn_set_header HeaderName ?i c)))"
  proof (rule serves_auth [OF fresh])
    show "serves ?i (Q (WithValue r ?i)) (hdl (WithValue r ?i)
        (new_statusWriter (conn_set_header HeaderName ?i c)))"
      by (rule assms(1) [OF fresh]) simp
  qed (use assms(2) in simp_all)
  moreover have "rq_Method (WithValue r ?i) = rq_Method r" by (simp add: WithValue_def)
  ultimately show ?thesis
    using metrics_paths [of ?i "Q (WithValue r ?i)" "auth_prog (re_auth env) hdl" "WithValue r ?i"
        "conn_set_header HeaderName ?i c" endpoint]
    by (simp add: route_prog_def RequestId.Middleware_def Let_def)
qed

text \<open>A request for one of the three endpoints, and what one leaves behind it in the audit log.\<close>

definition api_request :: "Request \<Rightarrow> bool" where
  "api_request r \<longleftrightarrow>
     rq_Path r = ''/v1/ask'' \<and> rq_Method r = ''POST'' \<or>
     rq_Path r \<in> {''/v1/tools'', ''/v1/models''} \<and> rq_Method r \<in> {''GET'', ''HEAD''}"

definition request_trail ::
  "('l, 'b) handlers \<Rightarrow> bytes \<Rightarrow> Request \<Rightarrow> (bytes \<times> Event) list \<Rightarrow> int \<Rightarrow> bool" where
  "request_trail h i r es code \<longleftrightarrow>
     (if rq_Path r = ''/v1/ask''
      then es = [] \<and> code \<notin> {200, 429} \<or>
        (\<exists>q. accept_request (h_cd h) (nat (h_maxRequestBytes h)) r = Inr q \<and>
           ask_event i (caller_of h r) (ask_Query q) es code)
      else es = [])"

lemma caller_of_WithValue: "caller_of h (WithValue r i) = caller_of h r"
  by (simp add: caller_of_def)

lemma api_mux:
  "mux_match (api_progs h) (rq_Method r) (rq_Path r) =
     (if \<not> api_request r then None
      else if rq_Path r = ''/v1/ask''
      then Some ((Some ''POST'', ''/v1/ask''), route_prog ''/v1/ask'' (ask_prog h))
      else if rq_Path r = ''/v1/tools''
      then Some ((Some ''GET'', ''/v1/tools''), route_prog ''/v1/tools'' (tools_prog h))
      else Some ((Some ''GET'', ''/v1/models''), route_prog ''/v1/models'' (models_prog h)))"
  by (auto simp: api_progs_def api_request_def pattern_matches_def method_matches_def
      path_matches_def)

lemma ask_route_paths:
  assumes "c_sent c = None" and "rq_Path r = ''/v1/ask''"
  shows "on_paths (route_prog ''/v1/ask'' (ask_prog h) env r c)
    (request_served (rq_Path r) (rq_Method r) (id_of env r) (request_trail h (id_of env r) r))"
proof -
  have "on_paths (route_prog ''/v1/ask'' (ask_prog h) env r c)
    (request_served ''/v1/ask'' (rq_Method r) (id_of env r) (ask_trail h (WithValue r (id_of env r))))"
    by (rule route_paths [where Q = "ask_trail h", OF serves_ask _ assms(1)])
      (auto simp: ask_trail_def)
  moreover have "ask_trail h (WithValue r (id_of env r)) = request_trail h (id_of env r) r"
    using assms(2)
    by (intro ext)
      (simp add: ask_trail_def request_trail_def accept_WithValue caller_of_WithValue)
  ultimately show ?thesis using assms(2) by simp
qed

lemma api_prog_paths:
  assumes "api_request r" and "c_sent c = None"
  shows "on_paths (api_prog h env r c)
    (request_served (rq_Path r) (rq_Method r) (id_of env r) (request_trail h (id_of env r) r))"
proof -
  have quiet: "on_paths (route_prog endpoint hdl env r c)
      (request_served endpoint (rq_Method r) (id_of env r) (\<lambda>es code. es = []))"
    if "\<And>i r w. fresh_writer i w \<Longrightarrow> FromContext r = i \<Longrightarrow> serves i (\<lambda>es code. es = []) (hdl r w)"
    for endpoint hdl
    by (rule route_paths [where Q = "\<lambda>r es code. es = []", OF that _ assms(2)]) simp_all
  have trail: "request_trail h (id_of env r) r = (\<lambda>es code. es = [])" if "rq_Path r \<noteq> ''/v1/ask''"
    using that by (intro ext) (simp add: request_trail_def)
  show ?thesis
    using assms(1) ask_route_paths [OF assms(2), of r h env] quiet [OF serves_tools]
      quiet [OF serves_models] trail
    by (auto simp: api_prog_def mux_serve_def Let_def api_mux api_request_def)
qed

text \<open>Every other request is answered without the middleware.\<close>

definition aside :: "trace \<Rightarrow> Conn \<Rightarrow> bool" where
  "aside t c \<longleftrightarrow> inner_trace t \<and> events_of t = [] \<and> c_sent c \<noteq> None"

lemma direct_sent:
  "c_sent c = None \<Longrightarrow> c_sent (http_NotFound c) \<noteq> None"
  "c_sent c = None \<Longrightarrow> c_sent (mux_redirect m url c) \<noteq> None"
  "c_sent c = None \<Longrightarrow> c_sent (http_Error msg code c) \<noteq> None"
  by (auto simp: http_NotFound_def http_Error_def mux_redirect_def Let_def writer_simps)

lemma mux_serve_aside:
  assumes "mux_match rs (rq_Method r) (rq_Path r) = None" and "c_sent c = None"
  shows "on_paths (mux_serve f (\<lambda>g. Done (g c)) rs r) aside"
  using assms direct_sent
  by (auto simp: mux_serve_def Let_def aside_def writer_simps split: option.split list.split)

lemma public_prog_paths:
  assumes "c_sent c = None"
  shows "api_request r \<Longrightarrow> on_paths (public_prog version h env r c)
      (request_served (rq_Path r) (rq_Method r) (id_of env r) (request_trail h (id_of env r) r))"
    and "\<not> api_request r \<Longrightarrow> on_paths (public_prog version h env r c) aside"
proof -
  have prefix: "has_prefix ''/v1/ask'' ''/v1/''" "has_prefix ''/v1/tools'' ''/v1/''"
    "has_prefix ''/v1/models'' ''/v1/''" by (simp_all add: has_prefix_def)
  show "on_paths (public_prog version h env r c)
      (request_served (rq_Path r) (rq_Method r) (id_of env r) (request_trail h (id_of env r) r))"
    if "api_request r"
    using that prefix api_prog_paths [OF that assms, of h env]
    by (auto simp: public_prog_def mux_serve_def Let_def newMux_match api_request_def)
  have api: "on_paths (api_prog h env r c) aside" if "\<not> api_request r"
    unfolding api_prog_def by (rule mux_serve_aside) (simp_all add: api_mux that assms)
  have health: "on_paths (health_prog version c) aside"
    using assms
    by (simp add: health_prog_def Let_def split_beta aside_def do_act_def writer_simps split: option.split)
  show "on_paths (public_prog version h env r c) aside" if "\<not> api_request r"
  proof (cases "mux_match newMux (rq_Method r) (rq_Path r)")
    case None
    then show ?thesis unfolding public_prog_def by (rule mux_serve_aside) (rule assms)
  next
    case (Some x)
    then show ?thesis
      using api [OF that] health
      by (cases "snd x") (simp_all add: public_prog_def mux_serve_def Let_def split_beta)
  qed
qed

subsection \<open>Any number of requests at once\<close>

text \<open>
  One request: what it meets, which writes to its connection fail, and how the bridge answers it;
  a request whose caller goes away is one whose writes fail and whose call of the bridge ends with
  the error of the context.
\<close>

record incoming =
  in_env :: request_env
  in_request :: Request
  in_fault :: "nat \<Rightarrow> nat option"
  in_bridge :: bridge_ops

definition request_prog :: "bytes \<Rightarrow> ('l, 'b) handlers \<Rightarrow> incoming \<Rightarrow> Conn prog" where
  "request_prog version h x =
     public_prog version (h\<lparr>h_bridge := in_bridge x\<rparr>) (in_env x) (in_request x)
       (new_conn True (in_fault x))"

definition serving ::
  "bytes \<Rightarrow> ('l, 'b) handlers \<Rightarrow> incoming list \<Rightarrow> ('l, 'b, Source) shared \<Rightarrow> ('l, 'b, Conn) pool" where
  "serving version h xs sh = start_pool (map (request_prog version h) xs) sh"

abbreviation own_id :: "incoming \<Rightarrow> bytes" where
  "own_id x \<equiv> request_id (re_rand (in_env x)) (re_now (in_env x)) (in_request x)"

definition path_spec ::
  "('l, 'b) handlers \<Rightarrow> incoming \<Rightarrow> trace \<Rightarrow> Conn \<Rightarrow> bool" where
  "path_spec h x =
     (if api_request (in_request x)
      then request_served (rq_Path (in_request x)) (rq_Method (in_request x)) (own_id x)
        (request_trail h (own_id x) (in_request x))
      else aside)"

lemma request_trail_bridge: "request_trail (h\<lparr>h_bridge := b\<rparr>) = request_trail h"
  by (intro ext) (simp add: request_trail_def caller_of_def)

lemma request_prog_paths: "on_paths (request_prog version h x) (path_spec h x)"
  using public_prog_paths [OF new_conn_unsent, of "in_request x" version "h\<lparr>h_bridge := in_bridge x\<rparr>"
      "in_env x" True "in_fault x"]
  by (simp add: request_prog_def path_spec_def request_trail_bridge)

lemma serving_paths:
  assumes "pool_steps rt (serving version h xs sh) s" and "i < length xs"
  shows "\<exists>u c. path_spec h (xs ! i) (mine i (po_trace s) @ u) c"
  by (rule unanswered_on_paths [OF assms(1) [unfolded serving_def]])
    (simp_all add: assms(2) request_prog_paths)

lemma serving_answer:
  assumes "pool_steps rt (serving version h xs sh) s" and "i < length xs"
    and "po_progs s ! i = Done c"
  shows "path_spec h (xs ! i) (mine i (po_trace s)) c"
  by (rule answered_on_paths [OF assms(1) [unfolded serving_def] _ assms(3)])
    (simp_all add: assms(2) request_prog_paths)

lemma answered_nth: "all_answered s \<Longrightarrow> i < length (po_progs s) \<Longrightarrow> \<exists>x. po_progs s ! i = Done x"
  by (simp add: all_answered_def)

lemma serving_length:
  "pool_steps rt (serving version h xs sh) s \<Longrightarrow> length (po_progs s) = length xs"
  using execution_inv unfolding serving_def by (fastforce simp: pool_inv_def)

lemma path_spec_response:
  "path_spec h x t c \<Longrightarrow>
   \<exists>code hdr. c_sent c = Some (code, hdr) \<and>
     (api_request (in_request x) \<longrightarrow>
        code \<in> {200, 400, 401, 413, 415, 429, 502, 503} \<and> hdr HeaderName = Some (own_id x) \<and>
        (code \<noteq> 200 \<longrightarrow> hdr ''Content-Type'' = Some ProblemContentType))"
  by (cases "api_request (in_request x)")
    (auto simp: path_spec_def request_served_def aside_def good_head_def route_codes_def ask_codes_def)

text \<open>C5: every request is answered, under any schedule: no execution of any number of concurrent
  requests is infinite, none gets stuck before every one of them has its response, and the
  response to an API request has a documented status, that request's own ID, never another
  one's, and \<open>application/problem+json\<close> as the type of every error.\<close>

theorem concurrent_requests_answered:
  "wfP (\<lambda>t s. pool_step rt s t) \<and>
   (\<forall>s. pool_steps rt (serving version h xs sh) s \<and> (\<nexists>t. pool_step rt s t) \<longrightarrow>
      (\<forall>i < length xs. \<exists>c code hdr. po_progs s ! i = Done c \<and> c_sent c = Some (code, hdr) \<and>
         (api_request (in_request (xs ! i)) \<longrightarrow>
            code \<in> {200, 400, 401, 413, 415, 429, 502, 503} \<and>
            hdr HeaderName =
              Some (request_id (re_rand (in_env (xs ! i))) (re_now (in_env (xs ! i))) (in_request (xs ! i))) \<and>
            (code \<noteq> 200 \<longrightarrow> hdr ''Content-Type'' = Some ProblemContentType))))"
proof (intro conjI wf_pool_step allI impI, elim conjE)
  fix s i
  assume steps: "pool_steps rt (serving version h xs sh) s" and stuck: "\<nexists>t. pool_step rt s t"
    and i: "i < length xs"
  have "all_answered s" using pool_progress stuck by blast
  then obtain c where c: "po_progs s ! i = Done c"
    using answered_nth [of s i] i serving_length [OF steps] by auto
  show "\<exists>c code hdr. po_progs s ! i = Done c \<and> c_sent c = Some (code, hdr) \<and>
      (api_request (in_request (xs ! i)) \<longrightarrow>
         code \<in> {200, 400, 401, 413, 415, 429, 502, 503} \<and> hdr HeaderName = Some (own_id (xs ! i)) \<and>
         (code \<noteq> 200 \<longrightarrow> hdr ''Content-Type'' = Some ProblemContentType))"
    using path_spec_response [OF serving_answer [OF steps i c]] c by blast
qed

end
