(* ===== verification/Accounts.thy ===== *)
theory Accounts
  imports Concurrent
begin

text \<open>
  The books of the gateway under concurrent requests: what the in-flight gauge, the request counter
  and the audit log are worth at any moment of any interleaving, in terms of the requests that are
  being served and of the responses that have been sent.
\<close>

subsection \<open>Effects on the metrics of the middleware\<close>

lemma metric_value_NewRegistry [simp]: "metric_value f ls NewRegistry = 0"
  by (simp add: metric_value_def NewRegistry_def)

lemma metric_effect_other: "f \<noteq> call_family c \<Longrightarrow> metric_effect f ls (AMetric c) = 0"
  by (cases c) (simp_all add: metric_effect_def metric_simps)

lemma metric_effect_inner:
  "inner act \<Longrightarrow> f \<in> {Requests, InFlight, RequestDuration} \<Longrightarrow> metric_effect f ls act = 0"
  by (cases act) (auto simp: metric_effect_other, simp_all add: metric_effect_def)

lemma metric_effects:
  "metric_effect f ls ANow = 0"
  "metric_effect f ls (AMetric (CallGaugeInc g)) = (if f = g \<and> ls = [] then 1 else 0)"
  "metric_effect f ls (AMetric (CallGaugeDec g)) = (if f = g \<and> ls = [] then - 1 else 0)"
  "metric_effect f ls (AMetric (CallObserve g ks n d)) = 0"
  "labels_fit g ks \<Longrightarrow>
   metric_effect f ls (AMetric (CallInc g ks)) = (if f = g \<and> ls = ks then 1 else 0)"
  by (simp_all add: metric_effect_def metric_simps)

lemma tally_inner:
  "inner_trace t \<Longrightarrow> f \<in> {Requests, InFlight, RequestDuration} \<Longrightarrow> tally f ls t = 0"
  by (induction t) (simp_all add: metric_effect_inner)

subsection \<open>A request in flight\<close>

text \<open>\<open>in_flight i tr\<close>: goroutine \<open>i\<close> has entered the middleware's handler and not left it.\<close>

definition in_flight :: "nat \<Rightarrow> (nat \<times> action \<times> reply) list \<Rightarrow> bool" where
  "in_flight i tr \<longleftrightarrow>
     (AMetric (CallGaugeInc InFlight), RUnit) \<in> set (mine i tr) \<and>
     (AMetric (CallGaugeDec InFlight), RUnit) \<notin> set (mine i tr)"

lemma inner_trace_not_gauge:
  "inner_trace t \<Longrightarrow> (AMetric (CallGaugeInc InFlight), x) \<notin> set t"
  "inner_trace t \<Longrightarrow> (AMetric (CallGaugeDec InFlight), x) \<notin> set t"
  by (force simp: list_all_iff)+

text \<open>The beginnings of a request's accesses.\<close>

lemma counted_prefix:
  assumes "counted endpoint m code (t @ v) u" and "labels_fit Requests [endpoint, m, dec_int code]"
  shows "tally InFlight [] t =
      (if (AMetric (CallGaugeInc InFlight), RUnit) \<in> set t \<and> (AMetric (CallGaugeDec InFlight), RUnit) \<notin> set t
       then 1 else 0)"
    and "v = [] \<Longrightarrow> (AMetric (CallGaugeDec InFlight), RUnit) \<in> set t"
    and "v = [] \<Longrightarrow> tally Requests ls t = (if ls = [endpoint, m, dec_int code] then 1 else 0)"
proof -
  obtain start now where u: "inner_trace u" and t: "t @ v =
      [(ANow, RTime start), (AMetric (CallGaugeInc InFlight), RUnit)] @ u @
        [(AMetric (CallGaugeDec InFlight), RUnit), (ANow, RTime now),
         (AMetric (CallObserve RequestDuration [endpoint, m] (now - start) (10 ^ 9)), RUnit),
         (AMetric (CallInc Requests [endpoint, m, dec_int code]), RUnit)]"
    using assms(1) by (auto simp: counted_def)
  note simps = metric_effects metric_effects(5) [OF assms(2)] inner_trace_not_gauge tally_inner
  show "tally InFlight [] t =
      (if (AMetric (CallGaugeInc InFlight), RUnit) \<in> set t \<and> (AMetric (CallGaugeDec InFlight), RUnit) \<notin> set t
       then 1 else 0)"
    using t u by (auto simp: append_eq_append_conv2 append_eq_Cons_conv Cons_eq_append_conv simps)
  show "v = [] \<Longrightarrow> (AMetric (CallGaugeDec InFlight), RUnit) \<in> set t"
    using t by simp
  show "v = [] \<Longrightarrow> tally Requests ls t = (if ls = [endpoint, m, dec_int code] then 1 else 0)"
    using t u by (simp add: simps)
qed

subsection \<open>One request of many\<close>

lemma api_labels_fit:
  "api_request r \<Longrightarrow> labels_fit Requests [rq_Path r, rq_Method r, dec_int code]"
  by (auto simp: labels_fit_def api_request_def valid_utf8_ascii)

lemma request_tallies:
  assumes "pool_steps rt (serving version h xs sh) s" and "i < length xs"
  shows "tally InFlight [] (mine i (po_trace s)) = (if in_flight i (po_trace s) then 1 else 0)"
    and "in_flight i (po_trace s) \<Longrightarrow> api_request (in_request (xs ! i))"
    and "in_flight i (po_trace s) \<Longrightarrow> po_progs s ! i \<noteq> Done c"
proof -
  let ?r = "in_request (xs ! i)" and ?t = "mine i (po_trace s)"
  have aside: "tally InFlight [] ?t = 0 \<and> \<not> in_flight i (po_trace s)" if "\<not> api_request ?r"
    using serving_paths [OF assms] that
    by (auto simp: path_spec_def aside_def in_flight_def inner_trace_not_gauge tally_inner)
  show "tally InFlight [] ?t = (if in_flight i (po_trace s) then 1 else 0)"
  proof (cases "api_request ?r")
    case True
    then obtain v u code where "counted (rq_Path ?r) (rq_Method ?r) code (?t @ v) u"
      using serving_paths [OF assms] by (auto simp: path_spec_def request_served_def)
    from counted_prefix(1) [OF this api_labels_fit [OF True]] show ?thesis
      by (simp add: in_flight_def)
  qed (use aside in simp)
  show "in_flight i (po_trace s) \<Longrightarrow> api_request ?r" using aside by blast
  show "in_flight i (po_trace s) \<Longrightarrow> po_progs s ! i \<noteq> Done c"
  proof
    assume flight: "in_flight i (po_trace s)" and ans: "po_progs s ! i = Done c"
    then have api: "api_request ?r" using aside by blast
    then obtain u code where "counted (rq_Path ?r) (rq_Method ?r) code (?t @ []) u"
      using serving_answer [OF assms ans] by (auto simp: path_spec_def request_served_def)
    from counted_prefix(2) [OF this api_labels_fit [OF api] refl] flight show False
      by (simp add: in_flight_def)
  qed
qed

text \<open>What an answered request has put into \<open>requests_total\<close>.\<close>

definition answered_with :: "Request \<Rightarrow> Conn prog \<Rightarrow> bytes list \<Rightarrow> bool" where
  "answered_with r p ls \<longleftrightarrow>
     api_request r \<and>
     (\<exists>c code hdr. p = Done c \<and> c_sent c = Some (code, hdr) \<and>
        ls = [rq_Path r, rq_Method r, dec_int code])"

lemma answered_tally:
  assumes "pool_steps rt (serving version h xs sh) s" and "i < length xs"
    and "po_progs s ! i = Done c"
  shows "tally Requests ls (mine i (po_trace s)) =
    (if answered_with (in_request (xs ! i)) (po_progs s ! i) ls then 1 else 0)"
proof (cases "api_request (in_request (xs ! i))")
  case True
  let ?r = "in_request (xs ! i)"
  obtain u code hdr where sent: "c_sent c = Some (code, hdr)"
    and "counted (rq_Path ?r) (rq_Method ?r) code (mine i (po_trace s) @ []) u"
    using serving_answer [OF assms] True by (auto simp: path_spec_def request_served_def)
  from counted_prefix(3) [OF this(2) api_labels_fit [OF True] refl, of ls] show ?thesis
    using True by (simp add: answered_with_def assms(3) sent)
next
  case False
  then show ?thesis
    using serving_answer [OF assms] by (simp add: answered_with_def path_spec_def aside_def tally_inner)
qed

lemma sum_indicator: "(\<Sum>i < (n::nat). if P i then 1 else 0) = int (card {i. i < n \<and> P i})"
  using sum.inter_filter [of "{..< n}" "\<lambda>i. 1 :: int" P] by simp

lemma serving_value:
  assumes "pool_steps rt (serving version h xs sh) s"
  shows "metric_value f ls (sh_metrics (po_shared s)) =
    metric_value f ls (sh_metrics sh) + (\<Sum>i < length xs. tally f ls (mine i (po_trace s)))"
  using execution_value [OF assms [unfolded serving_def], of f ls] by simp

lemma serving_gauge:
  assumes "pool_steps rt (serving version h xs sh) s"
  shows "metric_value InFlight [] (sh_metrics (po_shared s)) =
    metric_value InFlight [] (sh_metrics sh) + int (card {i. i < length xs \<and> in_flight i (po_trace s)})"
proof -
  have "(\<Sum>i < length xs. tally InFlight [] (mine i (po_trace s))) =
      (\<Sum>i < length xs. if in_flight i (po_trace s) then 1 else 0)"
    by (rule sum.cong [OF refl]) (use request_tallies(1) [OF assms] in simp)
  then show ?thesis by (simp only: serving_value [OF assms] sum_indicator)
qed

lemma serving_idle:
  assumes "pool_steps rt (serving version h xs sh) s" and "all_answered s"
  shows "metric_value InFlight [] (sh_metrics (po_shared s)) = metric_value InFlight [] (sh_metrics sh)"
proof -
  have "{i. i < length xs \<and> in_flight i (po_trace s)} = {}"
    using request_tallies(3) [OF assms(1)] answered_nth [OF assms(2)] serving_length [OF assms(1)]
    by fastforce
  then show ?thesis using serving_gauge [OF assms(1)] by simp
qed

text \<open>C9: the metrics under concurrent requests: at any moment of any interleaving the in-flight gauge
  has grown by exactly the number of the requests that are between entering and leaving the
  middleware, each of them an API request that has not been answered; and when all have been
  answered the gauge is back where it was and every series of \<open>requests_total\<close> has grown by the
  number of the API requests whose path, method and status sent are its labels.\<close>

theorem concurrent_requests_accounted:
  assumes "pool_steps rt (serving version h xs sh) s"
  shows "metric_value InFlight [] (sh_metrics (po_shared s)) =
      metric_value InFlight [] (sh_metrics sh) +
      int (card {i. i < length xs \<and> in_flight i (po_trace s)}) \<and>
    (\<forall>i < length xs. in_flight i (po_trace s) \<longrightarrow>
      api_request (in_request (xs ! i)) \<and> (\<forall>c. po_progs s ! i \<noteq> Done c)) \<and>
    (all_answered s \<longrightarrow>
      metric_value InFlight [] (sh_metrics (po_shared s)) = metric_value InFlight [] (sh_metrics sh) \<and>
      (\<forall>ls. metric_value Requests ls (sh_metrics (po_shared s)) =
        metric_value Requests ls (sh_metrics sh) +
        int (card {i. i < length xs \<and> answered_with (in_request (xs ! i)) (po_progs s ! i) ls})))"
proof (intro conjI impI allI)
  have length: "length (po_progs s) = length xs" by (rule serving_length [OF assms])
  show "metric_value InFlight [] (sh_metrics (po_shared s)) =
      metric_value InFlight [] (sh_metrics sh) + int (card {i. i < length xs \<and> in_flight i (po_trace s)})"
    by (rule serving_gauge [OF assms])
  show "api_request (in_request (xs ! i))" and "po_progs s ! i \<noteq> Done c"
    if "i < length xs" and "in_flight i (po_trace s)" for i c
    using request_tallies(2,3) [OF assms that] by simp_all
  show "metric_value InFlight [] (sh_metrics (po_shared s)) = metric_value InFlight [] (sh_metrics sh)"
    if "all_answered s"
    by (rule serving_idle [OF assms that])
  show "metric_value Requests ls (sh_metrics (po_shared s)) =
      metric_value Requests ls (sh_metrics sh) +
      int (card {i. i < length xs \<and> answered_with (in_request (xs ! i)) (po_progs s ! i) ls})"
    if all: "all_answered s" for ls
  proof -
    have "(\<Sum>i < length xs. tally Requests ls (mine i (po_trace s))) =
        (\<Sum>i < length xs. if answered_with (in_request (xs ! i)) (po_progs s ! i) ls then 1 else 0)"
    proof (rule sum.cong [OF refl])
      fix i assume "i \<in> {..< length xs}"
      then have i: "i < length xs" by simp
      then obtain c where "po_progs s ! i = Done c" using answered_nth [OF all] length by metis
      from answered_tally [OF assms i this] show "tally Requests ls (mine i (po_trace s)) =
        (if answered_with (in_request (xs ! i)) (po_progs s ! i) ls then 1 else 0)" .
    qed
    then show ?thesis by (simp only: serving_value [OF assms] sum_indicator)
  qed
qed

subsection \<open>The audit log\<close>

lemma events_of_counted: "counted endpoint m code t u \<Longrightarrow> events_of t = events_of u"
  by (auto simp: counted_def)

lemma serving_audit:
  assumes "pool_steps rt (serving version h xs sh) s"
  shows "sh_audit (po_shared s) = Log_all (events_of (map snd (po_trace s))) (sh_audit sh)"
  by (rule execution_audit [OF assms [unfolded serving_def]])

lemma events_of_single: "events_of [x] = (case x of (AAudit now e, _) \<Rightarrow> [(now, e)] | _ \<Rightarrow> [])"
  by (cases "[x]" rule: events_of.cases) auto

lemma events_of_Cons: "events_of (x # t) = events_of [x] @ events_of t"
  using events_of_append [of "[x]" t] by simp

lemma events_mine:
  "\<forall>x \<in> set tr. fst x < n \<Longrightarrow>
   mset (events_of (map snd tr)) = (\<Sum>i < n. mset (events_of (mine i tr)))"
proof (induction tr)
  case (Cons x tr)
  have "mset (events_of (mine i (x # tr))) =
      (if fst x = i then mset (events_of [snd x]) else {#}) + mset (events_of (mine i tr))" for i
    by simp
  then show ?case
    using Cons by (simp add: events_of_Cons [of "snd x" "map snd tr"] sum.distrib)
qed simp

lemma serving_events:
  assumes "pool_steps rt (serving version h xs sh) s"
  shows "mset (events_of (map snd (po_trace s))) =
    (\<Sum>i < length xs. mset (events_of (mine i (po_trace s))))"
  by (rule events_mine)
    (use execution_inv [OF assms [unfolded serving_def]] in \<open>simp add: pool_inv_def\<close>)

text \<open>At most one event on every path, and its content when the request has been answered.\<close>

definition event_about ::
  "('l, 'b) handlers \<Rightarrow> Request \<Rightarrow> bytes \<Rightarrow> int \<Rightarrow> Event \<Rightarrow> bool" where
  "event_about h r i code e \<longleftrightarrow>
     (\<exists>q. accept_request (h_cd h) (nat (h_maxRequestBytes h)) r = Inr q \<and>
        ev_RequestID e = i \<and> ev_CallerIdentity e = caller_of h r \<and> ev_Query e = ask_Query q \<and>
        (code = 429 \<longleftrightarrow> ev_Outcome e = ''rate_limited'') \<and> (ev_Outcome e = ''ok'' \<longrightarrow> code = 200))"

lemma ask_event_about:
  "ask_event i (caller_of h r) (ask_Query q) es code \<Longrightarrow>
   accept_request (h_cd h) (nat (h_maxRequestBytes h)) r = Inr q \<Longrightarrow>
   \<exists>now e. es = [(now, e)] \<and> event_about h r i code e"
  unfolding ask_event_def event_about_def by blast

lemma path_spec_cases:
  assumes "path_spec h x t c"
  obtains
    (none) "events_of t = []"
      "\<And>code hdr. c_sent c = Some (code, hdr) \<Longrightarrow> rq_Path (in_request x) = ''/v1/ask'' \<Longrightarrow>
        rq_Method (in_request x) = ''POST'' \<Longrightarrow> code \<notin> {200, 429}"
  | (one) now e code hdr where
      "rq_Path (in_request x) = ''/v1/ask''" "rq_Method (in_request x) = ''POST''"
      "events_of t = [(now, e)]" "c_sent c = Some (code, hdr)"
      "event_about h (in_request x) (own_id x) code e"
proof (cases "api_request (in_request x)")
  case False
  then show thesis using assms none by (auto simp: path_spec_def aside_def api_request_def)
next
  case True
  obtain u code hdr where sent: "c_sent c = Some (code, hdr)" and es: "events_of t = events_of u"
    and trail: "request_trail h (own_id x) (in_request x) (events_of u) code"
    using assms True events_of_counted by (fastforce simp: path_spec_def request_served_def)
  show thesis
  proof (cases "rq_Path (in_request x) = ''/v1/ask'' \<and> events_of u \<noteq> []")
    case asked: True
    then obtain now e where "events_of u = [(now, e)]" "event_about h (in_request x) (own_id x) code e"
      using trail ask_event_about by (fastforce simp: request_trail_def)
    then show thesis using one True asked sent es by (auto simp: api_request_def)
  next
    case False
    then have "events_of u = []" using trail by (auto simp: request_trail_def split: if_splits)
    moreover have "code \<notin> {200, 429}" if "rq_Path (in_request x) = ''/v1/ask''"
      using trail that False by (auto simp: request_trail_def ask_event_def)
    ultimately show thesis using none es sent by simp
  qed
qed

lemma path_spec_events:
  assumes "path_spec h x t c"
  shows "length (events_of t) \<le> 1"
    and "\<not> (rq_Method (in_request x) = ''POST'' \<and> rq_Path (in_request x) = ''/v1/ask'') \<Longrightarrow>
      events_of t = []"
    and "c_sent c = Some (code, hdr) \<Longrightarrow> (now, e) \<in> set (events_of t) \<Longrightarrow>
      event_about h (in_request x) (own_id x) code e"
    and "c_sent c = Some (code, hdr) \<Longrightarrow> code \<in> {200, 429} \<Longrightarrow>
      rq_Method (in_request x) = ''POST'' \<Longrightarrow> rq_Path (in_request x) = ''/v1/ask'' \<Longrightarrow>
      \<exists>now e. events_of t = [(now, e)]"
  by (rule path_spec_cases [OF assms]; simp; fail)+

text \<open>C8: the audit log under concurrent requests: at any moment of any interleaving the log is that of
  the sequential logger for the events of all requests in the order of their writes, and these
  are the events of each request taken together, nothing lost and nothing added. A request has
  at most one event, and none if it is not a question; the event of an answered question bears
  that question's own request ID, caller and query and an outcome that fits the status sent;
  and every question answered with 200 or 429 has its event. So an authenticated request for
  tools or models leaves no event, although \<open>docs/security.md\<close> says that every authenticated
  request is audited.\<close>

theorem concurrent_audit_trail:
  assumes "pool_steps rt (serving version h xs sh) s"
  shows "sh_audit (po_shared s) = Log_all (events_of (map snd (po_trace s))) (sh_audit sh) \<and>
    mset (events_of (map snd (po_trace s))) =
      (\<Sum>i < length xs. mset (events_of (mine i (po_trace s)))) \<and>
    (\<forall>i < length xs.
      length (events_of (mine i (po_trace s))) \<le> 1 \<and>
      (rq_Method (in_request (xs ! i)) = ''POST'' \<and> rq_Path (in_request (xs ! i)) = ''/v1/ask'' \<or>
        events_of (mine i (po_trace s)) = []) \<and>
      (\<forall>c code hdr. po_progs s ! i = Done c \<and> c_sent c = Some (code, hdr) \<longrightarrow>
        (\<forall>(now, e) \<in> set (events_of (mine i (po_trace s))).
          event_about h (in_request (xs ! i))
            (request_id (re_rand (in_env (xs ! i))) (re_now (in_env (xs ! i))) (in_request (xs ! i))) code e) \<and>
        (rq_Method (in_request (xs ! i)) = ''POST'' \<and> rq_Path (in_request (xs ! i)) = ''/v1/ask'' \<and>
           code \<in> {200, 429} \<longrightarrow>
         (\<exists>now e. events_of (mine i (po_trace s)) = [(now, e)]))))"
proof (intro conjI allI impI serving_audit [OF assms] serving_events [OF assms])
  fix i assume i: "i < length xs"
  obtain u c where path: "path_spec h (xs ! i) (mine i (po_trace s) @ u) c"
    using serving_paths [OF assms i] by blast
  show "length (events_of (mine i (po_trace s))) \<le> 1"
    using path_spec_events(1) [OF path] by simp
  show "rq_Method (in_request (xs ! i)) = ''POST'' \<and> rq_Path (in_request (xs ! i)) = ''/v1/ask'' \<or>
      events_of (mine i (po_trace s)) = []"
    using path_spec_events(2) [OF path] by auto
  fix c code hdr assume c: "po_progs s ! i = Done c \<and> c_sent c = Some (code, hdr)"
  note answer = path_spec_events [OF serving_answer [OF assms i c [THEN conjunct1]]]
  show "\<forall>(now, e) \<in> set (events_of (mine i (po_trace s))).
      event_about h (in_request (xs ! i)) (own_id (xs ! i)) code e"
    using answer(3) c by blast
  show "\<exists>now e. events_of (mine i (po_trace s)) = [(now, e)]"
    if "rq_Method (in_request (xs ! i)) = ''POST'' \<and> rq_Path (in_request (xs ! i)) = ''/v1/ask'' \<and>
      code \<in> {200, 429}"
    using answer(4) c that by blast
qed

subsection \<open>Concrete executions\<close>

text \<open>Every execution can be completed.\<close>

lemma pool_steps_trans:
  "pool_steps rt t u \<Longrightarrow> pool_steps rt s t \<Longrightarrow> pool_steps rt s u"
  by (induction rule: pool_steps.induct) (auto intro: pool_steps.intros)

lemma some_completion: "\<exists>t. pool_steps rt s t \<and> \<not> (\<exists>u. pool_step rt t u)"
proof (induction s rule: wfp_induct_rule [OF wf_pool_step [of rt]])
  case (1 s)
  show ?case
  proof (cases "\<exists>t. pool_step rt s t")
    case True
    then obtain t where t: "pool_step rt s t" by blast
    then obtain u where "pool_steps rt t u" "\<not> (\<exists>v. pool_step rt u v)" using 1 by blast
    then show ?thesis using pool_steps_trans [OF _ pool_more [OF pool_start t]] by blast
  qed (use pool_start in blast)
qed

text \<open>Two questions and a request for the tools, at once.\<close>

definition sample_incoming :: "Request \<Rightarrow> incoming" where
  "sample_incoming r =
     \<lparr>in_env = sample_env, in_request = r, in_fault = (\<lambda>_. None),
      in_bridge = h_bridge answering_handlers\<rparr>"

definition sample_load :: "incoming list" where
  "sample_load =
     map sample_incoming
       [sample_question_request False, sample_question_request True, plain_request ''Bearer old'']"

abbreviation sample_serving :: "(int, int, Conn) pool" where
  "sample_serving \<equiv> serving ''v1'' answering_handlers sample_load sample_shared"

theorem concurrent_requests_answered_witness:
  "\<exists>s. pool_steps sample_runtime sample_serving s \<and>
     (\<forall>i < 3. \<exists>c. po_progs s ! i = Done c \<and> c_sent c \<noteq> None)"
proof -
  obtain s where s: "pool_steps sample_runtime sample_serving s" "\<not> (\<exists>t. pool_step sample_runtime s t)"
    using some_completion by blast
  with concurrent_requests_answered [of sample_runtime "''v1''" answering_handlers sample_load sample_shared]
  have "\<forall>i < length sample_load. \<exists>c. po_progs s ! i = Done c \<and> c_sent c \<noteq> None" by blast
  then have "\<forall>i < 3. \<exists>c. po_progs s ! i = Done c \<and> c_sent c \<noteq> None" by (simp add: sample_load_def)
  with s(1) show ?thesis by blast
qed

theorem concurrent_requests_accounted_witness:
  "\<exists>s. pool_steps sample_runtime sample_serving s \<and> all_answered s \<and>
     metric_value InFlight [] (sh_metrics (po_shared s)) = 0"
proof -
  obtain s where s: "pool_steps sample_runtime sample_serving s" "\<not> (\<exists>t. pool_step sample_runtime s t)"
    using some_completion by blast
  then have "all_answered s" using pool_progress by blast
  with concurrent_requests_accounted [OF s(1)] have
    "metric_value InFlight [] (sh_metrics (po_shared s)) = metric_value InFlight [] (sh_metrics sample_shared)"
    by blast
  moreover have "metric_value InFlight [] (sh_metrics sample_shared) = 0" by (simp add: sample_shared_def)
  ultimately show ?thesis using s(1) \<open>all_answered s\<close> by metis
qed

theorem concurrent_audit_trail_witness:
  "\<exists>s. pool_steps sample_runtime sample_serving s \<and> all_answered s \<and>
     sh_audit (po_shared s) =
       Log_all (events_of (map snd (po_trace s))) (NewLogger (\<lambda>_. None) False) \<and>
     events_of (mine 2 (po_trace s)) = []"
proof -
  obtain s where s: "pool_steps sample_runtime sample_serving s" "\<not> (\<exists>t. pool_step sample_runtime s t)"
    using some_completion by blast
  then have "all_answered s" using pool_progress by blast
  moreover have "sh_audit (po_shared s) =
      Log_all (events_of (map snd (po_trace s))) (NewLogger (\<lambda>_. None) False)"
    using concurrent_audit_trail [OF s(1), THEN conjunct1] by (simp add: sample_shared_def)
  moreover have "events_of (mine 2 (po_trace s)) = []"
    using concurrent_audit_trail [OF s(1), THEN conjunct2, THEN conjunct2, rule_format, of 2]
    by (simp add: sample_load_def sample_incoming_def plain_request_def)
  ultimately show ?thesis using s(1) by blast
qed

end
