(* ===== verification/OwnAnswers.thy ===== *)
theory OwnAnswers
  imports Accounts
begin

text \<open>
  What is in the responses under concurrent requests. A handler writes to a connection of its own,
  so the content of a response depends on the other goroutines only through the replies to its
  accesses; on every path it is the answer of the bridge to this question.
\<close>

subsection \<open>Results on all paths\<close>

text \<open>\<open>ends p P\<close>: whatever the replies, the result of \<open>p\<close> is in \<open>P\<close>.\<close>

definition ends :: "'a prog \<Rightarrow> ('a \<Rightarrow> bool) \<Rightarrow> bool" where
  "ends p P = on_paths p (\<lambda>t x. P x)"

named_theorems ends_simps "results on all paths, access by access"

lemma ends_Done [ends_simps]: "ends (Done x) P = P x"
  and ends_Do [ends_simps]: "ends (Do act k) P = (\<forall>r. fits act r \<longrightarrow> ends (k r) P)"
  by (simp_all add: ends_def)

lemma ends_act [ends_simps]: "ends (do_act act p) P = ends p P"
  using fits_some [of act] by (auto simp: do_act_def ends_Do)

lemma ends_now [ends_simps]: "ends (do_now k) P = (\<forall>t. ends (k t) P)"
  by (force simp: do_now_def ends_Do)

lemma ends_metrics [ends_simps]: "ends (do_metrics cs p) P = ends p P"
  by (induction cs) (simp_all add: do_metrics_def ends_act)

lemma ends_audit [ends_simps]: "ends (audit_prog h e p) P = ends p P"
proof -
  have "ends (case err of None \<Rightarrow> p | Some x \<Rightarrow> do_act (ASlog LError msg (f x)) p) P = ends p P"
    for err :: "bytes option" and msg f
    by (simp add: ends_act split: option.split)
  then show ?thesis by (auto simp: audit_prog_def ends_now ends_Do)
qed

lemma ends_bind [ends_simps]: "ends (bind p q) P = ends p (\<lambda>x. ends (q x) P)"
  by (simp add: ends_def on_paths_bind)

lemma ends_map_error [ends_simps]: "ends (map_error_prog r op e w k) P = ends (k (bridge_problem r e w)) P"
  by (simp add: map_error_prog_def split_beta ends_act)

lemma ends_mono: "ends p P \<Longrightarrow> (\<And>x. P x \<Longrightarrow> Q x) \<Longrightarrow> ends p Q"
  unfolding ends_def by (erule on_paths_mono)

text \<open>A response with a status other than 200 is no answer.\<close>

definition tells :: "(bytes \<Rightarrow> bool) \<Rightarrow> Conn \<Rightarrow> bool" where
  "tells B c \<longleftrightarrow> (\<forall>hdr. c_sent c = Some (200, hdr) \<longrightarrow> B (c_body c))"

definition clean_writer :: "statusWriter \<Rightarrow> bool" where
  "clean_writer w \<longleftrightarrow> sw_ok w \<and> sw_sent w = None \<and> reliable w \<and> sw_body w = []"

lemma tells_problem:
  assumes "clean_writer w" and "code \<noteq> 200"
  shows "tells B (sw_inner (writeProblem_w r code title detail w))"
    and "tells B (sw_inner (auth_writeProblem_w r code title detail w))"
proof -
  have "sw_ok w" "sw_sent w = None" "\<not> sw_wroteHeader w"
    using assms(1) sw_ok_fresh by (auto simp: clean_writer_def)
  then show "tells B (sw_inner (writeProblem_w r code title detail w))"
    "tells B (sw_inner (auth_writeProblem_w r code title detail w))"
    using writeProblem_w_sent [of w r code title detail] assms(2)
    by (auto simp: tells_def auth_writeProblem_w_def Let_def writer_simps)
qed

lemma tells_bridge_problem: "clean_writer w \<Longrightarrow> tells B (sw_inner (bridge_problem r e w))"
  by (simp add: bridge_problem_def tells_problem error_status)

lemma tells_json: "clean_writer w \<Longrightarrow> B (encode v) \<Longrightarrow> tells B (sw_inner (json_response 200 v w))"
  by (simp add: tells_def clean_writer_def json_response_def reliable_def writer_simps)

subsection \<open>The two kinds of answer\<close>

text \<open>
  What a caller reads whose question the bridge answers, field by field: the question that the
  bridge gets, the document of a complete answer, the events of a chunk, and the last event of a
  stream. The latency is the clock's.
\<close>

definition question_for :: "('l, 'b) handlers \<Rightarrow> AskRequest \<Rightarrow> ChatRequest" where
  "question_for h q =
     \<lparr>cq_Model = (if ask_Model q = [] then h_defaultModel h else ask_Model q),
      cq_Messages = [\<lparr>mg_Role = ''user'', mg_Content = ask_Query q, mg_ToolCalls = []\<rparr>],
      cq_Stream = False, cq_Options = None\<rparr>"

definition told_calls :: "BridgeToolCall list \<Rightarrow> ToolCall list" where
  "told_calls = map (\<lambda>tc. \<lparr>tc_Name = tf_Name (bt_Function tc), tc_Args = tf_Arguments (bt_Function tc),
     tc_DurationMS = 0\<rparr>)"

definition told_document :: "bytes \<Rightarrow> AskRequest \<Rightarrow> ChatResponse \<Rightarrow> int \<Rightarrow> AskResponse" where
  "told_document reqID q resp latency =
     \<lparr>rsp_RequestID = reqID, rsp_Model = cp_Model resp, rsp_Query = ask_Query q,
      rsp_Answer = mg_Content (cp_Message resp),
      rsp_ToolCalls = told_calls (mg_ToolCalls (cp_Message resp)),
      rsp_Usage = \<lparr>us_PromptTokens = cp_PromptEvalCount resp, us_CompletionTokens = cp_EvalCount resp\<rparr>,
      rsp_LatencyMS = millis latency\<rparr>"

definition told_chunk :: "ChatStreamChunk \<Rightarrow> (bytes \<times> json) list" where
  "told_chunk c =
     (if ck_Thinking c = [] then [] else [(''thinking'', JObj [(''text'', JStr (ck_Thinking c))])]) @
     map (\<lambda>tc. (''tool_call'',
            JObj ((''name'', JStr (tf_Name (bt_Function tc))) # args_field ''args'' (tf_Arguments (bt_Function tc)))))
       (mg_ToolCalls (ck_Message c)) @
     (if mg_Content (ck_Message c) = [] then []
      else if mg_Role (ck_Message c) = ''tool''
      then [(''tool_result'', JObj [(''content'', JStr (mg_Content (ck_Message c)))])]
      else [(''token'', JObj [(''text'', JStr (mg_Content (ck_Message c)))])])"

text \<open>
  The usage, the reason and the duration are those of the last chunk that is marked as done, the
  model is the last that a chunk has named, and the tool calls are those of all chunks.
\<close>

definition told_end ::
  "bytes \<Rightarrow> bytes \<Rightarrow> ChatStreamChunk list \<Rightarrow> next_result \<Rightarrow> int \<Rightarrow> bytes \<times> json" where
  "told_end reqID model cs res latency =
     (let finals = filter ck_Done cs in
      case res of
        StreamError e \<Rightarrow>
          (''error'', JObj [(''request_id'', JStr reqID), (''status'', JInt 502),
             (''title'', JStr ''Bad Gateway''), (''detail'', JStr ''upstream bridge stream failed'')])
      | _ \<Rightarrow>
          (''done'', doneEvent_json
             \<lparr>de_RequestID = reqID,
              de_Model = last (model # filter (\<lambda>m. m \<noteq> []) (map ck_Model cs)),
              de_DoneReason = last ([] # map ck_DoneReason finals),
              de_Usage = \<lparr>us_PromptTokens = last (0 # map ck_PromptEvalCount finals),
                          us_CompletionTokens = last (0 # map ck_EvalCount finals)\<rparr>,
              de_ToolCalls = told_calls (concat (map (mg_ToolCalls \<circ> ck_Message) cs)),
              de_TotalDurationMS = millis (last (0 # map ck_TotalDuration finals)),
              de_LatencyMS = millis latency\<rparr>))"

definition own_answer :: "('l, 'b) handlers \<Rightarrow> bytes \<Rightarrow> AskRequest \<Rightarrow> bytes \<Rightarrow> bool" where
  "own_answer h reqID q body \<longleftrightarrow>
     (if ask_Stream q
      then \<exists>stream cs res latency.
        br_ChatStream (h_bridge h) (question_for h q) = Inr stream \<and>
        stream_results (h_cd h) stream = map StreamChunk cs @ [res] \<and> (\<forall>c. res \<noteq> StreamChunk c) \<and>
        read_stream body =
          map (\<lambda>(ty, data). (ty, [encode data]))
            (concat (map told_chunk cs) @ [told_end reqID (cq_Model (question_for h q)) cs res latency])
      else \<exists>resp latency.
        br_Chat (h_bridge h) (question_for h q) = Inr resp \<and>
        body = encode (AskResponse_json (told_document reqID q resp latency)))"

lemma question_for_eq: "question_for h q = upstream_question h q"
  by (simp add: question_for_def bridge_request_def modelOrDefault_def user_message_def)

lemma told_calls_eq: "told_calls = toAPIToolCalls"
  by (intro ext) (simp add: told_calls_def toAPIToolCalls_def)

lemma told_document_eq: "told_document = ask_response"
  by (intro ext) (simp add: told_document_def ask_response_def told_calls_eq)

text \<open>The events that the loop sends say this.\<close>

definition told :: "sseEvent \<Rightarrow> bytes \<times> json" where
  "told ev = (ev_Type ev, ev_Data ev)"

lemma told_chunk_eq: "told_chunk c = map told (chunk_events c)"
  by (simp add: told_chunk_def chunk_events_def Let_def told_def tool_call_event_def comp_def
      eventThinking_def thinkingEvent_def eventToolCall_def toolCallEvent_def eventToolResult_def
      toolResultEvent_def str_field_def eventToken_def tokenEvent_def)

lemma fold_vars:
  "sx_finalModel (fold (vars_step capture) cs x) =
     last (sx_finalModel x # filter (\<lambda>m. m \<noteq> []) (map ck_Model cs))"
  "sx_finalReason (fold (vars_step capture) cs x) =
     last (sx_finalReason x # map ck_DoneReason (filter ck_Done cs))"
  "sx_promptTokens (fold (vars_step capture) cs x) =
     last (sx_promptTokens x # map ck_PromptEvalCount (filter ck_Done cs))"
  "sx_completionTokens (fold (vars_step capture) cs x) =
     last (sx_completionTokens x # map ck_EvalCount (filter ck_Done cs))"
  "sx_totalDuration (fold (vars_step capture) cs x) =
     last (sx_totalDuration x # map ck_TotalDuration (filter ck_Done cs))"
  "sx_tools (fold (vars_step capture) cs x) =
     sx_tools x @ told_calls (concat (map (mg_ToolCalls \<circ> ck_Message) cs))"
  by (induction cs arbitrary: x)
    (simp_all add: vars_step_def Let_def told_calls_eq toAPIToolCalls_def)

lemma stream_results_error:
  "StreamError e \<in> set (stream_results cd s) \<Longrightarrow> \<exists>t. e = stream_error t"
proof (induction cd s rule: stream_results.induct)
  case (1 cd s)
  obtain r s' where rs: "Next cd s = (r, s')" by force
  from stream_results_next [OF rs] 1(1) [OF rs [symmetric]] 1(2) Next_error [of cd s e] rs
  show ?case by (cases r) auto
qed

lemma told_end_eq:
  assumes "stream_results cd stream = map StreamChunk cs @ [res]" and "\<forall>c. res \<noteq> StreamChunk c"
  shows "told_end reqID model cs res latency =
    told (final_event reqID latency (fold (vars_step capture) cs (init_vars model)) res)"
proof (cases res)
  case (StreamError e)
  then have "StreamError e \<in> set (stream_results cd stream)" using assms(1) by simp
  then obtain t where "e = stream_error t" using stream_results_error by blast
  moreover have "problemTitleFor 502 = ''Bad Gateway''" by code_simp
  ultimately show ?thesis
    using StreamError
    by (simp add: told_end_def told_def final_event_def errorEvent_json_def bridgeErrorStatus_def
        stream_error_def eventError_def)
next
  case StreamEOF
  then show ?thesis
    by (simp add: told_end_def told_def final_event_def done_event_def eventDone_def Let_def fold_vars
        init_vars_def del: last.simps)
qed (use assms(2) in simp)

lemma own_answer_stream:
  assumes "ask_Stream q" and "br_ChatStream (h_bridge h) (upstream_question h q) = Inr stream"
    and "stream_results (h_cd h) stream = map StreamChunk cs @ [res]" and "\<forall>c. res \<noteq> StreamChunk c"
  shows "own_answer h reqID q (concat (map sse_frame (concat (map chunk_events cs) @
    [final_event reqID latency
      (fold (vars_step capture) cs (init_vars (cq_Model (upstream_question h q)))) res])))"
proof -
  have "concat (map told_chunk cs) = map told (concat (map chunk_events cs))"
    by (simp add: told_chunk_eq [abs_def] map_concat comp_def)
  then have read: "map (\<lambda>(ty, data). (ty, [encode data])) (concat (map told_chunk cs) @
      [told_end reqID (cq_Model (upstream_question h q)) cs res latency]) =
    map (\<lambda>ev. (ev_Type ev, [encode (ev_Data ev)])) (concat (map chunk_events cs) @
      [final_event reqID latency
        (fold (vars_step capture) cs (init_vars (cq_Model (upstream_question h q)))) res])"
    unfolding told_end_eq [OF assms(3,4), where capture = capture] by (simp add: told_def)
  show ?thesis
    unfolding own_answer_def read_frames [OF stream_types_plain] question_for_eq
    unfolding if_P [OF assms(1)]
    by (intro exI [of _ stream] exI [of _ cs] exI [of _ res] exI [of _ latency] conjI assms read [symmetric])
qed

text \<open>\<open>framed evs w\<close>: exactly the frames of \<open>evs\<close> have been written.\<close>

definition framed :: "sseEvent list \<Rightarrow> bool \<times> statusWriter \<Rightarrow> bool" where
  "framed evs fw \<longleftrightarrow>
     \<not> fst fw \<and> reliable (snd fw) \<and> sw_body (snd fw) = concat (map sse_frame evs)"

lemma framed_more: "framed evs fw \<Longrightarrow> framed (evs @ evs') (fold writeSSE evs' fw)"
  using fold_writeSSE [of "snd fw" evs'] by (cases fw) (auto simp: framed_def)

lemma framed_one: "framed evs fw \<Longrightarrow> framed (evs @ [ev]) (writeSSE ev fw)"
  using framed_more [of evs fw "[ev]"] by simp

lemma framed_deadline: "framed evs fw \<Longrightarrow> framed evs (fst fw, snd (sw_SetWriteDeadline t (snd fw)))"
  by (simp add: writer_simps)

lemma frames_framed:
  "framed evs fw \<Longrightarrow> ends (frames_prog h cs fw) (framed (evs @ concat (map chunk_events cs)))"
proof (induction cs arbitrary: evs fw)
  case (Cons c cs)
  from Cons.IH [OF framed_more [OF framed_deadline [OF Cons.prems]]] show ?case by (simp add: ends_now)
qed (simp add: ends_Done)

lemma tells_framed: "framed evs fw \<Longrightarrow> B (concat (map sse_frame evs)) \<Longrightarrow> tells B (sw_inner (snd fw))"
  by (simp add: framed_def tells_def)

lemma ends_run_stream:
  assumes "clean_writer w" and "stream_results (h_cd h) stream = map StreamChunk cs @ [res]"
    and "\<forall>c. res \<noteq> StreamChunk c"
    and "\<And>latency capture. B (concat (map sse_frame (concat (map chunk_events cs) @
      [final_event reqID latency (fold (vars_step capture) cs (init_vars (cq_Model bq))) res])))"
  shows "ends (run_stream_prog h q bq caller reqID start stream w) (\<lambda>w. tells B (sw_inner w))"
proof -
  let ?x = "\<lambda>capture. fold (vars_step capture) cs (init_vars (cq_Model bq))"
  let ?evs = "concat (map chunk_events cs)"
  have "framed [] (False, sw_Flush (sw_WriteHeader 200 (set_stream_headers w)))"
    using assms(1) by (simp add: framed_def clean_writer_def set_stream_headers_def writer_simps)
  from frames_framed [OF this, of h cs]
  have chunks: "ends (frames_prog h cs (False, sw_Flush (sw_WriteHeader 200 (set_stream_headers w))))
      (framed ?evs)" by simp
  have last_frame: "tells B (sw_inner (snd (writeSSE (final_event reqID latency (?x capture) res) fw)))"
    if "framed ?evs fw" for latency capture fw
    by (rule tells_framed [where B = B, OF framed_one [OF that] assms(4)])
  have fin: "ends (case loop_end_of res of
        Drained \<Rightarrow> done_prog h q caller reqID start (?x capture) fw
      | Failed e \<Rightarrow> failed_prog h q caller reqID start (?x capture) e fw) (\<lambda>w. tells B (sw_inner w))"
    if "framed ?evs fw" for capture fw
    using assms(3) last_frame [OF that]
    by (cases res)
      (simp_all add: loop_end_of_def done_prog_def failed_prog_def Let_def ends_simps final_event_def)
  show ?thesis
    unfolding run_stream_prog_frames [OF assms(2,3)] Let_def
    by (simp add: ends_simps writer_simps) (intro allI impI ends_mono [OF chunks], erule fin)
qed

lemma ends_ask_stream:
  assumes "clean_writer w" and "ask_Stream q" and "bq = upstream_question h q"
  shows "ends (ask_stream_prog h r q bq caller reqID w) (\<lambda>w. tells (own_answer h reqID q) (sw_inner w))"
proof (cases "br_ChatStream (h_bridge h) bq")
  case (Inl e)
  then show ?thesis
    using tells_bridge_problem [OF assms(1)]
    by (simp add: ask_stream_prog_def statusWriter_methods_def ends_simps)
next
  case (Inr stream)
  obtain cs res where res: "stream_results (h_cd h) stream = map StreamChunk cs @ [res]"
    "\<forall>c. res \<noteq> StreamChunk c"
    using stream_results_form by blast
  have "own_answer h reqID q (concat (map sse_frame (concat (map chunk_events cs) @
      [final_event reqID latency (fold (vars_step capture) cs (init_vars (cq_Model bq))) res])))"
    for latency capture
    using own_answer_stream [OF assms(2) Inr [unfolded assms(3)] res] unfolding assms(3) .
  from ends_run_stream [where B = "own_answer h reqID q", OF assms(1) res this] show ?thesis
    by (simp add: ask_stream_prog_def statusWriter_methods_def ends_simps Inr)
qed

lemma ends_ask_plain:
  assumes "clean_writer w" and "\<not> ask_Stream q" and "bq = upstream_question h q"
  shows "ends (ask_plain_prog h r q bq caller reqID w) (\<lambda>w. tells (own_answer h reqID q) (sw_inner w))"
proof (cases "br_Chat (h_bridge h) bq")
  case (Inl e)
  then show ?thesis
    using tells_bridge_problem [OF assms(1)] by (simp add: ask_plain_prog_def ends_simps)
next
  case (Inr resp)
  then have "own_answer h reqID q (encode (AskResponse_json (ask_response reqID q resp latency)))"
    for latency
    using assms(2,3) by (auto simp: own_answer_def question_for_eq told_document_eq)
  then show ?thesis
    using tells_json [OF assms(1)] by (simp add: ask_plain_prog_def Inr Let_def ends_simps)
qed

subsection \<open>From the handler to the listener\<close>

text \<open>What a caller reads whose request is answered with 200: an answer to the accepted question.\<close>

definition question_told :: "('l, 'b) handlers \<Rightarrow> Request \<Rightarrow> bytes \<Rightarrow> bytes \<Rightarrow> bool" where
  "question_told h r reqID body \<longleftrightarrow>
     (\<exists>q. accept_request (h_cd h) (nat (h_maxRequestBytes h)) r = Inr q \<and> own_answer h reqID q body)"

lemma question_told_WithValue: "question_told h (WithValue r i) = question_told h r"
  by (intro ext) (simp add: question_told_def accept_WithValue)

lemma tells_mono: "tells B c \<Longrightarrow> (\<And>b. B b \<Longrightarrow> B' b) \<Longrightarrow> tells B' c"
  by (simp add: tells_def)

lemma ends_ask:
  assumes "clean_writer w"
  shows "ends (ask_prog h r w) (\<lambda>w. tells (question_told h r (FromContext r)) (sw_inner w))"
proof (cases "accept_request (h_cd h) (nat (h_maxRequestBytes h)) r")
  case (Inl x)
  obtain st d where x: "x = (st, d)" by force
  have "st \<noteq> 200" using accept_request_codes [OF Inl [unfolded x]] by auto
  then show ?thesis
    using tells_problem(1) [OF assms] by (simp add: ask_prog_def Inl x ends_simps)
next
  case (Inr q)
  have told: "ends p (\<lambda>w. tells (question_told h r (FromContext r)) (sw_inner w))"
    if "ends p (\<lambda>w. tells (own_answer h (FromContext r) q) (sw_inner w))" for p
    by (rule ends_mono [OF that]) (auto simp: question_told_def Inr elim!: tells_mono)
  have "ends (limited_prog h r q caller w) (\<lambda>w. tells B (sw_inner w))" for caller B
    using tells_problem(1) [OF assms] by (simp add: limited_prog_def Let_def ends_simps)
  then show ?thesis
    using told [OF ends_ask_stream [OF assms]] told [OF ends_ask_plain [OF assms]]
    by (simp add: ask_prog_def Inr Let_def ends_simps)
qed

lemma ends_validate:
  "(\<And>v. ends (k v) P) \<Longrightarrow> ends (validate_prog ob c k) P"
  by (auto simp: validate_prog_def Let_def ends_simps split: sum.split option.split)

lemma ends_auth:
  assumes "clean_writer w" and "ends (next_prog r w) (\<lambda>w. tells B (sw_inner w))"
  shows "ends (auth_prog ob next_prog r w) (\<lambda>w. tells B (sw_inner w))"
  using assms(2) tells_problem(2) [OF assms(1)]
  by (auto simp: auth_prog_def ends_simps intro!: ends_validate split: sum.split option.split auth_error.split)

lemma ends_metrics_prog:
  assumes "ends (next_prog r (new_statusWriter c)) (\<lambda>w. tells B (sw_inner w))"
  shows "ends (metrics_prog endpoint next_prog r c) (tells B)"
  using assms by (simp add: metrics_prog_def ends_simps)

lemma clean_new:
  "c_sent c = None \<Longrightarrow> c_body c = [] \<Longrightarrow> \<forall>n. c_fault c n = None \<Longrightarrow> clean_writer (new_statusWriter c)"
  by (simp add: clean_writer_def sw_ok_new reliable_def) (simp add: new_statusWriter_def)

lemma ends_question:
  assumes "rq_Method r = ''POST''" and "rq_Path r = ''/v1/ask''"
  shows "ends (public_prog version h env r (new_conn b (\<lambda>_. None)))
    (tells (question_told h r (id_of env r)))"
proof -
  let ?r = "WithValue r (id_of env r)"
  let ?c = "conn_set_header HeaderName (id_of env r) (new_conn b (\<lambda>_. None))"
  have prefix: "has_prefix ''/v1/ask'' ''/v1/''" by (simp add: has_prefix_def)
  have m: "mux_match (api_progs h) ''POST'' ''/v1/ask'' =
      Some ((Some ''POST'', ''/v1/ask''), route_prog ''/v1/ask'' (ask_prog h))"
    using api_mux [of h r] assms by (simp add: api_request_def)
  have routed: "public_prog version h env r c = route_prog ''/v1/ask'' (ask_prog h) env r c" for c
    using assms prefix
    by (simp add: public_prog_def api_prog_def mux_serve_def Let_def newMux_match m)
  have "clean_writer (new_statusWriter ?c)"
    by (rule clean_new) (simp_all add: writer_simps new_conn_def)
  from ends_auth [OF this, where next_prog = "ask_prog h", OF ends_ask [OF this], of "re_auth env" ?r]
  have "ends (auth_prog (re_auth env) (ask_prog h) ?r (new_statusWriter ?c))
      (\<lambda>w. tells (question_told h r (id_of env r)) (sw_inner w))"
    by (simp add: question_told_WithValue)
  from ends_metrics_prog [where next_prog = "auth_prog (re_auth env) (ask_prog h)", OF this]
  show ?thesis unfolding routed route_prog_def RequestId.Middleware_def Let_def by simp
qed

subsection \<open>Any number of questions at once\<close>

lemma request_prog_told:
  assumes "rq_Method (in_request x) = ''POST''" and "rq_Path (in_request x) = ''/v1/ask''"
    and "in_fault x = (\<lambda>_. None)"
  shows "on_paths (request_prog version h x)
    (\<lambda>t. tells (question_told (h\<lparr>h_bridge := in_bridge x\<rparr>) (in_request x) (own_id x)))"
  using ends_question [OF assms(1,2)] by (simp add: request_prog_def assms(3) ends_def)

text \<open>C6: no answer goes to another caller: under any interleaving of any number of requests, each with
  an upstream that may answer as it likes, a question that is answered with status 200 on a
  connection that takes what is written to it has been accepted, the bridge has answered this
  very question, and what its caller reads is that answer with the request's own ID: the JSON
  document with the bridge's text, model, tool calls and token counts, or, for a stream, the
  events of the chunks that the upstream has sent to this question, in order, and one last
  event, \<open>done\<close> with the totals of these chunks or \<open>error\<close> with status 502.\<close>

theorem concurrent_answers_own:
  assumes "pool_steps rt (serving version h xs sh) s" and "i < length xs"
    and "rq_Method (in_request (xs ! i)) = ''POST''" and "rq_Path (in_request (xs ! i)) = ''/v1/ask''"
    and "in_fault (xs ! i) = (\<lambda>_. None)"
    and "po_progs s ! i = Done c" and "c_sent c = Some (200, hdr)"
  shows "\<exists>q. accept_request (h_cd h) (nat (h_maxRequestBytes h)) (in_request (xs ! i)) = Inr q \<and>
    own_answer (h\<lparr>h_bridge := in_bridge (xs ! i)\<rparr>)
      (request_id (re_rand (in_env (xs ! i))) (re_now (in_env (xs ! i))) (in_request (xs ! i)))
      q (c_body c)"
proof -
  have "on_paths (map (request_prog version h) xs ! i)
      (\<lambda>t. tells (question_told (h\<lparr>h_bridge := in_bridge (xs ! i)\<rparr>) (in_request (xs ! i)) (own_id (xs ! i))))"
    using request_prog_told [OF assms(3-5)] assms(2) by simp
  from answered_on_paths [OF assms(1) [unfolded serving_def] _ assms(6) this] assms(2)
  have "tells (question_told (h\<lparr>h_bridge := in_bridge (xs ! i)\<rparr>) (in_request (xs ! i)) (own_id (xs ! i))) c"
    by simp
  then show ?thesis using assms(7) by (simp add: tells_def question_told_def)
qed

text \<open>A goroutine may run alone to its end.\<close>

lemma run_alone:
  "i < length (po_progs s) \<Longrightarrow> po_progs s ! i = p \<Longrightarrow>
   \<exists>t. pool_steps rt s t \<and> po_progs t ! i = Done (fst (run rt p (po_shared s)))"
proof (induction p arbitrary: s)
  case (Done x)
  then show ?case using pool_start by force
next
  case (Do act k)
  obtain r sh where ex: "exec rt act (po_shared s) = (r, sh)" by force
  let ?s = "s\<lparr>po_progs := (po_progs s)[i := k r], po_shared := sh,
    po_trace := po_trace s @ [(i, act, r)]\<rparr>"
  have step: "pool_step rt s ?s" by (rule pool_step.access [OF Do.prems ex])
  have "\<exists>t. pool_steps rt ?s t \<and> po_progs t ! i = Done (fst (run rt (k r) (po_shared ?s)))"
    by (rule Do.IH [OF rangeI]) (use Do.prems in simp_all)
  then obtain t where "pool_steps rt ?s t" "po_progs t ! i = Done (fst (run rt (k r) sh))" by auto
  moreover have "pool_steps rt s t" by (rule pool_steps_trans [OF calculation(1) pool_more [OF pool_start step]])
  ultimately show ?case using ex by auto
qed

text \<open>The first of the sample requests may be served alone to its answer.\<close>

lemma sample_answered:
  "\<exists>s c hdr. pool_steps sample_runtime sample_serving s \<and> po_progs s ! 0 = Done c \<and>
     c_sent c = Some (200, hdr)"
proof -
  let ?r = "sample_question_request False"
  let ?out = "run sample_runtime (request_prog ''v1'' answering_handlers (sample_incoming ?r)) sample_shared"
  have sub: "answering_handlers\<lparr>h_bridge := h_bridge answering_handlers\<rparr> = answering_handlers" by simp
  have rt: "h_rt answering_handlers = sample_runtime"
    by (simp add: answering_handlers_def sample_handlers_def)
  have adm: "admitted answering_handlers sample_env ?r sample_shared ''old'' (sample_ask\<lparr>ask_Stream := False\<rparr>)"
    by (rule sample_admitted) (simp_all add: answering_handlers_def sample_handlers_def)
  have out: "fst ?out = fst (public_serve ''v1'' answering_handlers sample_env ?r
      (new_conn True (\<lambda>_. None)) sample_shared)"
    using run_public_prog [of answering_handlers "''v1''" sample_env ?r "new_conn True (\<lambda>_. None)" sample_shared]
    by (simp add: request_prog_def sample_incoming_def sub rt)
  obtain hdr where sent: "c_sent (fst ?out) = Some (200, hdr)"
    unfolding out by (rule admitted_plain [OF adm, of zero_ChatResponse "''v1''" True])
      (simp_all add: answering_handlers_def)
  have "0 < length sample_load" "sample_load ! 0 = sample_incoming ?r" by (simp_all add: sample_load_def)
  then obtain s where "pool_steps sample_runtime sample_serving s" "po_progs s ! 0 = Done (fst ?out)"
    using run_alone [of 0 sample_serving _ sample_runtime, OF _ refl]
    by (auto simp: serving_def start_pool_def)
  then show ?thesis using sent by blast
qed

theorem concurrent_answers_own_witness:
  "\<exists>s c. pool_steps sample_runtime sample_serving s \<and> po_progs s ! 0 = Done c \<and>
     own_answer answering_handlers
       (request_id (Some (replicate 8 CHR ''x'')) 0 (sample_question_request False))
       (sample_ask\<lparr>ask_Stream := False\<rparr>) (c_body c)"
proof -
  let ?r = "sample_question_request False"
  obtain s c hdr where s: "pool_steps sample_runtime sample_serving s" "po_progs s ! 0 = Done c"
    and sent: "c_sent c = Some (200, hdr)"
    using sample_answered by blast
  have sub: "answering_handlers\<lparr>h_bridge := h_bridge answering_handlers\<rparr> = answering_handlers" by simp
  have load: "0 < length sample_load" "sample_load ! 0 = sample_incoming ?r" by (simp_all add: sample_load_def)
  have adm: "admitted answering_handlers sample_env ?r sample_shared ''old'' (sample_ask\<lparr>ask_Stream := False\<rparr>)"
    by (rule sample_admitted) (simp_all add: answering_handlers_def sample_handlers_def)
  have "\<exists>q. accept_request (h_cd answering_handlers) (nat (h_maxRequestBytes answering_handlers)) ?r = Inr q \<and>
      own_answer answering_handlers (request_id (re_rand sample_env) (re_now sample_env) ?r) q (c_body c)"
    using concurrent_answers_own [OF s(1) load(1) _ _ _ s(2) sent] load(2)
    by (simp add: sample_incoming_def sub ask_request_def)
  then show ?thesis using s adm by (auto simp: admitted_def sample_env_def)
qed

end
