(* ===== verification/Admission.thy ===== *)
theory Admission
  imports OwnAnswers
begin

text \<open>
  Who gets through under concurrent requests. The sections of \<open>Validate\<close> of all requests interleave, so
  a request may be compared with a token that another one has read from the file; what remains is
  that nobody gets past the middleware without having presented a token that the file had when some
  request read it, or that was cached before.
\<close>

subsection \<open>The paths of a request\<close>

text \<open>The request presents the token that it has fetched from the source.\<close>

definition authed :: "Request \<Rightarrow> trace \<Rightarrow> bool" where
  "authed r t \<longleftrightarrow>
     (\<exists>token. extractBearer (header_get r ''Authorization'') = Inr token \<and> token \<noteq> [] \<and>
        (AToken, RToken token) \<in> set t)"

definition admission :: "Request \<Rightarrow> trace \<Rightarrow> Conn \<Rightarrow> bool" where
  "admission r t c \<longleftrightarrow>
     authed r t \<or> events_of t = [] \<and> (\<forall>code hdr. c_sent c = Some (code, hdr) \<longrightarrow> code \<in> {401, 503})"

lemma authed_append: "authed r t \<Longrightarrow> authed r (t @ u)"
  by (auto simp: authed_def)

lemma on_paths_True: "on_paths p (\<lambda>t x. True)"
  by (induction p) simp_all

lemma on_paths_all: "(\<And>t x. Q t x) \<Longrightarrow> on_paths p Q"
  by (rule on_paths_mono [OF on_paths_True])

text \<open>A verdict that lets a request through has compared its token with the fetched one.\<close>

lemma validate_paths:
  assumes "\<And>v t. declared v \<Longrightarrow> events_of t = [] \<Longrightarrow>
      (v = None \<longrightarrow> c \<noteq> [] \<and> (AToken, RToken c) \<in> set t) \<Longrightarrow> on_paths (k v) (\<lambda>u. Q (t @ u))"
  shows "on_paths (validate_prog ob c k) Q"
proof -
  have k: "on_paths (k v) (\<lambda>u. Q (t @ u))"
    if "declared v" "events_of t = []" "v = None \<longrightarrow> c \<noteq> [] \<and> (AToken, RToken c) \<in> set t" for v t
    by (rule assms) (use that in auto)
  have fetch: "on_paths (Do AToken (\<lambda>r. k (compare_token c (token_read r)))) (\<lambda>u. Q (t @ u))"
    if "events_of t = []" for t
    using k [of "compare_token c x" "t @ [(AToken, RToken x)]" for x] that
    by (auto simp: declared_errors compare_token_None)
  have failed: "on_paths (k (Some e)) (\<lambda>u. Q (t @ u))" if "declared (Some e)" "events_of t = []" for e t
    by (rule k) (use that in simp_all)
  show ?thesis
    using fetch [of "[x]" for x] failed [of _ "[x]" for x] fetch [of "[x, y]" for x y]
      failed [of _ "[x, y]" for x y]
    by (auto simp: validate_prog_def Let_def split: sum.split option.split)
qed

lemma auth_paths:
  assumes "c_sent (sw_inner w) = None" and "sw_ok w"
  shows "on_paths (auth_prog ob next_prog r w) (\<lambda>t w. admission r t (sw_inner w))"
proof -
  have sent: "\<exists>hdr. sw_sent (auth_writeProblem_w r code title d w) = Some (code, hdr)" for code title d
    using assms sw_ok_fresh by (auto simp: auth_writeProblem_w_def Let_def writer_simps)
  have refuse: "on_paths (do_act (ASlog lv msg attrs) (Done (auth_writeProblem_w r code title d w)))
      (\<lambda>u w. admission r (t @ u) (sw_inner w))"
    if "events_of t = []" "code \<in> {401, 503}" for lv msg attrs code title d t
    using sent [of code title d] that by (auto simp: do_act_def admission_def)
  show ?thesis
  proof (cases "extractBearer (header_get r ''Authorization'')")
    case (Inl e)
    then show ?thesis using refuse [of "[]" 401] by (simp add: auth_prog_def)
  next
    case (Inr token)
    show ?thesis
      unfolding auth_prog_def Inr sum.case
    proof (rule validate_paths)
      fix v t
      assume v: "declared v" "events_of t = []" "v = None \<longrightarrow> token \<noteq> [] \<and> (AToken, RToken token) \<in> set t"
      have "on_paths (next_prog r w) (\<lambda>u w. admission r (t @ u) (sw_inner w))" if "v = None"
        by (rule on_paths_all) (use that v(3) Inr in \<open>auto simp: admission_def authed_def\<close>)
      then show "on_paths (case v of
            None \<Rightarrow> next_prog r w
          | Some (ErrNoToken d) \<Rightarrow>
              do_act (ASlog LError ''auth: no token configured''
                  [(''path'', AText (rq_Path r)), (''err'', AText (auth_error_text (ErrNoToken d)))])
                (Done (auth_writeProblem_w r 503 ''Service Unavailable''
                  ''authentication is not configured on this gateway'' w))
          | Some ErrInvalidToken \<Rightarrow>
              do_act (ASlog LWarn ''auth: invalid token''
                  [(''remote'', AText (rq_RemoteAddr r)), (''path'', AText (rq_Path r))])
                (Done (auth_writeProblem_w r 401 ''Unauthorized'' ''invalid bearer token'' w))
          | Some (OtherError e) \<Rightarrow>
              do_act (ASlog LError ''auth: validator error''
                  [(''path'', AText (rq_Path r)), (''err'', AText e)])
                (Done (auth_writeProblem_w r 500 ''Internal Server Error''
                  ''authentication check failed'' w)))
          (\<lambda>u w. admission r (t @ u) (sw_inner w))"
        using v(1) refuse [OF v(2)] by (auto simp: declared_def split: option.split auth_error.split)
    qed
  qed
qed

lemma admission_around:
  "admission r t c \<Longrightarrow> events_of a = [] \<Longrightarrow> events_of b = [] \<Longrightarrow> admission r (a @ t @ b) c"
  by (auto simp: admission_def authed_def)

lemma metrics_admission:
  assumes "on_paths (next_prog r (new_statusWriter c)) (\<lambda>t w. admission r t (sw_inner w))"
  shows "on_paths (metrics_prog endpoint next_prog r c) (admission r)"
proof -
  let ?tail = "\<lambda>start w. do_metrics [CallGaugeDec InFlight] (do_now (\<lambda>now. do_metrics
      [CallObserve RequestDuration [endpoint, rq_Method r] (now - start) (10 ^ 9),
       CallInc Requests [endpoint, rq_Method r, dec_int (sw_status w)]] (Done (sw_inner w))))"
  have "on_paths (next_prog r (new_statusWriter c)) (\<lambda>u w. on_paths (?tail start w)
      (\<lambda>v. admission r ((ANow, RTime start) # (AMetric (CallGaugeInc InFlight), RUnit) # u @ v)))" for start
  proof (rule on_paths_mono [OF assms])
    fix u w assume "admission r u (sw_inner w)"
    from admission_around [OF this, of "[(ANow, RTime start), (AMetric (CallGaugeInc InFlight), RUnit)]"]
    show "on_paths (?tail start w)
        (\<lambda>v. admission r ((ANow, RTime start) # (AMetric (CallGaugeInc InFlight), RUnit) # u @ v))"
      by (auto simp: do_metrics_def do_act_def do_now_def)
  qed
  then show ?thesis
    by (auto simp: metrics_prog_def do_now_def do_metrics_def do_act_def on_paths_bind)
qed

lemma api_admission:
  assumes "api_request r" and "c_sent c = None"
  shows "on_paths (public_prog version h env r c) (admission r)"
proof -
  have prefix: "has_prefix ''/v1/ask'' ''/v1/''" "has_prefix ''/v1/tools'' ''/v1/''"
    "has_prefix ''/v1/models'' ''/v1/''" by (simp_all add: has_prefix_def)
  let ?r = "WithValue r (id_of env r)" and ?c = "conn_set_header HeaderName (id_of env r) c"
  have same: "admission ?r = admission r"
    by (intro ext) (simp add: admission_def authed_def header_get_def WithValue_def)
  have "sw_ok (new_statusWriter ?c)" "c_sent (sw_inner (new_statusWriter ?c)) = None"
    using assms(2) by (simp_all add: sw_ok_new writer_simps) (simp add: new_statusWriter_def writer_simps)
  then have "on_paths (metrics_prog endpoint (auth_prog (re_auth env) hdl) ?r ?c) (admission r)"
    for endpoint hdl
    using metrics_admission [where next_prog = "auth_prog (re_auth env) hdl" and c = ?c and r = ?r,
        OF auth_paths] by (simp add: same)
  then have route: "on_paths (route_prog endpoint hdl env r c) (admission r)" for endpoint hdl
    by (simp add: route_prog_def RequestId.Middleware_def Let_def)
  have "on_paths (api_prog h env r c) (admission r)"
    using assms(1) route by (auto simp: api_prog_def mux_serve_def Let_def api_mux api_request_def)
  then show ?thesis
    using assms(1) prefix by (auto simp: public_prog_def mux_serve_def Let_def newMux_match api_request_def)
qed

subsection \<open>Where tokens come from\<close>

text \<open>The tokens that some request has read from the file, as far as an execution has come.\<close>

definition tokens_read :: "(nat \<times> action \<times> reply) list \<Rightarrow> bytes set" where
  "tokens_read tr =
     {trim_right_set token_cutset raw | raw. \<exists>j info r. (j, AReload info (Inr raw), r) \<in> set tr}"

lemma tokens_read_append [simp]: "tokens_read (tr @ tr') = tokens_read tr \<union> tokens_read tr'"
  unfolding tokens_read_def set_append by blast

definition tokens_ok :: "bytes \<Rightarrow> ('l, 'b, 'a) pool \<Rightarrow> bool" where
  "tokens_ok t0 s \<longleftrightarrow>
     src_token (sh_auth (po_shared s)) \<in> insert t0 (tokens_read (po_trace s)) \<and>
     (\<forall>i t. (i, AToken, RToken t) \<in> set (po_trace s) \<longrightarrow> t \<in> insert t0 (tokens_read (po_trace s)))"

lemma exec_token:
  assumes "exec rt act s = (r, s')"
  shows "src_token (sh_auth s') = src_token (sh_auth s) \<or>
      src_token (sh_auth s') \<in> tokens_read [(i, act, r)]"
    and "act = AToken \<Longrightarrow> r = RToken t \<Longrightarrow> t = src_token (sh_auth s)"
proof -
  show "src_token (sh_auth s') = src_token (sh_auth s) \<or>
      src_token (sh_auth s') \<in> tokens_read [(i, act, r)]"
  proof (cases act)
    case (AReload info rd)
    then show ?thesis
      using assms
      by (cases rd) (auto simp: tokens_read_def reload_locked_def split_beta split: if_splits)
  qed (use assms in \<open>auto simp: split_beta frame_simps\<close>)
  show "act = AToken \<Longrightarrow> r = RToken t \<Longrightarrow> t = src_token (sh_auth s)" using assms by auto
qed

lemma tokens_ok_step: "pool_step rt s t \<Longrightarrow> tokens_ok t0 s \<Longrightarrow> tokens_ok t0 t"
proof (induction rule: pool_step.induct)
  case (access i s act k r sh)
  have "src_token (sh_auth sh) = src_token (sh_auth (po_shared s)) \<or>
      src_token (sh_auth sh) \<in> tokens_read [(i, act, r)]"
    by (rule exec_token(1) [OF access(3)])
  moreover have "act = AToken \<Longrightarrow> r = RToken t \<Longrightarrow> t = src_token (sh_auth (po_shared s))" for t
    by (rule exec_token(2) [OF access(3)])
  ultimately show ?case using access(4) by (auto simp: tokens_ok_def)
qed

lemma tokens_ok_steps: "pool_steps rt s t \<Longrightarrow> tokens_ok t0 s \<Longrightarrow> tokens_ok t0 t"
  by (induction rule: pool_steps.induct) (auto intro: tokens_ok_step)

text \<open>C7: no way past the token: under any interleaving of any number of requests, validations and
  reloads of the token, a request to the API whose response has a status other than 401 and 503,
  or that has left an event in the audit log, has presented a non-empty bearer token that is the
  one cached at the start or the trimmed content of the token file as some request has read it
  in this execution.\<close>

theorem concurrent_callers_hold_token:
  assumes "pool_steps rt (serving version h xs sh) s" and "i < length xs"
    and "api_request (in_request (xs ! i))"
    and "po_progs s ! i = Done c" and "c_sent c = Some (code, hdr)"
    and "code \<notin> {401, 503} \<or> events_of (mine i (po_trace s)) \<noteq> []"
  shows "\<exists>token. extractBearer (header_get (in_request (xs ! i)) ''Authorization'') = Inr token \<and>
    token \<noteq> [] \<and>
    (token = src_token (sh_auth sh) \<or>
     (\<exists>j info raw r. (j, AReload info (Inr raw), r) \<in> set (po_trace s) \<and>
        token = trim_right_set token_cutset raw))"
proof -
  have "on_paths (map (request_prog version h) xs ! i) (admission (in_request (xs ! i)))"
    using assms(2) api_admission [OF assms(3) new_conn_unsent] by (simp add: request_prog_def)
  from answered_on_paths [OF assms(1) [unfolded serving_def] _ assms(4) this] assms(2,5,6)
  have "authed (in_request (xs ! i)) (mine i (po_trace s))" by (auto simp: admission_def)
  then obtain token where token: "extractBearer (header_get (in_request (xs ! i)) ''Authorization'') = Inr token"
    "token \<noteq> []" "(i, AToken, RToken token) \<in> set (po_trace s)"
    by (auto simp: authed_def mine_def)
  have "tokens_ok (src_token (sh_auth sh)) (serving version h xs sh)"
    by (simp add: tokens_ok_def serving_def start_pool_def)
  from tokens_ok_steps [OF assms(1) this] token(3)
  have "token = src_token (sh_auth sh) \<or> token \<in> tokens_read (po_trace s)" by (auto simp: tokens_ok_def)
  then show ?thesis using token(1,2) unfolding tokens_read_def by blast
qed

theorem concurrent_callers_hold_token_witness:
  "\<exists>token. extractBearer (header_get (sample_question_request False) ''Authorization'') = Inr token \<and>
     token \<noteq> []"
proof -
  obtain s c hdr where "pool_steps sample_runtime sample_serving s" "po_progs s ! 0 = Done c"
    "c_sent c = Some (200, hdr)"
    using sample_answered by blast
  moreover have "0 < length sample_load" "in_request (sample_load ! 0) = sample_question_request False"
    by (simp_all add: sample_load_def sample_incoming_def)
  moreover have "api_request (sample_question_request False)"
    by (simp add: api_request_def ask_request_def)
  ultimately show ?thesis
    using concurrent_callers_hold_token [of sample_runtime "''v1''" answering_handlers sample_load sample_shared s 0 c 200 hdr]
    by auto
qed

end
