(* ===== verification/Lifecycle.thy ===== *)
theory Lifecycle
  imports ServerState
begin

text \<open>
  \<open>cmd/gateway/main.go\<close>, the lifecycle: \<open>run\<close> after the wiring, as a step relation over the main
  goroutine, the two listener goroutines, the channel of capacity two between them, and the
  environment that sends signals and breaks listeners. \<open>pr_signalled\<close> is \<open>sigCtx.Done()\<close>, by a signal
  or by the caller's context. \<open>Shutdown\<close> returns in one step, with some error or none: its context
  has a deadline. Last comes the end of \<open>main\<close>.
\<close>

datatype listener = ApiListener | MetricsListener

fun listener_name :: "listener \<Rightarrow> bytes" where
  "listener_name ApiListener = ''api''"
| "listener_name MetricsListener = ''metrics''"

text \<open>
  A listener goroutine: inside \<open>ListenAndServe\<close>, about to send its result (\<open>None\<close> for
  \<open>ErrServerClosed\<close>), or done.
\<close>

datatype goroutine = Serving | Sending "bytes option" | Finished

text \<open>
  Where \<open>run\<close> is: in the select; before the two calls to \<open>Shutdown\<close> on either path; in \<open>wg.Wait\<close>;
  draining the channel; or back in its caller. \<open>Fatal\<close> carries the failed listener, \<open>Graceful\<close>
  the first error of the shutdown.
\<close>

datatype cause = Fatal listener bytes | Graceful "bytes option"

datatype main_pc =
    Selecting
  | ShutdownApi cause
  | ShutdownMetrics cause
  | Waiting cause
  | Draining "bytes option"
  | Returned "bytes option"

record process =
  pr_main :: main_pc
  pr_go :: "listener \<Rightarrow> goroutine"
  pr_results :: "(listener \<times> bytes option) list"
  pr_signalled :: bool
  pr_down :: "listener \<Rightarrow> bool"
  pr_log :: "bytes list"

definition chan_cap :: nat where
  "chan_cap = 2"

definition launch :: process where
  "launch =
     \<lparr>pr_main = Selecting, pr_go = (\<lambda>_. Serving), pr_results = [], pr_signalled = False,
      pr_down = (\<lambda>_. False), pr_log = []\<rparr>"

text \<open>The error kept on the graceful path: that of the first \<open>Shutdown\<close> if it has one.\<close>

fun keep_error :: "cause \<Rightarrow> bytes option \<Rightarrow> cause" where
  "keep_error (Fatal l e) err = Fatal l e"
| "keep_error (Graceful None) err = Graceful err"
| "keep_error (Graceful (Some e)) err = Graceful (Some e)"

fun after_wait :: "cause \<Rightarrow> main_pc" where
  "after_wait (Fatal l e) = Returned (Some (listener_name l @ '' listener: '' @ e))"
| "after_wait (Graceful err) = Draining err"

definition finish :: "bytes option \<Rightarrow> process \<Rightarrow> process" where
  "finish err p =
     (case err of
        Some e \<Rightarrow> p\<lparr>pr_main := Returned (Some (''shutdown: '' @ e))\<rparr>
      | None \<Rightarrow> p\<lparr>pr_main := Returned None, pr_log := pr_log p @ [''gateway stopped cleanly'']\<rparr>)"

inductive proc_step :: "process \<Rightarrow> process \<Rightarrow> bool" where
  signal:
    "\<not> pr_signalled p \<Longrightarrow> (\<forall>r. pr_main p \<noteq> Returned r) \<Longrightarrow>
     proc_step p (p\<lparr>pr_signalled := True\<rparr>)"
| listener_fails:
    "pr_go p l = Serving \<Longrightarrow> proc_step p (p\<lparr>pr_go := (pr_go p)(l := Sending (Some e))\<rparr>)"
| listener_closed:
    "pr_go p l = Serving \<Longrightarrow> pr_down p l \<Longrightarrow>
     proc_step p (p\<lparr>pr_go := (pr_go p)(l := Sending None)\<rparr>)"
| deliver:
    "pr_go p l = Sending r \<Longrightarrow> length (pr_results p) < chan_cap \<Longrightarrow>
     proc_step p (p\<lparr>pr_go := (pr_go p)(l := Finished), pr_results := pr_results p @ [(l, r)]\<rparr>)"
| select_failure:
    "pr_main p = Selecting \<Longrightarrow> pr_results p = (l, Some e) # rest \<Longrightarrow>
     proc_step p (p\<lparr>pr_main := ShutdownApi (Fatal l e), pr_results := rest\<rparr>)"
| select_closed:
    "pr_main p = Selecting \<Longrightarrow> pr_results p = (l, None) # rest \<Longrightarrow>
     proc_step p (p\<lparr>pr_main := ShutdownApi (Graceful None), pr_results := rest\<rparr>)"
| select_signal:
    "pr_main p = Selecting \<Longrightarrow> pr_signalled p \<Longrightarrow>
     proc_step p (p\<lparr>pr_main := ShutdownApi (Graceful None),
                    pr_log := pr_log p @ [''shutdown signal received, draining'']\<rparr>)"
| shutdown_api:
    "pr_main p = ShutdownApi c \<Longrightarrow>
     proc_step p (p\<lparr>pr_main := ShutdownMetrics (keep_error c err),
                    pr_down := (pr_down p)(ApiListener := True)\<rparr>)"
| shutdown_metrics:
    "pr_main p = ShutdownMetrics c \<Longrightarrow>
     proc_step p (p\<lparr>pr_main := Waiting (keep_error c err),
                    pr_down := (pr_down p)(MetricsListener := True)\<rparr>)"
| wait:
    "pr_main p = Waiting c \<Longrightarrow> (\<forall>l. pr_go p l = Finished) \<Longrightarrow>
     proc_step p (p\<lparr>pr_main := after_wait c\<rparr>)"
| drain:
    "pr_main p = Draining err \<Longrightarrow> pr_results p = x # rest \<Longrightarrow>
     proc_step p (p\<lparr>pr_results := rest\<rparr>)"
| stop:
    "pr_main p = Draining err \<Longrightarrow> pr_results p = [] \<Longrightarrow> proc_step p (finish err p)"

inductive proc_reachable :: "process \<Rightarrow> bool" where
  launched: "proc_reachable launch"
| stepped: "proc_reachable p \<Longrightarrow> proc_step p q \<Longrightarrow> proc_reachable q"

inductive_cases proc_stepE: "proc_step p q"

text \<open>No way out of \<open>Returned\<close> for \<open>run\<close> itself.\<close>

definition has_returned :: "process \<Rightarrow> bool" where
  "has_returned p \<longleftrightarrow> (\<exists>r. pr_main p = Returned r)"

subsection \<open>The invariant\<close>

fun sent_by :: "goroutine \<Rightarrow> nat" where
  "sent_by Finished = 1"
| "sent_by _ = 0"

text \<open>Which servers have been shut down, by the position of \<open>run\<close>.\<close>

fun downs :: "main_pc \<Rightarrow> listener \<Rightarrow> bool" where
  "downs Selecting l = False"
| "downs (ShutdownApi c) l = False"
| "downs (ShutdownMetrics c) l = (l = ApiListener)"
| "downs (Waiting c) l = True"
| "downs (Draining err) l = True"
| "downs (Returned r) l = True"

fun past_wait :: "main_pc \<Rightarrow> bool" where
  "past_wait (Draining err) = True"
| "past_wait (Returned r) = True"
| "past_wait _ = False"

definition proc_inv :: "process \<Rightarrow> bool" where
  "proc_inv p \<longleftrightarrow>
     length (pr_results p) \<le> sent_by (pr_go p ApiListener) + sent_by (pr_go p MetricsListener) \<and>
     pr_down p = downs (pr_main p) \<and>
     (past_wait (pr_main p) \<longrightarrow> (\<forall>l. pr_go p l = Finished))"

lemma all_listeners: "(\<forall>l. P l) \<longleftrightarrow> P ApiListener \<and> P MetricsListener"
  by (metis listener.exhaust)

lemma proc_inv_launch: "proc_inv launch"
  by (auto simp: proc_inv_def launch_def)

lemma after_wait_simps [simp]:
  "downs (after_wait c) = (\<lambda>_. True)" "past_wait (after_wait c)" "after_wait c \<noteq> Selecting"
  by (cases c; auto)+

lemma finish_simps [simp]:
  "pr_go (finish err p) = pr_go p" "pr_results (finish err p) = pr_results p"
  "pr_down (finish err p) = pr_down p" "downs (pr_main (finish err p)) = (\<lambda>_. True)"
  "pr_signalled (finish err p) = pr_signalled p" "has_returned (finish err p)"
  "pr_main (finish err p) \<noteq> Selecting"
  by (cases err; auto simp: finish_def has_returned_def)+

lemma sent_upd:
  "sent_by ((g(l := Finished)) ApiListener) + sent_by ((g(l := Finished)) MetricsListener) =
     (if g l = Finished then sent_by (g ApiListener) + sent_by (g MetricsListener)
      else Suc (sent_by (g ApiListener) + sent_by (g MetricsListener)))"
  by (cases l; cases "g l") auto

lemma proc_step_inv: "proc_step p q \<Longrightarrow> proc_inv p \<Longrightarrow> proc_inv q"
proof (induction rule: proc_step.induct)
  case (deliver p l r)
  then show ?case
    using sent_upd [of "pr_go p" l] by (auto simp: proc_inv_def)
next
  case (listener_fails p l e)
  then show ?case by (cases l) (auto simp: proc_inv_def)
next
  case (listener_closed p l)
  then show ?case by (cases l) (auto simp: proc_inv_def)
qed (auto simp: proc_inv_def fun_eq_iff all_listeners)

lemma proc_reachable_inv: "proc_reachable p \<Longrightarrow> proc_inv p"
  by (induction rule: proc_reachable.induct) (auto intro: proc_inv_launch proc_step_inv)

text \<open>C28: the channel never blocks a listener and \<open>run\<close> leaves nothing behind: in every reachable
  state, a goroutine that has a result can deliver it at once, and when \<open>run\<close> has returned, both
  servers have been shut down and both goroutines are done.\<close>

theorem listeners_never_leak:
  assumes "proc_reachable p"
  shows "(pr_go p l = Sending r \<longrightarrow> length (pr_results p) < chan_cap) \<and>
    (has_returned p \<longrightarrow> pr_down p l \<and> pr_go p l = Finished)"
  using proc_reachable_inv [OF assms]
  by (cases l; cases "pr_go p ApiListener"; cases "pr_go p MetricsListener")
    (auto simp: proc_inv_def chan_cap_def has_returned_def)

subsection \<open>Termination\<close>

fun main_rank :: "main_pc \<Rightarrow> nat" where
  "main_rank Selecting = 5"
| "main_rank (ShutdownApi c) = 4"
| "main_rank (ShutdownMetrics c) = 3"
| "main_rank (Waiting c) = 2"
| "main_rank (Draining err) = 1"
| "main_rank (Returned r) = 0"

fun go_rank :: "goroutine \<Rightarrow> nat" where
  "go_rank Serving = 4"
| "go_rank (Sending r) = 2"
| "go_rank Finished = 0"

definition proc_measure :: "process \<Rightarrow> nat" where
  "proc_measure p =
     main_rank (pr_main p) + go_rank (pr_go p ApiListener) + go_rank (pr_go p MetricsListener) +
     length (pr_results p) + (if pr_signalled p then 0 else 1)"

lemma go_rank_upd:
  "go_rank ((g(l := x)) ApiListener) + go_rank ((g(l := x)) MetricsListener) + go_rank (g l) =
     go_rank (g ApiListener) + go_rank (g MetricsListener) + go_rank x"
  by (cases l) auto

lemma after_wait_rank: "main_rank (after_wait c) < 2"
  by (cases c) auto

lemma finish_rank [simp]: "main_rank (pr_main (finish err p)) = 0"
  by (cases err) (simp_all add: finish_def)

lemma proc_step_measure: "proc_step p q \<Longrightarrow> proc_measure q < proc_measure p"
proof (induction rule: proc_step.induct)
  case (listener_fails p l e)
  then show ?case
    using go_rank_upd [of "pr_go p" l "Sending (Some e)"] by (simp add: proc_measure_def)
next
  case (listener_closed p l)
  then show ?case
    using go_rank_upd [of "pr_go p" l "Sending None"] by (simp add: proc_measure_def)
next
  case (deliver p l r)
  then show ?case
    using go_rank_upd [of "pr_go p" l Finished] by (simp add: proc_measure_def)
next
  case (wait p c)
  then show ?case using after_wait_rank [of c] by (simp add: proc_measure_def)
qed (simp_all add: proc_measure_def)

text \<open>Once the select is left, some step is possible until \<open>run\<close> has returned.\<close>

lemma proc_progress:
  assumes "proc_inv p" and "\<not> has_returned p" and "pr_main p \<noteq> Selecting"
  shows "\<exists>q. proc_step p q"
proof (cases "pr_main p")
  case (Waiting c)
  have room: "pr_go p l = Sending r \<Longrightarrow> length (pr_results p) < chan_cap" for l r
    using assms(1)
    by (cases l; cases "pr_go p ApiListener"; cases "pr_go p MetricsListener")
      (auto simp: proc_inv_def chan_cap_def)
  show ?thesis
  proof (cases "\<forall>l. pr_go p l = Finished")
    case True
    then show ?thesis using proc_step.wait [OF Waiting] by blast
  next
    case False
    then obtain l where l: "pr_go p l \<noteq> Finished" by blast
    have "pr_down p l" using assms(1) Waiting by (simp add: proc_inv_def)
    then show ?thesis
      using l room proc_step.listener_closed proc_step.deliver by (cases "pr_go p l") blast+
  qed
next
  case (Draining err)
  then show ?thesis using proc_step.drain proc_step.stop by (cases "pr_results p") blast+
next
  case (ShutdownApi c)
  then show ?thesis using proc_step.shutdown_api by blast
next
  case (ShutdownMetrics c)
  then show ?thesis using proc_step.shutdown_metrics by blast
qed (use assms(2,3) in \<open>auto simp: has_returned_def\<close>)

text \<open>In the select, a signal or a delivered result is enough.\<close>

lemma select_progress:
  assumes "pr_main p = Selecting" and "pr_signalled p \<or> pr_results p \<noteq> []"
  shows "\<exists>q. proc_step p q \<and> pr_main q \<noteq> Selecting"
proof (cases "pr_signalled p")
  case True
  then show ?thesis using proc_step.select_signal [OF assms(1)] by force
next
  case False
  then obtain l r rest where rs: "pr_results p = (l, r) # rest"
    using assms(2) by (metis list.exhaust prod.exhaust)
  show ?thesis
  proof (cases r)
    case None
    then show ?thesis using proc_step.select_closed [OF assms(1)] rs by force
  next
    case (Some e)
    then show ?thesis using proc_step.select_failure [OF assms(1)] rs by force
  qed
qed

inductive proc_steps :: "process \<Rightarrow> process \<Rightarrow> bool" where
  here: "proc_steps p p"
| more: "proc_step p q \<Longrightarrow> proc_steps q r \<Longrightarrow> proc_steps p r"

lemma stuck_has_returned:
  assumes "proc_reachable p" and "pr_signalled p \<or> pr_results p \<noteq> [] \<or> pr_main p \<noteq> Selecting"
    and "proc_steps p q" and "\<nexists>r. proc_step q r"
  shows "has_returned q"
proof -
  define going where "going s \<longleftrightarrow> proc_inv s \<and>
    (pr_signalled s \<or> pr_results s \<noteq> [] \<or> pr_main s \<noteq> Selecting)" for s
  have keep: "going t" if "proc_step s t" "going s" for s t
    using that proc_step_inv
    by (auto simp: going_def has_returned_def elim!: proc_step.cases)
  have "going p" using assms(1,2) proc_reachable_inv by (simp add: going_def)
  with assms(3) have "going q" by (induction rule: proc_steps.induct) (auto intro: keep)
  then show ?thesis
    using assms(4) proc_progress [of q] select_progress [of q] by (auto simp: going_def)
qed

text \<open>C26: shutdown ends: no execution of the process is infinite, and from every reachable state in
  which a signal has arrived or a listener has reported, every execution that goes on as long
  as the process itself can take a step ends with \<open>run\<close> having returned.\<close>

theorem shutdown_terminates:
  assumes "proc_reachable p" and "pr_signalled p \<or> pr_results p \<noteq> [] \<or> pr_main p \<noteq> Selecting"
  shows "wfP (\<lambda>q p. proc_step p q) \<and>
    (\<forall>q. proc_steps p q \<and> (\<nexists>r. proc_step q r) \<longrightarrow> has_returned q)"
proof -
  have "wfP (\<lambda>q p. proc_step p q)"
    by (rule wfp_if_convertible_to_nat [where f = proc_measure]) (rule proc_step_measure)
  then show ?thesis using stuck_has_returned [OF assms] by blast
qed

subsection \<open>A concrete execution\<close>

lemma signalled_reachable: "proc_reachable (launch\<lparr>pr_signalled := True\<rparr>)"
  by (rule stepped [OF launched proc_step.signal]) (simp_all add: launch_def)

definition bind_failed :: process where
  "bind_failed = launch\<lparr>pr_go := (pr_go launch)(ApiListener := Sending (Some ''address in use''))\<rparr>"

lemma bind_failed_reachable: "proc_reachable bind_failed"
  unfolding bind_failed_def
  by (rule stepped [OF launched proc_step.listener_fails]) (simp add: launch_def)

theorem listeners_never_leak_witness: "length (pr_results bind_failed) < chan_cap"
proof -
  have "pr_go bind_failed ApiListener = Sending (Some ''address in use'')"
    by (simp add: bind_failed_def)
  then show ?thesis using listeners_never_leak [OF bind_failed_reachable] by blast
qed

theorem shutdown_terminates_witness: "wfP (\<lambda>q p. proc_step p q)"
  using shutdown_terminates [OF signalled_reachable] by simp

subsection \<open>What the process reports\<close>

text \<open>The end of \<open>main\<close>: the exit code for the result of \<open>run\<close>, and what is logged about it.\<close>

definition main_exit :: "bytes option \<Rightarrow> int \<times> log_entry list" where
  "main_exit err =
     (case err of
        None \<Rightarrow> (0, [])
      | Some e \<Rightarrow>
          (1, [\<lparr>le_level = LError, le_msg = ''gateway exited with error'',
                le_attrs = [(''err'', AText e)]\<rparr>]))"

text \<open>The way of a failure that the select has received.\<close>

fun failing :: "listener \<Rightarrow> bytes \<Rightarrow> main_pc \<Rightarrow> bool" where
  "failing l e (ShutdownApi c) = (c = Fatal l e)"
| "failing l e (ShutdownMetrics c) = (c = Fatal l e)"
| "failing l e (Waiting c) = (c = Fatal l e)"
| "failing l e (Returned r) = (r = Some (listener_name l @ '' listener: '' @ e))"
| "failing l e _ = False"

lemma failing_step: "proc_step p q \<Longrightarrow> failing l e (pr_main p) \<Longrightarrow> failing l e (pr_main q)"
  by (induction rule: proc_step.induct) auto

lemma failing_steps: "proc_steps p q \<Longrightarrow> failing l e (pr_main p) \<Longrightarrow> failing l e (pr_main q)"
  by (induction rule: proc_steps.induct) (auto dest: failing_step)

text \<open>A listener that fails while the process is stopping for a signal: its result is drained.\<close>

lemma failure_lost:
  "\<exists>p q. proc_reachable p \<and> \<not> has_returned p \<and> pr_results p = [(ApiListener, Some ''accept: EMFILE'')] \<and>
     proc_steps p q \<and> pr_main q = Returned None"
proof -
  let ?e = "Some ''accept: EMFILE''"
  define p where "p = launch\<lparr>pr_signalled := True,
    pr_go := (\<lambda>_. Serving)(ApiListener := Finished), pr_results := [(ApiListener, ?e)]\<rparr>"
  note s1 = stepped [OF signalled_reachable
    proc_step.listener_fails [of _ ApiListener "''accept: EMFILE''"]]
  note s2 = stepped [OF s1 proc_step.deliver [of _ ApiListener ?e]]
  have p: "proc_reachable p"
    unfolding p_def by (rule back_subst [where P = proc_reachable], rule s2)
      (simp_all add: launch_def chan_cap_def)
  note t = proc_steps.more [OF proc_step.select_signal [of p]]
    proc_steps.more [OF proc_step.shutdown_api [where err = None]]
    proc_steps.more [OF proc_step.shutdown_metrics [where err = None]]
    proc_steps.more [OF proc_step.listener_closed [where l = MetricsListener]]
    proc_steps.more [OF proc_step.deliver [where l = MetricsListener and r = None]]
    proc_steps.more [OF proc_step.wait] proc_steps.more [OF proc_step.drain]
    proc_steps.more [OF proc_step.stop] proc_steps.here
  have "\<exists>q. proc_steps p q \<and> pr_main q = Returned None"
    apply (intro exI conjI)
     apply (rule t(1), simp add: p_def launch_def, simp add: p_def)
     apply (rule t(2), simp, rule t(3), simp, rule t(4), simp add: p_def, simp)
     apply (rule t(5), simp, simp add: p_def chan_cap_def, rule t(6), simp)
     apply (simp add: p_def all_listeners)
     apply (rule t(7), simp, simp add: p_def, rule t(7), simp, simp)
     apply (rule t(8), simp, simp, rule t(9))
    apply (simp add: finish_def)
    done
  moreover have "\<not> has_returned p" "pr_results p = [(ApiListener, ?e)]"
    by (simp_all add: p_def has_returned_def launch_def)
  ultimately show ?thesis using p by blast
qed

lemma runs_until_stuck: "\<exists>q. proc_steps p q \<and> (\<nexists>r. proc_step q r)"
proof (induction "proc_measure p" arbitrary: p rule: less_induct)
  case less
  show ?case
  proof (cases "\<exists>p'. proc_step p p'")
    case True
    then obtain p' where p': "proc_step p p'" by blast
    from less [OF proc_step_measure [OF p']] show ?thesis using proc_steps.more [OF p'] by blast
  qed (use proc_steps.here in blast)
qed

text \<open>C27: what the process reports: once the select has received the failure of a listener, every
  execution that goes on as long as it can ends with \<open>run\<close> returning exactly that failure and
  with exit code 1; but a failure that is still in the channel when the select takes the signal
  instead is drained unread, and the process can then exit with 0 as if nothing had happened.\<close>

theorem failure_reporting:
  assumes "proc_reachable p" and "pr_main p = ShutdownApi (Fatal l e)"
    and "proc_steps p q" and "\<nexists>r. proc_step q r"
  shows "pr_main q = Returned (Some (listener_name l @ '' listener: '' @ e)) \<and>
    fst (main_exit (Some (listener_name l @ '' listener: '' @ e))) = 1 \<and>
    (\<exists>a b. proc_reachable a \<and> \<not> has_returned a \<and>
      pr_results a = [(ApiListener, Some ''accept: EMFILE'')] \<and> proc_steps a b \<and>
      pr_main b = Returned None \<and> main_exit None = (0, []))"
proof -
  have "failing l e (pr_main q)" using failing_steps [OF assms(3)] assms(2) by simp
  moreover have "has_returned q" using stuck_has_returned [OF assms(1) _ assms(3,4)] assms(2) by simp
  ultimately show ?thesis using failure_lost by (auto simp: has_returned_def main_exit_def)
qed

text \<open>The public listener cannot bind its address.\<close>

theorem failure_reporting_witness:
  "\<exists>q. proc_steps launch q \<and> pr_main q = Returned (Some ''api listener: address in use'')"
proof -
  let ?e = "Some ''address in use''"
  have d: "proc_step bind_failed (bind_failed\<lparr>pr_go := (pr_go bind_failed)(ApiListener := Finished),
      pr_results := [(ApiListener, ?e)]\<rparr>)" (is "proc_step _ ?d")
    using proc_step.deliver [of bind_failed ApiListener ?e]
    by (simp add: bind_failed_def launch_def chan_cap_def)
  have s: "proc_step ?d (?d\<lparr>pr_main := ShutdownApi (Fatal ApiListener ''address in use''),
      pr_results := []\<rparr>)" (is "proc_step _ ?s")
    using proc_step.select_failure [of ?d ApiListener "''address in use''" "[]"]
    by (simp add: bind_failed_def launch_def)
  have b: "proc_step launch bind_failed"
    unfolding bind_failed_def by (rule proc_step.listener_fails) (simp add: launch_def)
  obtain q where q: "proc_steps ?s q" "\<nexists>r. proc_step q r" using runs_until_stuck by blast
  have "proc_reachable ?s" by (rule stepped [OF stepped [OF bind_failed_reachable d] s])
  from failure_reporting [OF this _ q] have "pr_main q = Returned (Some ''api listener: address in use'')"
    by simp
  moreover have "proc_steps launch q" using proc_steps.more b d s q(1) by blast
  ultimately show ?thesis by blast
qed

end
