(* ===== verification/Drain.thy ===== *)
theory Drain
  imports Accounts Lifecycle
begin

text \<open>
  The process and its requests together: \<open>run\<close> and the listeners of \<open>Lifecycle\<close>, and the goroutines
  of the requests that the public listener has accepted. The two meet in \<open>Shutdown\<close> of the public
  server, which by its documentation returns without an error only when no request is being
  served, takes none afterwards, and otherwise returns the error of its context.
\<close>

record ('l, 'b) system =
  sy_process :: process
  sy_requests :: "incoming list"
  sy_pool :: "('l, 'b, Conn) pool"
  sy_closed :: bool

definition start_system :: "('l, 'b, Source) shared \<Rightarrow> ('l, 'b) system" where
  "start_system sh =
     \<lparr>sy_process = launch, sy_requests = [], sy_pool = start_pool [] sh, sy_closed = False\<rparr>"

definition accept ::
  "bytes \<Rightarrow> ('l, 'b) handlers \<Rightarrow> incoming \<Rightarrow> ('l, 'b) system \<Rightarrow> ('l, 'b) system" where
  "accept version h x y =
     y\<lparr>sy_requests := sy_requests y @ [x],
       sy_pool := (sy_pool y)\<lparr>po_progs := po_progs (sy_pool y) @ [request_prog version h x]\<rparr>\<rparr>"

text \<open>
  \<open>api_down c err\<close>: \<open>srv.Shutdown\<close> returns \<open>err\<close>. Every other step of the process leaves the requests
  alone, and when \<open>run\<close> has returned nothing runs any more.
\<close>

definition api_down :: "cause \<Rightarrow> bytes option \<Rightarrow> process \<Rightarrow> process" where
  "api_down c err p =
     p\<lparr>pr_main := ShutdownMetrics (keep_error c err), pr_down := (pr_down p)(ApiListener := True)\<rparr>"

inductive sys_step ::
  "bytes \<Rightarrow> ('l, 'b) handlers \<Rightarrow> ('l, 'b) system \<Rightarrow> ('l, 'b) system \<Rightarrow> bool" for version h where
  arrives:
    "\<not> sy_closed y \<Longrightarrow> \<not> has_returned (sy_process y) \<Longrightarrow> sys_step version h y (accept version h x y)"
| serves_one:
    "pool_step (h_rt h) (sy_pool y) s \<Longrightarrow> \<not> has_returned (sy_process y) \<Longrightarrow>
     sys_step version h y (y\<lparr>sy_pool := s\<rparr>)"
| drained:
    "pr_main (sy_process y) = ShutdownApi c \<Longrightarrow> all_answered (sy_pool y) \<Longrightarrow>
     sys_step version h y (y\<lparr>sy_process := api_down c None (sy_process y), sy_closed := True\<rparr>)"
| cut_short:
    "pr_main (sy_process y) = ShutdownApi c \<Longrightarrow>
     sys_step version h y (y\<lparr>sy_process := api_down c (Some e) (sy_process y)\<rparr>)"
| process_step:
    "proc_step (sy_process y) p \<Longrightarrow> pr_down p ApiListener = pr_down (sy_process y) ApiListener \<Longrightarrow>
     sys_step version h y (y\<lparr>sy_process := p\<rparr>)"

inductive sys_reachable ::
  "bytes \<Rightarrow> ('l, 'b) handlers \<Rightarrow> ('l, 'b, Source) shared \<Rightarrow> ('l, 'b) system \<Rightarrow> bool" for version h sh where
  sys_start: "sys_reachable version h sh (start_system sh)"
| sys_more: "sys_reachable version h sh y \<Longrightarrow> sys_step version h y z \<Longrightarrow> sys_reachable version h sh z"

text \<open>The steps of \<open>Lifecycle\<close>, all of them and no others.\<close>

lemma api_down_step: "pr_main p = ShutdownApi c \<Longrightarrow> proc_step p (api_down c err p)"
  unfolding api_down_def by (rule proc_step.shutdown_api)

lemma sys_step_process:
  "sys_step version h y z \<Longrightarrow> sy_process z = sy_process y \<or> proc_step (sy_process y) (sy_process z)"
  by (induction rule: sys_step.induct) (auto simp: accept_def intro: api_down_step)

lemma sys_process_reachable: "sys_reachable version h sh y \<Longrightarrow> proc_reachable (sy_process y)"
proof (induction rule: sys_reachable.induct)
  case (sys_more y z)
  then show ?case using sys_step_process [OF sys_more(2)] proc_reachable.stepped by metis
qed (simp add: start_system_def proc_reachable.launched)

subsection \<open>Requests that arrive later\<close>

text \<open>
  A request that arrives during an execution might as well have been there from the start without
  having made a step.
\<close>

lemma pool_step_extend:
  "pool_step rt s t \<Longrightarrow>
   pool_step rt (s\<lparr>po_progs := po_progs s @ [p]\<rparr>) (t\<lparr>po_progs := po_progs t @ [p]\<rparr>)"
proof (induction rule: pool_step.induct)
  case (access i s act k r sh)
  then show ?case
    using pool_step.access [of i "s\<lparr>po_progs := po_progs s @ [p]\<rparr>" act k rt r sh]
    by (cases s) (simp add: nth_append list_update_append)
qed

lemma pool_steps_extend:
  "pool_steps rt s t \<Longrightarrow>
   pool_steps rt (s\<lparr>po_progs := po_progs s @ [p]\<rparr>) (t\<lparr>po_progs := po_progs t @ [p]\<rparr>)"
  by (induction rule: pool_steps.induct) (auto intro: pool_steps.intros pool_step_extend)

lemma sys_serving:
  "sys_reachable version h sh y \<Longrightarrow>
   pool_steps (h_rt h) (serving version h (sy_requests y) sh) (sy_pool y)"
proof (induction rule: sys_reachable.induct)
  case sys_start
  show ?case by (simp add: serving_def start_system_def pool_start)
next
  case (sys_more y z)
  from sys_more(2,3) show ?case
  proof (induction rule: sys_step.induct)
    case (arrives y x)
    then show ?case
      using pool_steps_extend [of "h_rt h" _ "sy_pool y" "request_prog version h x"]
      by (fastforce simp: accept_def serving_def start_pool_def)
  qed (auto intro: pool_steps.intros)
qed

subsection \<open>A clean exit\<close>

text \<open>\<open>no_error\<close>: \<open>run\<close> is on the graceful path, past the public server, and has kept no error.\<close>

fun no_error :: "main_pc \<Rightarrow> bool" where
  "no_error (ShutdownMetrics c) = (c = Graceful None)"
| "no_error (Waiting c) = (c = Graceful None)"
| "no_error (Draining err) = (err = None)"
| "no_error (Returned r) = (r = None)"
| "no_error _ = False"

lemma no_error_after_wait: "no_error (after_wait c) \<Longrightarrow> c = Graceful None"
  by (cases c) simp_all

lemma no_error_finish: "no_error (pr_main (finish err p)) \<Longrightarrow> err = None"
  by (cases err) (simp_all add: finish_def)

lemma keep_error_None: "keep_error c err = Graceful None \<Longrightarrow> c = Graceful None \<and> err = None"
  by (cases "(c, err)" rule: keep_error.cases) simp_all

lemma no_error_step:
  "proc_step p q \<Longrightarrow> no_error (pr_main q) \<Longrightarrow>
   no_error (pr_main p) \<or> (\<exists>c. pr_main p = ShutdownApi c)"
  by (induction rule: proc_step.induct)
    (auto dest: no_error_after_wait no_error_finish keep_error_None)

lemma api_down_no_error: "no_error (pr_main (api_down c err p)) \<Longrightarrow> err = None"
  by (auto simp: api_down_def dest: keep_error_None)

definition drain_inv :: "('l, 'b) system \<Rightarrow> bool" where
  "drain_inv y \<longleftrightarrow>
     (no_error (pr_main (sy_process y)) \<longrightarrow> sy_closed y) \<and> (sy_closed y \<longrightarrow> all_answered (sy_pool y))"

lemma answered_stuck: "all_answered s \<Longrightarrow> \<not> pool_step rt s t"
  by (auto elim!: pool_stepE dest: answered_nth)

lemma drain_inv_step:
  assumes "sys_step version h y z" and "proc_inv (sy_process y)" and "drain_inv y"
  shows "drain_inv z"
  using assms
proof (induction rule: sys_step.induct)
  case (process_step y p)
  have "\<not> (\<exists>c. pr_main (sy_process y) = ShutdownApi c)" if "no_error (pr_main p)"
  proof -
    have "proc_inv p" using proc_step_inv process_step by blast
    then have "pr_down p ApiListener" using that by (cases "pr_main p") (auto simp: proc_inv_def)
    then show ?thesis using process_step(2,3) by (auto simp: proc_inv_def)
  qed
  then show ?case using process_step no_error_step [OF process_step(1)] by (auto simp: drain_inv_def)
qed (auto simp: drain_inv_def accept_def answered_stuck dest: api_down_no_error)

lemma drain_inv_reachable: "sys_reachable version h sh y \<Longrightarrow> drain_inv y"
proof (induction rule: sys_reachable.induct)
  case (sys_more y z)
  then show ?case
    using drain_inv_step proc_reachable_inv sys_process_reachable by blast
qed (simp add: drain_inv_def start_system_def launch_def)

text \<open>A request that has been answered.\<close>

lemma answered_request:
  assumes "pool_steps rt (serving version h xs sh) s" and "all_answered s" and "i < length xs"
  shows "\<exists>c code hdr. po_progs s ! i = Done c \<and> c_sent c = Some (code, hdr) \<and>
    (api_request (in_request (xs ! i)) \<longrightarrow>
      code \<in> {200, 400, 401, 413, 415, 429, 502, 503} \<and> hdr HeaderName = Some (own_id (xs ! i))) \<and>
    (rq_Method (in_request (xs ! i)) = ''POST'' \<and> rq_Path (in_request (xs ! i)) = ''/v1/ask'' \<and>
       code \<in> {200, 429} \<longrightarrow>
     (\<exists>now e. events_of (mine i (po_trace s)) = [(now, e)] \<and>
        event_about h (in_request (xs ! i)) (own_id (xs ! i)) code e))"
proof -
  obtain c where c: "po_progs s ! i = Done c"
    using answered_nth [OF assms(2), of i] assms(3) serving_length [OF assms(1)] by auto
  note path = serving_answer [OF assms(1,3) c]
  obtain code hdr where sent: "c_sent c = Some (code, hdr)"
    and api: "api_request (in_request (xs ! i)) \<longrightarrow>
      code \<in> {200, 400, 401, 413, 415, 429, 502, 503} \<and> hdr HeaderName = Some (own_id (xs ! i))"
    using path_spec_response [OF path] by blast
  have "\<exists>now e. events_of (mine i (po_trace s)) = [(now, e)] \<and>
      event_about h (in_request (xs ! i)) (own_id (xs ! i)) code e"
    if ask: "rq_Method (in_request (xs ! i)) = ''POST''" "rq_Path (in_request (xs ! i)) = ''/v1/ask''"
      "code \<in> {200, 429}"
  proof -
    obtain now e where es: "events_of (mine i (po_trace s)) = [(now, e)]"
      using path_spec_events(4) [OF path sent ask(3,1,2)] by blast
    then have "event_about h (in_request (xs ! i)) (own_id (xs ! i)) code e"
      using path_spec_events(3) [OF path sent, of now e] by simp
    with es show ?thesis by blast
  qed
  then show ?thesis using c sent api by blast
qed

text \<open>C10: a clean exit loses nothing: when \<open>run\<close> has returned without an error, every request that the
  public listener had accepted has its response, an API request one with a documented status
  and its own request ID; the in-flight gauge is back where it was; and the audit log is the
  events of the requests, with one about each question answered with 200 or 429. A process that
  leaves a request unanswered returns an error and exits with 1.\<close>

theorem clean_exit_loses_nothing:
  assumes "sys_reachable version h sh y" and "pr_main (sy_process y) = Returned err"
  shows "(err = None \<longrightarrow>
      (\<forall>i < length (sy_requests y). \<exists>c code hdr.
        po_progs (sy_pool y) ! i = Done c \<and> c_sent c = Some (code, hdr) \<and>
        (api_request (in_request (sy_requests y ! i)) \<longrightarrow>
          code \<in> {200, 400, 401, 413, 415, 429, 502, 503} \<and>
          hdr HeaderName = Some (own_id (sy_requests y ! i))) \<and>
        (rq_Method (in_request (sy_requests y ! i)) = ''POST'' \<and>
           rq_Path (in_request (sy_requests y ! i)) = ''/v1/ask'' \<and> code \<in> {200, 429} \<longrightarrow>
         (\<exists>now e. events_of (mine i (po_trace (sy_pool y))) = [(now, e)] \<and>
            event_about h (in_request (sy_requests y ! i)) (own_id (sy_requests y ! i)) code e))) \<and>
      metric_value InFlight [] (sh_metrics (po_shared (sy_pool y))) =
        metric_value InFlight [] (sh_metrics sh) \<and>
      sh_audit (po_shared (sy_pool y)) =
        Log_all (events_of (map snd (po_trace (sy_pool y)))) (sh_audit sh)) \<and>
    (\<not> all_answered (sy_pool y) \<longrightarrow> err \<noteq> None \<and> fst (main_exit err) = 1)"
proof -
  note steps = sys_serving [OF assms(1)]
  have all: "all_answered (sy_pool y)" if "err = None"
    using drain_inv_reachable [OF assms(1)] assms(2) that by (simp add: drain_inv_def)
  have exit: "fst (main_exit err) = 1" if "err \<noteq> None" using that by (auto simp: main_exit_def)
  show ?thesis
  proof (intro conjI impI allI)
    assume "err = None"
    note books = steps all [OF this]
    show "metric_value InFlight [] (sh_metrics (po_shared (sy_pool y))) =
        metric_value InFlight [] (sh_metrics sh)"
      by (rule serving_idle [OF books])
    show "sh_audit (po_shared (sy_pool y)) =
        Log_all (events_of (map snd (po_trace (sy_pool y)))) (sh_audit sh)"
      by (rule serving_audit [OF steps])
    fix i assume "i < length (sy_requests y)"
    note answered_request [OF books this]
    then show "\<exists>c code hdr.
        po_progs (sy_pool y) ! i = Done c \<and> c_sent c = Some (code, hdr) \<and>
        (api_request (in_request (sy_requests y ! i)) \<longrightarrow>
          code \<in> {200, 400, 401, 413, 415, 429, 502, 503} \<and>
          hdr HeaderName = Some (own_id (sy_requests y ! i))) \<and>
        (rq_Method (in_request (sy_requests y ! i)) = ''POST'' \<and>
           rq_Path (in_request (sy_requests y ! i)) = ''/v1/ask'' \<and> code \<in> {200, 429} \<longrightarrow>
         (\<exists>now e. events_of (mine i (po_trace (sy_pool y))) = [(now, e)] \<and>
            event_about h (in_request (sy_requests y ! i)) (own_id (sy_requests y ! i)) code e))" .
  qed (use all exit in auto)
qed

subsection \<open>A concrete run\<close>

lemma pr_down_mono: "proc_step p q \<Longrightarrow> pr_down p l \<Longrightarrow> pr_down q l"
  by (induction rule: proc_step.induct) simp_all

lemma pr_down_steps: "proc_steps p q \<Longrightarrow> pr_down p l \<Longrightarrow> pr_down q l"
  by (induction rule: proc_steps.induct) (auto dest: pr_down_mono)

lemma sys_steps_process:
  "proc_steps p q \<Longrightarrow> sy_process y = p \<Longrightarrow> pr_down q ApiListener = pr_down p ApiListener \<Longrightarrow>
   sys_reachable version h sh y \<Longrightarrow> sys_reachable version h sh (y\<lparr>sy_process := q\<rparr>)"
proof (induction arbitrary: y rule: proc_steps.induct)
  case (here p)
  then show ?case by (metis (full_types) system.surjective system.update_convs(1))
next
  case (more p q r)
  have down: "pr_down q ApiListener = pr_down p ApiListener"
    using pr_down_mono [OF more.hyps(1)] pr_down_steps [OF more.hyps(2)] more.prems(2) by blast
  have "sys_reachable version h sh (y\<lparr>sy_process := q\<rparr>)"
    using sys_more [OF more.prems(3) process_step] more.hyps(1) more.prems(1) down by simp
  from more.IH [OF _ _ this] show ?case using more.prems(2) down by simp
qed

lemma sys_steps_accept:
  "sys_reachable version h sh y \<Longrightarrow> \<not> sy_closed y \<Longrightarrow> \<not> has_returned (sy_process y) \<Longrightarrow>
   sys_reachable version h sh (fold (accept version h) xs y) \<and>
   sy_process (fold (accept version h) xs y) = sy_process y \<and>
   sy_requests (fold (accept version h) xs y) = sy_requests y @ xs"
proof (induction xs arbitrary: y)
  case (Cons x xs)
  have "sys_reachable version h sh (accept version h x y)"
    by (rule sys_more [OF Cons.prems(1) arrives [OF Cons.prems(2,3)]])
  from Cons.IH [OF this] show ?case using Cons.prems by (simp add: accept_def)
qed simp

lemma sys_steps_serve:
  "pool_steps (h_rt h) s t \<Longrightarrow> sy_pool y = s \<Longrightarrow> sys_reachable version h sh y \<Longrightarrow>
   \<not> has_returned (sy_process y) \<Longrightarrow> sys_reachable version h sh (y\<lparr>sy_pool := t\<rparr>)"
proof (induction arbitrary: rule: pool_steps.induct)
  case (pool_start s)
  then show ?case by (metis (full_types) system.surjective system.update_convs(3))
next
  case (pool_more s t u)
  have "sys_reachable version h sh (y\<lparr>sy_pool := t\<rparr>)" by (rule pool_more.IH [OF pool_more.prems])
  then show ?case
    using sys_more serves_one [of h "y\<lparr>sy_pool := t\<rparr>" u version] pool_more.hyps(2) pool_more.prems(3)
    by fastforce
qed

text \<open>The way of the process: a signal, then, after \<open>Shutdown\<close> of the public server, the rest of \<open>run\<close>.\<close>

definition stopping :: process where
  "stopping = launch\<lparr>pr_signalled := True, pr_main := ShutdownApi (Graceful None),
     pr_log := [''shutdown signal received, draining'']\<rparr>"

lemma launch_stopping: "proc_steps launch stopping"
  unfolding stopping_def
  by (rule proc_steps.more [OF proc_step.signal], simp add: launch_def, simp add: launch_def,
      rule proc_steps.more [OF proc_step.select_signal], simp add: launch_def, simp,
      rule back_subst [where P = "proc_steps _", OF proc_steps.here], simp add: launch_def)

lemma stopping_stops: "\<exists>q. proc_steps (api_down (Graceful None) None stopping) q \<and> pr_main q = Returned None"
proof -
  note t = proc_steps.more [OF proc_step.shutdown_metrics [where err = None]]
    proc_steps.more [OF proc_step.listener_closed [where l = ApiListener]]
    proc_steps.more [OF proc_step.deliver [where l = ApiListener and r = None]]
    proc_steps.more [OF proc_step.listener_closed [where l = MetricsListener]]
    proc_steps.more [OF proc_step.deliver [where l = MetricsListener and r = None]]
    proc_steps.more [OF proc_step.wait] proc_steps.more [OF proc_step.drain]
    proc_steps.more [OF proc_step.stop] proc_steps.here
  show ?thesis
    apply (intro exI conjI)
     apply (rule t(1), simp add: api_down_def)
     apply (rule t(2), simp add: stopping_def api_down_def launch_def, simp add: api_down_def)
     apply (rule t(3), simp, simp add: stopping_def api_down_def launch_def chan_cap_def)
     apply (rule t(4), simp add: stopping_def api_down_def launch_def, simp)
     apply (rule t(5), simp, simp add: stopping_def api_down_def launch_def chan_cap_def)
     apply (rule t(6), simp, simp add: all_listeners)
     apply (rule t(7), simp, simp add: stopping_def api_down_def launch_def)
     apply (rule t(7), simp, simp, rule t(8), simp, simp, rule t(9))
    apply (simp add: finish_def)
    done
qed

text \<open>Three requests arrive and are served, a signal comes, and the process stops without an error.\<close>

theorem clean_exit_loses_nothing_witness:
  "\<exists>y. sys_reachable ''v1'' answering_handlers sample_shared y \<and>
     pr_main (sy_process y) = Returned None \<and> length (sy_requests y) = 3 \<and>
     (\<forall>i < 3. \<exists>c. po_progs (sy_pool y) ! i = Done c \<and> c_sent c \<noteq> None)"
proof -
  let ?R = "sys_reachable ''v1'' answering_handlers sample_shared"
  define y1 where "y1 = fold (accept ''v1'' answering_handlers) sample_load (start_system sample_shared)"
  have y1: "?R y1" "sy_process y1 = launch" "sy_requests y1 = sample_load"
    using sys_steps_accept [OF sys_start [of "''v1''" answering_handlers sample_shared], of sample_load]
    by (simp_all add: y1_def start_system_def has_returned_def launch_def)
  obtain s where s: "pool_steps (h_rt answering_handlers) (sy_pool y1) s"
    "\<not> (\<exists>t. pool_step (h_rt answering_handlers) s t)"
    using some_completion by blast
  then have all: "all_answered s" using pool_progress by blast
  define y2 where "y2 = y1\<lparr>sy_pool := s, sy_process := stopping\<rparr>"
  have "?R (y1\<lparr>sy_pool := s\<rparr>)"
    by (rule sys_steps_serve [OF s(1) refl y1(1)]) (simp add: y1(2) launch_def has_returned_def)
  from sys_steps_process [OF launch_stopping _ _ this] have "?R y2"
    by (simp add: y2_def y1(2) stopping_def)
  then have y3: "?R (y2\<lparr>sy_process := api_down (Graceful None) None stopping, sy_closed := True\<rparr>)"
    using sys_more [OF _ drained [of y2 "Graceful None"]] all by (simp add: y2_def stopping_def)
  obtain q where q: "proc_steps (api_down (Graceful None) None stopping) q" "pr_main q = Returned None"
    using stopping_stops by blast
  define y where "y = y2\<lparr>sy_closed := True, sy_process := q\<rparr>"
  have "pr_down q ApiListener" by (rule pr_down_steps [OF q(1)]) (simp add: api_down_def)
  then have y: "?R y" using sys_steps_process [OF q(1) _ _ y3] by (simp add: y_def api_down_def)
  have "sy_requests y = sample_load" by (simp add: y_def y2_def y1(3))
  moreover have "pr_main (sy_process y) = Returned None" by (simp add: y_def q(2))
  moreover have "\<forall>i < length (sy_requests y). \<exists>c. po_progs (sy_pool y) ! i = Done c \<and> c_sent c \<noteq> None"
    using clean_exit_loses_nothing [OF y \<open>pr_main (sy_process y) = Returned None\<close>] by blast
  ultimately show ?thesis using y by (intro exI [of _ y]) (simp add: sample_load_def)
qed

end
