(* ===== verification/Spec2Isabelle.thy ===== *)
theory Spec2Isabelle
  imports RateLimitConc AuthConc AuditTrail Quiet Admission Drain
begin

text \<open>
  A model of the opencost-ai gateway, the Go program under \<open>cmd/gateway\<close>, \<open>internal\<close> and
  \<open>pkg/apiv1\<close>: an HTTP server that authenticates callers by a bearer token, limits their rate,
  passes their questions to a bridge in front of a language model, streams the answers back, and
  keeps an audit log and metrics.

  \<^bold>\<open>How a request goes through.\<close> \<open>public_serve\<close> (\<open>newMux\<close> of \<open>main.go\<close>) answers liveness itself and gives
  everything else below \<open>/v1/\<close> to \<open>api_serve\<close> (\<open>New\<close> of \<open>server.go\<close>). A route is
  \<open>RequestId.Middleware\<close>, then \<open>metricsMiddleware\<close>, then \<open>auth_Middleware\<close>, then one of the handlers
  \<open>ask\<close>, \<open>tools\<close>, \<open>models\<close>. \<open>ask\<close> decodes and checks the body, asks the limiter, and calls the
  bridge, at once or as a stream. Each of these is a function from the request and the state to the
  state; the state is the record \<open>server\<close>: logs, metrics, audit log, limiter, token source, clock,
  and the response writer of the request being served.

  \<^bold>\<open>The theories.\<close>
  \<^item> \<open>Prelude\<close>, \<open>GoStrings\<close>: byte strings and the functions of \<open>strings\<close>, \<open>strconv\<close>, \<open>unicode/utf8\<close>
    that the program uses.
  \<^item> \<open>JsonEncode\<close>, \<open>JsonDecode\<close>, \<open>JsonStruct\<close>, \<open>JsonFacts\<close>, \<open>JsonRoundTrip\<close>: \<open>encoding/json\<close> as far
    as the program uses it: the encoder with its escapes, the scanner, the storing of values into
    struct fields, and that decoding inverts encoding.
  \<^item> \<open>ApiV1\<close> (\<open>pkg/apiv1\<close>): the wire types.
  \<^item> \<open>GoHttp\<close>: requests, the response writer of a connection, and the interface
    \<open>http.ResponseWriter\<close> as the locale \<open>response_writer\<close>; \<open>StatusWriter\<close> (\<open>middleware.go\<close>) interprets it
    a second time. \<open>ServeMux\<close>: routing.
  \<^item> \<open>RequestId\<close>, \<open>Metrics\<close>, \<open>AuditLog\<close>, \<open>RateLimit\<close>, \<open>AuthSource\<close>: the leaf packages. The last has
    the locale \<open>validator\<close> for \<open>auth.Validator\<close>, interpreted by \<open>Source\<close>. \<open>RateLimitConc\<close>,
    \<open>AuthConc\<close> and \<open>AuditTrail\<close> are the same code under concurrency, as step relations.
  \<^item> \<open>ServerState\<close>, \<open>Problem\<close>, \<open>AuthMiddleware\<close>: the shared state, problem documents, the token check.
  \<^item> \<open>BridgeTypes\<close>, \<open>BridgeStream\<close>, \<open>BridgeClient\<close> (\<open>internal/bridge\<close>): messages, the stream reader, the
    client; the interface that the server declares is the locale \<open>bridge\<close>, interpreted by the
    client.
  \<^item> \<open>Handlers\<close>, \<open>AskDecode\<close>, \<open>Upstream\<close>, \<open>Sse\<close>, \<open>AskStream\<close>, \<open>Ask\<close> (\<open>internal/server\<close>): checks,
    decoding, error mapping, frames, the streaming loop, the handlers. \<open>Answers\<close> and \<open>Server\<close>: every
    handler answers; the pipeline. \<open>Quiet\<close>: no request makes the metrics library panic.
  \<^item> \<open>ListenAddr\<close>, \<open>Config\<close> (\<open>internal/config\<close>), \<open>Gateway\<close>, \<open>Lifecycle\<close> (\<open>main.go\<close>): configuration,
    wiring, routers, and the start and stop of the process. \<open>EndToEnd\<close>: a question from the public
    listener to the network of the bridge and back.
  \<^item> \<open>Interleave\<close>: goroutines as programs of single accesses to the shared state, and pools of them.
    \<open>Programs\<close>: the handlers, the middleware and the routers as such programs, each proved equal to
    the function of the other theories when it runs alone. \<open>Concurrent\<close>, \<open>Accounts\<close>, \<open>OwnAnswers\<close>
    and \<open>Admission\<close>: what every path of a request's program does, and from it what holds of any
    number of requests at once: their responses, the books about them, the content of the answers,
    and the tokens of those that get through. \<open>Drain\<close>: the process of \<open>Lifecycle\<close> together with the
    requests that it serves.

  \<^bold>\<open>What is proved.\<close> Safety: nothing but liveness is open without a token; a handler runs only with
  the token on file, also while the file rotates; the client stays on its configured hop; nothing
  of the query reaches the audit log without the opt-in. Function: every request is answered with
  a documented status and its request ID, is counted once with that status, and leaves the audit
  event of its outcome; a question that is admitted gets the bridge's answer on the wire.
  Concurrency: the programs that are interleaved are the sequential gateway when run alone; under
  every schedule each request is answered, with its own request ID, nobody gets past the
  middleware without a token that was in the file, the metrics count exactly the requests in
  flight and the responses sent, the audit log is the events of the requests, one for each
  answered or refused question, and each caller reads the bridge's answer to its own question; a
  process that exits without an error has answered every request it has accepted. Refinement and
  equivalence: the streamed answer is the upstream's stream; the stream reader is the reference
  decoding by lines; the concurrent limiter and the concurrent audit log are the sequential ones.
  Round trips: requests, audit lines and event frames read back, the frames of a broken
  connection as the first of them. Bounds: bodies, queries, lines,
  tool labels, ports. Termination: the streaming loop, the stream reader, every execution of
  concurrent requests, and the shutdown, and what the process then reports.

  \<^bold>\<open>Loops and bounds.\<close> The streaming loop and the reader are total functions with a measure on the
  bytes left in the upstream's body; redirects have the ten hops of \<open>net/http\<close> as fuel, which is
  that library's own limit. There is no other fuel. A request's program is a datatype, so each of
  its paths is finite; what waits for the network, the call of the bridge, is a function of the
  model, so the liveness of a request is relative to the answer of the bridge, which the client's
  timeout enforces for a chat and the caller's connection for a stream.

  \<^bold>\<open>Parameters.\<close> What is not in the repository is an argument: the network (\<open>net_env\<close>), URL, duration,
  float and time parsing, quoting, SHA-256, the token bucket of \<open>golang.org/x/time\<close> (\<open>rate_lib\<close>), the
  clock, randomness, the file system's answers (\<open>observation\<close>), a failing read of a request's body,
  failing writes, and the text format of \<open>/metrics\<close>. \<open>net/http\<close> and \<open>encoding/json\<close> are those of Go
  1.26, which \<open>go.mod\<close> names.

  \<^bold>\<open>Not modelled.\<close> The grain of concurrency is one access to the shared state: a read of the clock, an
  operation on a metric, a line of the log, a section of \<open>Validate\<close> under its lock, one decision of
  the limiter, or one write of the audit log. The steps within the last two are in \<open>RateLimitConc\<close>
  and \<open>AuditTrail\<close>, and \<open>AuthConc\<close> has the token file itself change meanwhile: in the programs its
  answers to \<open>Stat\<close> and \<open>ReadFile\<close> come with the request. A call of the bridge, and a whole upstream
  stream, is one result, which each request brings with it, so that two requests with the same
  question may get different answers. \<open>Shutdown\<close> is the \<open>net/http\<close> function with
  its documented behaviour: it returns without an error only when no request is being served. A
  panic of the metrics library is a flag of the registry and what would follow it is not
  modelled; there is none. Percent-escapes and unclean paths in the router, query strings,
  cancellation by the request's context other than as an error of the bridge, TLS, tests, the
  Helm chart and the earlier prototype are not modelled.
\<close>

end
